(* ===== verification/Prelude.thy ===== *)
theory Prelude
  imports Complex_Main "HOL-Library.Code_Target_Numeral"
begin

text \<open>
  Shared vocabulary of the development: Python strings as lists of code points, fallible
  results as sums with their sequencing combinators, and the small list facts that the
  validators of every component use.
\<close>

named_theorems result_iffs "when a sequenced computation returns or fails"
named_theorems field_iffs "when a constrained field accepts a value"
named_theorems wf_simps "unfolding of well-formedness predicates"

section \<open>Strings\<close>

text \<open>
  A Python \<^verbatim>\<open>str\<close> is a sequence of code points, so \<^verbatim>\<open>len\<close> counts code points. \<open>lit\<close> writes an
  ASCII literal of the source.
\<close>

type_synonym pystr = "nat list"

definition lit :: "string \<Rightarrow> pystr" where
  "lit s = map of_char s"

lemma lit_inject [simp]: "lit s = lit t \<longleftrightarrow> s = t"
proof
  assume "lit s = lit t"
  moreover have "inj (of_char :: char \<Rightarrow> nat)" by (rule injI) simp
  ultimately show "s = t" unfolding lit_def by (metis inj_map_eq_map)
qed simp

lemma length_lit [simp]: "length (lit s) = length s"
  by (simp add: lit_def)

text \<open>A UUID is only ever compared for equality.\<close>

type_synonym uuid = nat

text \<open>
  Leading and trailing white space is removed by \<^verbatim>\<open>StringConstraints(strip_whitespace=True)\<close>
  (code points with the Unicode property White\_Space) and by \<^verbatim>\<open>str.strip\<close> (which also takes
  the separators 28 to 31).
\<close>

definition is_white :: "nat \<Rightarrow> bool" where
  "is_white c \<longleftrightarrow> (9 \<le> c \<and> c \<le> 13) \<or> c = 32 \<or> c = 133 \<or> c = 160 \<or> c = 5760
     \<or> (8192 \<le> c \<and> c \<le> 8202) \<or> c = 8232 \<or> c = 8233 \<or> c = 8239 \<or> c = 8287 \<or> c = 12288"

definition is_py_space :: "nat \<Rightarrow> bool" where
  "is_py_space c \<longleftrightarrow> is_white c \<or> (28 \<le> c \<and> c \<le> 31)"

definition strip_by :: "('a \<Rightarrow> bool) \<Rightarrow> 'a list \<Rightarrow> 'a list" where
  "strip_by P s = rev (dropWhile P (rev (dropWhile P s)))"

abbreviation strip :: "pystr \<Rightarrow> pystr" where
  "strip \<equiv> strip_by is_white"

abbreviation py_strip :: "pystr \<Rightarrow> pystr" where
  "py_strip \<equiv> strip_by is_py_space"

lemma dropWhile_rev_keeps_hd:
  "dropWhile P (rev s) \<noteq> [] \<Longrightarrow> s \<noteq> [] \<Longrightarrow> hd (rev (dropWhile P (rev s))) = hd s"
proof -
  assume ne: "dropWhile P (rev s) \<noteq> []" and "s \<noteq> []"
  have "rev s = takeWhile P (rev s) @ dropWhile P (rev s)" by simp
  then have "s = rev (dropWhile P (rev s)) @ rev (takeWhile P (rev s))"
    by (metis rev_append rev_rev_ident)
  with ne show ?thesis by (metis hd_append rev_is_Nil_conv)
qed

lemma strip_by_idem [simp]: "strip_by P (strip_by P s) = strip_by P s"
proof (cases "strip_by P s = []")
  case True
  then have "strip_by P (strip_by P s) = strip_by P []" by simp
  also have "\<dots> = []" by (simp add: strip_by_def)
  finally show ?thesis by (simp add: True)
next
  case False
  define t where "t = dropWhile P s"
  have r: "strip_by P s = rev (dropWhile P (rev t))" by (simp add: strip_by_def t_def)
  with False have ne: "dropWhile P (rev t) \<noteq> []" by simp
  then have "t \<noteq> []" by auto
  then have "\<not> P (hd t)" unfolding t_def by (metis hd_dropWhile)
  moreover have "hd (strip_by P s) = hd t"
    using dropWhile_rev_keeps_hd [OF ne \<open>t \<noteq> []\<close>] r by simp
  ultimately have a: "dropWhile P (strip_by P s) = strip_by P s"
    by (simp add: dropWhile_eq_self_iff)
  have b: "dropWhile P (rev (strip_by P s)) = rev (strip_by P s)"
    unfolding r using ne by (simp add: dropWhile_eq_self_iff hd_dropWhile)
  show ?thesis by (simp add: strip_by_def [of P "strip_by P s"] a b)
qed

lemma strip_by_keeps:
  "s \<noteq> [] \<Longrightarrow> \<not> P (hd s) \<Longrightarrow> \<not> P (last s) \<Longrightarrow> strip_by P s = s"
proof -
  assume ne: "s \<noteq> []" and h: "\<not> P (hd s)" and l: "\<not> P (last s)"
  have "dropWhile P s = s" using ne h by (simp add: dropWhile_eq_self_iff)
  moreover have "dropWhile P (rev s) = rev s" using ne l by (simp add: dropWhile_eq_self_iff hd_rev)
  ultimately show "strip_by P s = s" by (simp add: strip_by_def)
qed

lemma strip_by_ends:
  assumes "strip_by P s = s" "s \<noteq> []"
  shows "\<not> P (hd s)" "\<not> P (last s)"
proof -
  have r: "s = rev (dropWhile P (rev (dropWhile P s)))" using assms(1) by (simp add: strip_by_def)
  have "dropWhile P s = s"
  proof (rule ccontr)
    assume "dropWhile P s \<noteq> s"
    then have "length (dropWhile P s) < length s"
      by (metis append_self_conv2 length_append less_add_same_cancel2 length_greater_0_conv
            takeWhile_dropWhile_id)
    moreover have "length s \<le> length (dropWhile P s)"
      by (subst r) (metis length_dropWhile_le length_rev)
    ultimately show False by simp
  qed
  then show "\<not> P (hd s)" using assms(2) by (simp add: dropWhile_eq_self_iff)
  have "dropWhile P (rev s) = rev s" using r \<open>dropWhile P s = s\<close> by (metis rev_rev_ident)
  then show "\<not> P (last s)" using assms(2) by (simp add: dropWhile_eq_self_iff hd_rev)
qed

lemma strip_by_none: "list_all (\<lambda>c. \<not> P c) s \<Longrightarrow> strip_by P s = s"
proof (cases "s = []")
  case False
  assume "list_all (\<lambda>c. \<not> P c) s"
  with False show ?thesis by (intro strip_by_keeps) (auto simp: list_all_iff)
qed (simp add: strip_by_def)

section \<open>Fallible results\<close>

text \<open>
  An expression that may raise returns \<open>Inl\<close> of the exception or \<open>Inr\<close> of its value;
  \<open>bindE\<close> is statement sequencing and \<open>mapE\<close> the comprehension that stops at the first raise.
\<close>

fun bindE :: "'e + 'a \<Rightarrow> ('a \<Rightarrow> 'e + 'b) \<Rightarrow> 'e + 'b" where
  "bindE (Inl e) f = Inl e"
| "bindE (Inr x) f = f x"

fun mapE :: "('a \<Rightarrow> 'e + 'b) \<Rightarrow> 'a list \<Rightarrow> 'e + 'b list" where
  "mapE f [] = Inr []"
| "mapE f (x # xs) = bindE (f x) (\<lambda>y. bindE (mapE f xs) (\<lambda>ys. Inr (y # ys)))"

definition requireE :: "'e \<Rightarrow> bool \<Rightarrow> 'e + unit" where
  "requireE e b = (if b then Inr () else Inl e)"

lemma bindE_cong [fundef_cong]:
  "m = m' \<Longrightarrow> (\<And>x. m' = Inr x \<Longrightarrow> f x = g x) \<Longrightarrow> bindE m f = bindE m' g"
  by (cases m') auto

lemma bindE_Inr_iff [result_iffs]:
  "bindE m f = Inr y \<longleftrightarrow> (\<exists>x. m = Inr x \<and> f x = Inr y)"
  by (cases m) auto

lemma bindE_Inl_iff [result_iffs]:
  "bindE m f = Inl e \<longleftrightarrow> m = Inl e \<or> (\<exists>x. m = Inr x \<and> f x = Inl e)"
  by (cases m) auto

lemma requireE_Inr_iff [result_iffs]: "requireE e b = Inr u \<longleftrightarrow> b"
  by (simp add: requireE_def)

lemma requireE_Inl_iff [result_iffs]: "requireE e b = Inl e' \<longleftrightarrow> \<not> b \<and> e' = e"
  by (auto simp: requireE_def)

lemma mapE_Inr_iff: "mapE f xs = Inr ys \<longleftrightarrow> list_all2 (\<lambda>x y. f x = Inr y) xs ys"
  by (induction xs arbitrary: ys) (auto simp: result_iffs list_all2_Cons1)

lemma mapE_pure: "(\<And>x. x \<in> set xs \<Longrightarrow> f x = Inr (g x)) \<Longrightarrow> mapE f xs = Inr (map g xs)"
  by (induction xs) auto

lemma mapE_Inl_D: "mapE f xs = Inl e \<Longrightarrow> \<exists>x \<in> set xs. f x = Inl e"
  by (induction xs) (auto simp: result_iffs)

lemma mapE_length: "mapE f xs = Inr ys \<Longrightarrow> length ys = length xs"
  by (simp add: mapE_Inr_iff list_all2_lengthD)

lemma ex_unit [simp]: "(\<exists>x :: unit. P x) \<longleftrightarrow> P ()"
  by (metis (full_types) old.unit.exhaust)

definition is_ok :: "'e + 'a \<Rightarrow> bool" where
  "is_ok r = (case r of Inl _ \<Rightarrow> False | Inr _ \<Rightarrow> True)"

lemma is_ok_simps [simp]: "is_ok (Inr x)" "\<not> is_ok (Inl e)"
  by (simp_all add: is_ok_def)

lemma is_ok_iff: "is_ok r \<longleftrightarrow> (\<exists>x. r = Inr x)"
  by (cases r) auto

section \<open>Lists\<close>

text \<open>\<^verbatim>\<open>len(set(xs)) == len(xs)\<close>, the uniqueness test of the validators.\<close>

definition all_unique :: "'a list \<Rightarrow> bool" where
  "all_unique xs \<longleftrightarrow> length (remdups xs) = length xs"

lemma all_unique_iff_distinct [simp]: "all_unique xs \<longleftrightarrow> distinct xs"
  by (auto simp: all_unique_def length_remdups_card_conv card_distinct distinct_card)

text \<open>\<^verbatim>\<open>set(xs).issubset(ys)\<close>.\<close>

definition subset_of :: "'a list \<Rightarrow> 'a list \<Rightarrow> bool" where
  "subset_of xs ys \<longleftrightarrow> list_all (\<lambda>x. x \<in> set ys) xs"

lemma subset_of_iff [simp]: "subset_of xs ys \<longleftrightarrow> set xs \<subseteq> set ys"
  by (auto simp: subset_of_def list_all_iff)

text \<open>A dict comprehension: a later binding of the same key wins.\<close>

definition dict_of :: "('k \<times> 'v) list \<Rightarrow> 'k \<rightharpoonup> 'v" where
  "dict_of kvs = map_of (rev kvs)"

lemma dict_of_distinct: "distinct (map fst kvs) \<Longrightarrow> dict_of kvs = map_of kvs"
  by (auto simp: dict_of_def intro!: map_of_inject_set [THEN iffD2] simp: rev_map [symmetric])

lemma dict_of_keys: "dict_of kvs k \<noteq> None \<longleftrightarrow> k \<in> fst ` set kvs"
  by (metis dict_of_def map_of_eq_None_iff set_rev)

text \<open>The first element with a property, or nothing.\<close>

lemma find_map_Some_mem: "List.find P xs = Some x \<Longrightarrow> x \<in> set xs \<and> P x"
  by (auto simp: find_Some_iff)

lemma find_unique:
  "distinct (map f xs) \<Longrightarrow> x \<in> set xs \<Longrightarrow> List.find (\<lambda>y. f y = f x) xs = Some x"
  by (induction xs) (auto simp: rev_image_eqI)

section \<open>Validators\<close>

text \<open>
  A model's constructor normalises and checks its fields. What it returns is in normal form:
  constructing it again changes nothing. Validators are closed under optional and repeated
  fields.
\<close>

definition is_valid :: "('a \<Rightarrow> 'e + 'a) \<Rightarrow> 'a \<Rightarrow> bool" where
  "is_valid v x \<longleftrightarrow> (case v x of Inl _ \<Rightarrow> False | Inr y \<Rightarrow> y = x)"

lemma is_valid_iff: "is_valid v x \<longleftrightarrow> v x = Inr x"
  by (auto simp: is_valid_def split: sum.splits)

locale validator =
  fixes validate :: "'a \<Rightarrow> 'e + 'a"
  assumes normal: "validate x = Inr y \<Longrightarrow> validate y = Inr y"
begin

lemma result_valid: "validate x = Inr y \<Longrightarrow> is_valid validate y"
  by (simp add: is_valid_iff normal)

lemma mapE_normal: "mapE validate xs = Inr ys \<Longrightarrow> mapE validate ys = Inr ys"
  by (induction xs arbitrary: ys) (auto simp: result_iffs normal)

lemma mapE_valid: "mapE validate xs = Inr ys \<Longrightarrow> \<forall>y \<in> set ys. is_valid validate y"
  by (induction xs arbitrary: ys) (auto simp: result_iffs result_valid)

lemma mapE_unchanged: "(\<forall>x \<in> set xs. is_valid validate x) \<Longrightarrow> mapE validate xs = Inr xs"
  by (induction xs) (auto simp: is_valid_iff)

lemmas validator_laws = normal mapE_normal mapE_valid mapE_unchanged

end

end
