(* ===== verification/Errors.thy ===== *)
theory Errors
  imports Prelude
begin

text \<open>
  The public error taxonomy of \<^verbatim>\<open>domain/errors.py\<close>, the failure codes of the agent runtime
  (\<^verbatim>\<open>agent_runtime/contracts.py\<close>) and the exceptions that the modelled functions raise. The
  texts shown to users are Russian; they are written as code points.
\<close>

section \<open>Public error codes\<close>

datatype error_code = INVALID_INPUT | UNAUTHENTICATED | FORBIDDEN | PAYLOAD_TOO_LARGE
   | UNSUPPORTED_MEDIA | INVALID_REQUEST | INVALID_URL | INVALID_AUDIO | NO_SPEECH
   | ROLE_RESOLUTION_REQUIRED | QUOTA_EXCEEDED | PROVIDER_FAILURE | AGENT_FAILURE
   | DEADLINE_EXCEEDED | SERVICE_UNAVAILABLE | INTERNAL_ERROR

fun error_code_value :: "error_code \<Rightarrow> pystr" where
  "error_code_value INVALID_INPUT = lit ''invalid_input''"
| "error_code_value UNAUTHENTICATED = lit ''unauthenticated''"
| "error_code_value FORBIDDEN = lit ''forbidden''"
| "error_code_value PAYLOAD_TOO_LARGE = lit ''payload_too_large''"
| "error_code_value UNSUPPORTED_MEDIA = lit ''unsupported_media''"
| "error_code_value INVALID_REQUEST = lit ''invalid_request''"
| "error_code_value INVALID_URL = lit ''invalid_url''"
| "error_code_value INVALID_AUDIO = lit ''invalid_audio''"
| "error_code_value NO_SPEECH = lit ''no_speech''"
| "error_code_value ROLE_RESOLUTION_REQUIRED = lit ''role_resolution_required''"
| "error_code_value QUOTA_EXCEEDED = lit ''quota_exceeded''"
| "error_code_value PROVIDER_FAILURE = lit ''provider_failure''"
| "error_code_value AGENT_FAILURE = lit ''agent_failure''"
| "error_code_value DEADLINE_EXCEEDED = lit ''deadline_exceeded''"
| "error_code_value SERVICE_UNAVAILABLE = lit ''service_unavailable''"
| "error_code_value INTERNAL_ERROR = lit ''internal_error''"

record error_spec =
  status_code :: int
  spec_message :: pystr
  retryable :: bool

text \<open>\<^verbatim>\<open>ERROR_SPECS\<close>, one row per code.\<close>

fun error_specs :: "error_code \<Rightarrow> error_spec" where
  "error_specs INVALID_INPUT = \<lparr>status_code = 400, spec_message =
       [1053, 1091, 1078, 1085, 1086, 32, 1087, 1077, 1088, 1077, 1076, 1072, 1090, 1100,
        32, 1088, 1086, 1074, 1085, 1086, 32, 1086, 1076, 1080, 1085, 32, 1080, 1089,
        1090, 1086, 1095, 1085, 1080, 1082, 32, 1072, 1091, 1076, 1080, 1086, 46],
       retryable = False\<rparr>"
| "error_specs UNAUTHENTICATED = \<lparr>status_code = 401, spec_message =
       [1058, 1088, 1077, 1073, 1091, 1077, 1090, 1089, 1103, 32, 1072, 1091, 1090, 1077,
        1085, 1090, 1080, 1092, 1080, 1082, 1072, 1094, 1080, 1103, 46],
       retryable = False\<rparr>"
| "error_specs FORBIDDEN = \<lparr>status_code = 403, spec_message =
       [1044, 1086, 1089, 1090, 1091, 1087, 32, 1079, 1072, 1087, 1088, 1077, 1097, 1105,
        1085, 46],
       retryable = False\<rparr>"
| "error_specs PAYLOAD_TOO_LARGE = \<lparr>status_code = 413, spec_message =
       [1040, 1091, 1076, 1080, 1086, 1092, 1072, 1081, 1083, 32, 1087, 1088, 1077, 1074,
        1099, 1096, 1072, 1077, 1090, 32, 1076, 1086, 1087, 1091, 1089, 1090, 1080, 1084,
        1099, 1081, 32, 1088, 1072, 1079, 1084, 1077, 1088, 46],
       retryable = False\<rparr>"
| "error_specs UNSUPPORTED_MEDIA = \<lparr>status_code = 415, spec_message =
       [1058, 1080, 1087, 32, 1089, 1086, 1076, 1077, 1088, 1078, 1080, 1084, 1086, 1075,
        1086, 32, 1085, 1077, 32, 1087, 1086, 1076, 1076, 1077, 1088, 1078, 1080, 1074,
        1072, 1077, 1090, 1089, 1103, 46],
       retryable = False\<rparr>"
| "error_specs INVALID_REQUEST = \<lparr>status_code = 422, spec_message =
       [1058, 1077, 1083, 1086, 32, 1079, 1072, 1087, 1088, 1086, 1089, 1072, 32, 1085,
        1077, 1082, 1086, 1088, 1088, 1077, 1082, 1090, 1085, 1086, 46],
       retryable = False\<rparr>"
| "error_specs INVALID_URL = \<lparr>status_code = 422, spec_message =
       [85, 82, 76, 32, 1080, 1089, 1090, 1086, 1095, 1085, 1080, 1082, 1072, 32, 1085,
        1077, 1082, 1086, 1088, 1088, 1077, 1082, 1090, 1077, 1085, 46],
       retryable = False\<rparr>"
| "error_specs INVALID_AUDIO = \<lparr>status_code = 422, spec_message =
       [1040, 1091, 1076, 1080, 1086, 1076, 1072, 1085, 1085, 1099, 1077, 32, 1085, 1077,
        1082, 1086, 1088, 1088, 1077, 1082, 1090, 1085, 1099, 46],
       retryable = False\<rparr>"
| "error_specs NO_SPEECH = \<lparr>status_code = 422, spec_message =
       [1042, 32, 1072, 1091, 1076, 1080, 1086, 1079, 1072, 1087, 1080, 1089, 1080, 32,
        1085, 1077, 32, 1086, 1073, 1085, 1072, 1088, 1091, 1078, 1077, 1085, 1072, 32,
        1088, 1077, 1095, 1100, 46],
       retryable = False\<rparr>"
| "error_specs ROLE_RESOLUTION_REQUIRED = \<lparr>status_code = 409, spec_message =
       [1053, 1091, 1078, 1085, 1086, 32, 1087, 1086, 1076, 1090, 1074, 1077, 1088, 1076,
        1080, 1090, 1100, 32, 1088, 1086, 1083, 1080, 32, 1075, 1086, 1074, 1086, 1088,
        1103, 1097, 1080, 1093, 46],
       retryable = False\<rparr>"
| "error_specs QUOTA_EXCEEDED = \<lparr>status_code = 429, spec_message =
       [1050, 1074, 1086, 1090, 1072, 32, 1079, 1072, 1087, 1088, 1086, 1089, 1086, 1074,
        32, 1080, 1089, 1095, 1077, 1088, 1087, 1072, 1085, 1072, 46],
       retryable = True\<rparr>"
| "error_specs PROVIDER_FAILURE = \<lparr>status_code = 502, spec_message =
       [1042, 1085, 1077, 1096, 1085, 1080, 1081, 32, 1087, 1088, 1086, 1074, 1072, 1081,
        1076, 1077, 1088, 32, 1079, 1072, 1074, 1077, 1088, 1096, 1080, 1083, 32, 1079,
        1072, 1087, 1088, 1086, 1089, 32, 1089, 32, 1086, 1096, 1080, 1073, 1082, 1086,
        1081, 46],
       retryable = True\<rparr>"
| "error_specs AGENT_FAILURE = \<lparr>status_code = 502, spec_message =
       [1040, 1075, 1077, 1085, 1090, 32, 1072, 1085, 1072, 1083, 1080, 1079, 1072, 32,
        1079, 1072, 1074, 1077, 1088, 1096, 1080, 1083, 32, 1079, 1072, 1087, 1088, 1086,
        1089, 32, 1089, 32, 1086, 1096, 1080, 1073, 1082, 1086, 1081, 46],
       retryable = True\<rparr>"
| "error_specs DEADLINE_EXCEEDED = \<lparr>status_code = 504, spec_message =
       [1048, 1089, 1090, 1105, 1082, 32, 1089, 1088, 1086, 1082, 32, 1074, 1099, 1087,
        1086, 1083, 1085, 1077, 1085, 1080, 1103, 32, 1072, 1085, 1072, 1083, 1080, 1079,
        1072, 46],
       retryable = True\<rparr>"
| "error_specs SERVICE_UNAVAILABLE = \<lparr>status_code = 503, spec_message =
       [1057, 1077, 1088, 1074, 1080, 1089, 32, 1072, 1085, 1072, 1083, 1080, 1079, 1072,
        32, 1087, 1086, 1082, 1072, 32, 1085, 1077, 1076, 1086, 1089, 1090, 1091, 1087,
        1077, 1085, 46],
       retryable = True\<rparr>"
| "error_specs INTERNAL_ERROR = \<lparr>status_code = 500, spec_message =
       [1042, 1085, 1091, 1090, 1088, 1077, 1085, 1085, 1103, 1103, 32, 1086, 1096, 1080,
        1073, 1082, 1072, 32, 1089, 1077, 1088, 1074, 1080, 1089, 1072, 46],
       retryable = False\<rparr>"

section \<open>Failure codes of the agent runtime\<close>

datatype agent_failure_code = FAIL_BUDGET_EXCEEDED | FAIL_DEADLINE_EXCEEDED
   | FAIL_TURN_LIMIT_EXCEEDED | FAIL_TEXT_COMPLETION_REJECTED
   | FAIL_MALFORMED_PROVIDER_RESPONSE | FAIL_UNKNOWN_TOOL | FAIL_DUPLICATE_TOOL_CALL_ID
   | FAIL_TOOL_ARGUMENTS_INVALID | FAIL_TOOL_NOT_ALLOWED | FAIL_TOOL_TIMEOUT
   | FAIL_TOOL_EXECUTION_FAILED | FAIL_TOOL_LOOP_GUARD | FAIL_OBSERVATION_TOO_LARGE
   | FAIL_REQUIRED_RETRIEVAL_MISSING | FAIL_TERMINAL_SUBMIT_MISSING
   | FAIL_TERMINAL_SUBMIT_INVALID | FAIL_POST_TERMINAL_TOOL_CALL | FAIL_POLICY_VERSION_MISMATCH
   | FAIL_MODEL_MISMATCH | FAIL_UNEXPECTED_RUNTIME_FAILURE | FAIL_CIRCUIT_OPEN
   | FAIL_PROVIDER_AUTHENTICATION | FAIL_PROVIDER_PERMISSION | FAIL_PROVIDER_INVALID_REQUEST
   | FAIL_PROVIDER_TOOL_USE_FAILED | FAIL_PROVIDER_RATE_LIMITED | FAIL_PROVIDER_TIMEOUT
   | FAIL_PROVIDER_TRANSPORT | FAIL_PROVIDER_SERVER

fun failure_code_value :: "agent_failure_code \<Rightarrow> pystr" where
  "failure_code_value FAIL_BUDGET_EXCEEDED = lit ''budget_exceeded''"
| "failure_code_value FAIL_DEADLINE_EXCEEDED = lit ''deadline_exceeded''"
| "failure_code_value FAIL_TURN_LIMIT_EXCEEDED = lit ''turn_limit_exceeded''"
| "failure_code_value FAIL_TEXT_COMPLETION_REJECTED = lit ''text_completion_rejected''"
| "failure_code_value FAIL_MALFORMED_PROVIDER_RESPONSE = lit ''malformed_provider_response''"
| "failure_code_value FAIL_UNKNOWN_TOOL = lit ''unknown_tool''"
| "failure_code_value FAIL_DUPLICATE_TOOL_CALL_ID = lit ''duplicate_tool_call_id''"
| "failure_code_value FAIL_TOOL_ARGUMENTS_INVALID = lit ''tool_arguments_invalid''"
| "failure_code_value FAIL_TOOL_NOT_ALLOWED = lit ''tool_not_allowed''"
| "failure_code_value FAIL_TOOL_TIMEOUT = lit ''tool_timeout''"
| "failure_code_value FAIL_TOOL_EXECUTION_FAILED = lit ''tool_execution_failed''"
| "failure_code_value FAIL_TOOL_LOOP_GUARD = lit ''tool_loop_guard''"
| "failure_code_value FAIL_OBSERVATION_TOO_LARGE = lit ''observation_too_large''"
| "failure_code_value FAIL_REQUIRED_RETRIEVAL_MISSING = lit ''required_retrieval_missing''"
| "failure_code_value FAIL_TERMINAL_SUBMIT_MISSING = lit ''terminal_submit_missing''"
| "failure_code_value FAIL_TERMINAL_SUBMIT_INVALID = lit ''terminal_submit_invalid''"
| "failure_code_value FAIL_POST_TERMINAL_TOOL_CALL = lit ''post_terminal_tool_call''"
| "failure_code_value FAIL_POLICY_VERSION_MISMATCH = lit ''policy_version_mismatch''"
| "failure_code_value FAIL_MODEL_MISMATCH = lit ''model_mismatch''"
| "failure_code_value FAIL_UNEXPECTED_RUNTIME_FAILURE = lit ''unexpected_runtime_failure''"
| "failure_code_value FAIL_CIRCUIT_OPEN = lit ''circuit_open''"
| "failure_code_value FAIL_PROVIDER_AUTHENTICATION = lit ''provider_authentication''"
| "failure_code_value FAIL_PROVIDER_PERMISSION = lit ''provider_permission''"
| "failure_code_value FAIL_PROVIDER_INVALID_REQUEST = lit ''provider_invalid_request''"
| "failure_code_value FAIL_PROVIDER_TOOL_USE_FAILED = lit ''provider_tool_use_failed''"
| "failure_code_value FAIL_PROVIDER_RATE_LIMITED = lit ''provider_rate_limited''"
| "failure_code_value FAIL_PROVIDER_TIMEOUT = lit ''provider_timeout''"
| "failure_code_value FAIL_PROVIDER_TRANSPORT = lit ''provider_transport''"
| "failure_code_value FAIL_PROVIDER_SERVER = lit ''provider_server''"


section \<open>Exceptions\<close>

text \<open>
  The exception classes the modelled code raises or catches. \<open>ValidationError\<close> is pydantic's;
  it, \<open>AggregationError\<close> and \<open>PolicyLoadError\<close> are subclasses of Python's \<open>ValueError\<close>.
\<close>

datatype url_fetch_failure = UF_INVALID_URL | UF_BLOCKED_ADDRESS | UF_REDIRECT_LIMIT
  | UF_UNSUPPORTED_MEDIA | UF_PAYLOAD_TOO_LARGE | UF_TIMEOUT | UF_UNAVAILABLE

datatype exn = ValidationError | ValueError | TypeError | KeyError | AssertionError
  | RuntimeError | TimeoutError | IntegrityError
  | AgentRuntimeError agent_failure_code
  | DomainError error_code
  | UrlFetchError url_fetch_failure
  | AggregationError | PolicyLoadError | PersistenceFailure
  | RoleResolutionRequiredError | TrendRejected | EventRedactionError
  | StreamingProtocolError | StreamingAdapterUnavailable
  | SpeechConfigurationError | MediaValidationError | UnsupportedMediaError | MediaTimeoutError
  | NoSpeechError | SpeechDeadlineExceededError | SpeechProviderError | SpeechOverloadedError
  | WebSocketDisconnect | HttpError
  | OtherError

text \<open>The classes a handler for \<^verbatim>\<open>ValueError\<close> catches.\<close>

fun is_value_error :: "exn \<Rightarrow> bool" where
  "is_value_error ValidationError = True"
| "is_value_error ValueError = True"
| "is_value_error AggregationError = True"
| "is_value_error PolicyLoadError = True"
| "is_value_error TrendRejected = True"
| "is_value_error EventRedactionError = True"
| "is_value_error StreamingProtocolError = True"
| "is_value_error _ = False"

text \<open>
  The classes a handler for \<^verbatim>\<open>RuntimeError\<close> catches, as far as the code defines them:
  \<^verbatim>\<open>StreamingAdapterUnavailable\<close>, \<^verbatim>\<open>AgentRuntimeError\<close>, \<^verbatim>\<open>UrlFetchError\<close> and \<^verbatim>\<open>_PersistenceFailure\<close>.
\<close>

fun is_runtime_error :: "exn \<Rightarrow> bool" where
  "is_runtime_error RuntimeError = True"
| "is_runtime_error StreamingAdapterUnavailable = True"
| "is_runtime_error (AgentRuntimeError c) = True"
| "is_runtime_error (UrlFetchError f) = True"
| "is_runtime_error PersistenceFailure = True"
| "is_runtime_error _ = False"

end
