(* ===== verification/Base.thy ===== *)
theory Base
  imports Errors
begin

text \<open>
  The constrained scalar types of \<^verbatim>\<open>domain/base.py\<close> and the public error response of
  \<^verbatim>\<open>domain/errors.py\<close>. A finite double is represented by the decimal value of its
  \<^verbatim>\<open>repr\<close>: the representation is injective and monotone, so every comparison of the source is a
  comparison of rationals, and \<^verbatim>\<open>Decimal(str(x))\<close> is the representation itself.
\<close>

type_synonym pyfloat = rat

section \<open>Constrained strings\<close>

text \<open>\<^verbatim>\<open>StringConstraints(strip_whitespace=True, min_length=lo, max_length=hi)\<close>\<close>

definition constrained_str :: "nat \<Rightarrow> nat \<Rightarrow> pystr \<Rightarrow> exn + pystr" where
  "constrained_str lo hi s =
     (let t = strip s in if lo \<le> length t \<and> length t \<le> hi then Inr t else Inl ValidationError)"

definition non_empty_id :: "pystr \<Rightarrow> exn + pystr" where
  "non_empty_id = constrained_str 1 256"

definition long_text :: "pystr \<Rightarrow> exn + pystr" where
  "long_text = constrained_str 1 20000"

fun optional :: "('a \<Rightarrow> exn + 'a) \<Rightarrow> 'a option \<Rightarrow> exn + 'a option" where
  "optional f None = Inr None"
| "optional f (Some x) = bindE (f x) (\<lambda>y. Inr (Some y))"

definition is_hex_lower :: "nat \<Rightarrow> bool" where
  "is_hex_lower c \<longleftrightarrow> (48 \<le> c \<and> c \<le> 57) \<or> (97 \<le> c \<and> c \<le> 102)"

definition sha256 :: "pystr \<Rightarrow> exn + pystr" where
  "sha256 s = (if length s = 64 \<and> list_all is_hex_lower s then Inr s else Inl ValidationError)"

text \<open>The normal forms: values that the validators return unchanged.\<close>

definition is_text :: "nat \<Rightarrow> pystr \<Rightarrow> bool" where
  "is_text hi s \<longleftrightarrow> strip s = s \<and> 1 \<le> length s \<and> length s \<le> hi"

abbreviation is_id :: "pystr \<Rightarrow> bool" where "is_id \<equiv> is_text 256"
abbreviation is_long_text :: "pystr \<Rightarrow> bool" where "is_long_text \<equiv> is_text 20000"
abbreviation is_sha256 :: "pystr \<Rightarrow> bool" where "is_sha256 s \<equiv> is_ok (sha256 s)"

lemma constrained_str_Inr_iff:
  "constrained_str lo hi s = Inr t \<longleftrightarrow> t = strip s \<and> lo \<le> length t \<and> length t \<le> hi"
  by (auto simp: constrained_str_def Let_def)

lemma constrained_str_Inl_iff:
  "constrained_str lo hi s = Inl e \<longleftrightarrow>
     e = ValidationError \<and> \<not> (lo \<le> length (strip s) \<and> length (strip s) \<le> hi)"
  by (auto simp: constrained_str_def Let_def)

lemma non_empty_id_is_id: "non_empty_id s = Inr t \<Longrightarrow> is_id t"
  by (auto simp: non_empty_id_def constrained_str_Inr_iff is_text_def)

lemma long_text_is_long_text: "long_text s = Inr t \<Longrightarrow> is_long_text t"
  by (auto simp: long_text_def constrained_str_Inr_iff is_text_def)

lemma non_empty_id_id [simp]: "is_id s \<Longrightarrow> non_empty_id s = Inr s"
  by (auto simp: non_empty_id_def constrained_str_Inr_iff is_text_def)

lemma long_text_id [simp]: "is_long_text s \<Longrightarrow> long_text s = Inr s"
  by (auto simp: long_text_def constrained_str_Inr_iff is_text_def)

lemma sha256_Inr_iff [result_iffs]: "sha256 s = Inr t \<longleftrightarrow> t = s \<and> is_sha256 s"
  by (auto simp: sha256_def)

lemma is_id_long_text: "is_id s \<Longrightarrow> is_long_text s"
  by (simp add: is_text_def)

section \<open>Constrained numbers\<close>

definition confidence :: "pyfloat \<Rightarrow> exn + pyfloat" where
  "confidence x = (if 0 \<le> x \<and> x \<le> 1 then Inr x else Inl ValidationError)"

definition non_negative :: "'a :: {zero, ord} \<Rightarrow> exn + 'a" where
  "non_negative x = (if 0 \<le> x then Inr x else Inl ValidationError)"

definition positive :: "'a :: {zero, ord} \<Rightarrow> exn + 'a" where
  "positive x = (if 0 < x then Inr x else Inl ValidationError)"

lemma confidence_Inr_iff [result_iffs]: "confidence x = Inr y \<longleftrightarrow> y = x \<and> 0 \<le> x \<and> x \<le> 1"
  by (auto simp: confidence_def)

lemma non_negative_Inr_iff [result_iffs]: "non_negative x = Inr y \<longleftrightarrow> y = x \<and> 0 \<le> x"
  by (auto simp: non_negative_def)

lemma positive_Inr_iff [result_iffs]: "positive x = Inr y \<longleftrightarrow> y = x \<and> 0 < x"
  by (auto simp: positive_def)

text \<open>The constrained scalar types are normal forms of their validators.\<close>

interpretation id_type: validator non_empty_id
  by unfold_locales (auto simp: non_empty_id_def constrained_str_Inr_iff)

interpretation text_type: validator long_text
  by unfold_locales (auto simp: long_text_def constrained_str_Inr_iff)

lemma optional_normal:
  "(\<And>x y. f x = Inr y \<Longrightarrow> f y = Inr y) \<Longrightarrow> optional f x = Inr y \<Longrightarrow> optional f y = Inr y"
  by (cases x) (auto simp: result_iffs)

lemma optional_id_normal: "optional non_empty_id x = Inr y \<Longrightarrow> optional non_empty_id y = Inr y"
  by (erule optional_normal [rotated]) (rule id_type.normal)

lemma optional_confidence_normal [simp]:
  "optional confidence x = Inr y \<longleftrightarrow> y = x \<and> (\<forall>c. x = Some c \<longrightarrow> 0 \<le> c \<and> c \<le> 1)"
  by (cases x) (auto simp: result_iffs)

lemma optional_sha256_iff [simp]:
  "optional sha256 x = Inr y \<longleftrightarrow> y = x \<and> (\<forall>s. x = Some s \<longrightarrow> is_sha256 s)"
  by (cases x) (auto simp: result_iffs)

lemma optional_non_negative_iff [simp]:
  "optional non_negative x = Inr y \<longleftrightarrow> y = x \<and> (\<forall>s. x = Some s \<longrightarrow> 0 \<le> s)"
  by (cases x) (auto simp: result_iffs)

lemma non_empty_id_Inr_iff [field_iffs]:
  "non_empty_id s = Inr t \<longleftrightarrow> t = strip s \<and> strip s \<noteq> [] \<and> length (strip s) \<le> 256"
  by (auto simp: non_empty_id_def constrained_str_Inr_iff Suc_le_eq)

lemma long_text_Inr_iff [field_iffs]:
  "long_text s = Inr t \<longleftrightarrow> t = strip s \<and> strip s \<noteq> [] \<and> length (strip s) \<le> 20000"
  by (auto simp: long_text_def constrained_str_Inr_iff Suc_le_eq)

lemma strip_by_comp [simp]: "strip_by P \<circ> strip_by P = strip_by P"
  by (rule ext) simp

lemma mapE_long_text_iff [field_iffs]:
  "mapE long_text xs = Inr ys \<longleftrightarrow>
     ys = map strip xs \<and> (\<forall>x \<in> set xs. strip x \<noteq> [] \<and> length (strip x) \<le> 20000)"
  by (induction xs arbitrary: ys) (auto simp: result_iffs field_iffs)

lemma map_option_strip_idem [simp]: "map_option (strip_by P) (map_option (strip_by P) x) = map_option (strip_by P) x"
  by (cases x) auto

lemma optional_id_Inr_iff [field_iffs]:
  "optional non_empty_id x = Inr y \<longleftrightarrow>
     y = map_option strip x \<and> (\<forall>s. x = Some s \<longrightarrow> strip s \<noteq> [] \<and> length (strip s) \<le> 256)"
  by (cases x) (auto simp: result_iffs field_iffs)

section \<open>Canonical ISO dates\<close>

text \<open>
  \<^verbatim>\<open>date.fromisoformat(value).isoformat() == value\<close>: exactly the strings YYYY-MM-DD that name a
  day of the proleptic Gregorian calendar between the years 1 and 9999.
\<close>

definition digit :: "nat \<Rightarrow> bool" where
  "digit c \<longleftrightarrow> 48 \<le> c \<and> c \<le> 57"

fun digits_value :: "nat list \<Rightarrow> nat \<Rightarrow> nat" where
  "digits_value [] a = a"
| "digits_value (c # cs) a = digits_value cs (10 * a + (c - 48))"

definition leap_year :: "nat \<Rightarrow> bool" where
  "leap_year y \<longleftrightarrow> y mod 4 = 0 \<and> (y mod 100 \<noteq> 0 \<or> y mod 400 = 0)"

definition days_in_month :: "nat \<Rightarrow> nat \<Rightarrow> nat" where
  "days_in_month y m =
     (if m = 2 then (if leap_year y then 29 else 28)
      else if m \<in> {4, 6, 9, 11} then 30 else 31)"

definition canonical_iso_date :: "pystr \<Rightarrow> bool" where
  "canonical_iso_date s \<longleftrightarrow>
     (case s of
        [y1, y2, y3, y4, h1, m1, m2, h2, d1, d2] \<Rightarrow>
          h1 = 45 \<and> h2 = 45 \<and> list_all digit [y1, y2, y3, y4, m1, m2, d1, d2] \<and>
          (let y = digits_value [y1, y2, y3, y4] 0; m = digits_value [m1, m2] 0;
               d = digits_value [d1, d2] 0
           in 1 \<le> y \<and> 1 \<le> m \<and> m \<le> 12 \<and> 1 \<le> d \<and> d \<le> days_in_month y m)
      | _ \<Rightarrow> False)"

definition require_iso_date :: "pystr \<Rightarrow> exn + pystr" where
  "require_iso_date s = (if canonical_iso_date s then Inr s else Inl ValidationError)"

section \<open>The public error response\<close>

record api_error =
  ae_code :: error_code
  ae_message :: pystr
  ae_request_id :: uuid
  ae_retryable :: bool

definition validate_ApiError :: "api_error \<Rightarrow> exn + api_error" where
  "validate_ApiError e = bindE (long_text (ae_message e)) (\<lambda>m. Inr (e\<lparr>ae_message := m\<rparr>))"

definition build_error_response :: "error_code \<Rightarrow> uuid \<Rightarrow> exn + (int \<times> api_error)" where
  "build_error_response code request_id =
     (let spec = error_specs code in
      bindE (validate_ApiError
               \<lparr>ae_code = code, ae_message = spec_message spec, ae_request_id = request_id,
                ae_retryable = retryable spec\<rparr>)
        (\<lambda>err. Inr (status_code spec, err)))"

lemma error_specs_text: "is_long_text (spec_message (error_specs c))"
  by (cases c) (simp_all add: is_text_def strip_by_def is_white_def)

end
