(* ===== verification/Transcript.thy ===== *)
theory Transcript
  imports Base
begin

text \<open>
  The immutable transcript (\<^verbatim>\<open>domain/transcript.py\<close>, \<^verbatim>\<open>domain/provenance.py\<close>): one record per
  model class, and one validator per constructor, with the model validators' checks in the
  source's order. A nested model is an argument that has already been constructed. Times are
  finite doubles; \<^verbatim>\<open>created_at\<close> is UTC, in microseconds.
\<close>

section \<open>Records\<close>

datatype speaker_role = OPERATOR | CLIENT

fun speaker_role_value :: "speaker_role \<Rightarrow> pystr" where
  "speaker_role_value OPERATOR = [1054, 1087, 1077, 1088, 1072, 1090, 1086, 1088]"
| "speaker_role_value CLIENT = [1050, 1083, 1080, 1077, 1085, 1090]"

datatype role_resolution_source = METADATA | AGENT

record role_agent_provenance =
  rap_policy_id :: pystr
  rap_version :: pystr
  rap_owner :: pystr
  rap_effective_date :: pystr
  rap_sha256 :: pystr

record word_timestamp =
  wt_word :: pystr
  wt_start :: pyfloat
  wt_end :: pyfloat
  wt_confidence :: "pyfloat option"

record role_assignment =
  ra_speaker_id :: pystr
  ra_role :: speaker_role
  ra_confidence :: pyfloat
  ra_evidence :: "uuid list"
  ra_source :: role_resolution_source
  ra_resolution_evidence :: pystr

record role_resolution =
  rr_assignments :: "role_assignment list"
  rr_needs_review :: bool
  rr_agent_provenance :: "role_agent_provenance option"

record component_revision =
  cr_package :: pystr
  cr_package_version :: pystr
  cr_model_id :: pystr
  cr_model_revision :: pystr
  cr_artifact_sha256 :: "pystr option"

record asr_provider_metadata =
  pm_provider :: pystr
  pm_model :: pystr
  pm_endpoint_fingerprint :: pystr
  pm_request_id :: "pystr option"
  pm_usage_seconds :: "pyfloat option"

record asr_metadata =
  am_asr :: component_revision
  am_alignment :: component_revision
  am_diarization :: component_revision
  am_language :: pystr
  am_processing_ms :: int
  am_provider :: "asr_provider_metadata option"

record transcript_segment =
  ts_id :: uuid
  ts_speaker_id :: pystr
  ts_speaker :: speaker_role
  ts_role_confidence :: pyfloat
  ts_speaker_confidence :: "pyfloat option"
  ts_start :: pyfloat
  ts_end :: pyfloat
  ts_text :: pystr
  ts_redacted_text :: pystr
  ts_words :: "word_timestamp list"

record transcript_snapshot =
  sn_transcript_id :: uuid
  sn_audio_sha256 :: pystr
  sn_revision :: pystr
  sn_language :: pystr
  sn_duration :: pyfloat
  sn_segments :: "transcript_segment list"
  sn_roles :: role_resolution
  sn_asr :: asr_metadata
  sn_created_at :: int

section \<open>Validators\<close>

definition validate_RoleAgentProvenance :: "role_agent_provenance \<Rightarrow> exn + role_agent_provenance" where
  "validate_RoleAgentProvenance p =
     bindE (non_empty_id (rap_policy_id p)) (\<lambda>pid.
     bindE (non_empty_id (rap_version p)) (\<lambda>ver.
     bindE (non_empty_id (rap_owner p)) (\<lambda>own.
     bindE (bindE (non_empty_id (rap_effective_date p)) require_iso_date) (\<lambda>eff.
     bindE (sha256 (rap_sha256 p)) (\<lambda>sha.
       Inr \<lparr>rap_policy_id = pid, rap_version = ver, rap_owner = own, rap_effective_date = eff,
            rap_sha256 = sha\<rparr>)))))"

definition validate_WordTimestamp :: "word_timestamp \<Rightarrow> exn + word_timestamp" where
  "validate_WordTimestamp w =
     bindE (non_empty_id (wt_word w)) (\<lambda>word.
     bindE (non_negative (wt_start w)) (\<lambda>s.
     bindE (positive (wt_end w)) (\<lambda>e.
     bindE (optional confidence (wt_confidence w)) (\<lambda>c.
     bindE (requireE ValidationError (s < e)) (\<lambda>_.
       Inr \<lparr>wt_word = word, wt_start = s, wt_end = e, wt_confidence = c\<rparr>)))))"

definition validate_RoleAssignment :: "role_assignment \<Rightarrow> exn + role_assignment" where
  "validate_RoleAssignment a =
     bindE (non_empty_id (ra_speaker_id a)) (\<lambda>sid.
     bindE (confidence (ra_confidence a)) (\<lambda>c.
     bindE (requireE ValidationError (ra_evidence a \<noteq> [])) (\<lambda>_.
     bindE (non_empty_id (ra_resolution_evidence a)) (\<lambda>ev.
     bindE (requireE ValidationError (all_unique (ra_evidence a))) (\<lambda>_.
       Inr (a\<lparr>ra_speaker_id := sid, ra_confidence := c, ra_resolution_evidence := ev\<rparr>))))))"

text \<open>\<^verbatim>\<open>{item.role for item in assignments} == {OPERATOR, CLIENT}\<close>\<close>

definition both_roles :: "role_assignment list \<Rightarrow> bool" where
  "both_roles as \<longleftrightarrow> list_ex (\<lambda>a. ra_role a = OPERATOR) as \<and> list_ex (\<lambda>a. ra_role a = CLIENT) as"

definition validate_RoleResolution :: "role_resolution \<Rightarrow> exn + role_resolution" where
  "validate_RoleResolution r =
     (let as = rr_assignments r in
      if as = [] then Inl ValidationError
      else if \<not> all_unique (map ra_speaker_id as) then Inl ValidationError
      else if list_ex (\<lambda>a. ra_source a = AGENT) as \<noteq> (rr_agent_provenance r \<noteq> None)
        then Inl ValidationError
      else if length as = 2 \<and> \<not> both_roles as then Inl ValidationError
      else Inr r)"

definition validate_ComponentRevision :: "component_revision \<Rightarrow> exn + component_revision" where
  "validate_ComponentRevision c =
     bindE (non_empty_id (cr_package c)) (\<lambda>p.
     bindE (non_empty_id (cr_package_version c)) (\<lambda>pv.
     bindE (non_empty_id (cr_model_id c)) (\<lambda>m.
     bindE (non_empty_id (cr_model_revision c)) (\<lambda>mr.
     bindE (optional sha256 (cr_artifact_sha256 c)) (\<lambda>sha.
       Inr \<lparr>cr_package = p, cr_package_version = pv, cr_model_id = m, cr_model_revision = mr,
            cr_artifact_sha256 = sha\<rparr>)))))"

definition validate_ASRProviderMetadata :: "asr_provider_metadata \<Rightarrow> exn + asr_provider_metadata" where
  "validate_ASRProviderMetadata m =
     bindE (non_empty_id (pm_provider m)) (\<lambda>p.
     bindE (non_empty_id (pm_model m)) (\<lambda>mo.
     bindE (sha256 (pm_endpoint_fingerprint m)) (\<lambda>fp.
     bindE (optional non_empty_id (pm_request_id m)) (\<lambda>rid.
     bindE (optional non_negative (pm_usage_seconds m)) (\<lambda>us.
       Inr \<lparr>pm_provider = p, pm_model = mo, pm_endpoint_fingerprint = fp, pm_request_id = rid,
            pm_usage_seconds = us\<rparr>)))))"

definition validate_ASRMetadata :: "asr_metadata \<Rightarrow> exn + asr_metadata" where
  "validate_ASRMetadata m =
     bindE (non_empty_id (am_language m)) (\<lambda>l.
     bindE (non_negative (am_processing_ms m)) (\<lambda>ms.
       Inr (m\<lparr>am_language := l, am_processing_ms := ms\<rparr>)))"

text \<open>The loop over the words of a segment; the accumulator is the previous start and end.\<close>

fun check_words :: "pyfloat \<Rightarrow> pyfloat \<Rightarrow> word_timestamp list \<Rightarrow> pyfloat \<Rightarrow> pyfloat \<Rightarrow> exn + unit" where
  "check_words lo hi [] ps pe = Inr ()"
| "check_words lo hi (w # ws) ps pe =
     (if wt_start w < lo \<or> hi < wt_end w then Inl ValidationError
      else if wt_start w < ps \<or> wt_end w < pe then Inl ValidationError
      else check_words lo hi ws (wt_start w) (wt_end w))"

definition validate_TranscriptSegment :: "transcript_segment \<Rightarrow> exn + transcript_segment" where
  "validate_TranscriptSegment s =
     bindE (non_empty_id (ts_speaker_id s)) (\<lambda>sid.
     bindE (confidence (ts_role_confidence s)) (\<lambda>rc.
     bindE (optional confidence (ts_speaker_confidence s)) (\<lambda>sc.
     bindE (non_negative (ts_start s)) (\<lambda>st.
     bindE (positive (ts_end s)) (\<lambda>en.
     bindE (long_text (ts_text s)) (\<lambda>tx.
     bindE (long_text (ts_redacted_text s)) (\<lambda>rt.
     bindE (requireE ValidationError (st < en)) (\<lambda>_.
     bindE (check_words st en (ts_words s) st st) (\<lambda>_.
       Inr (s\<lparr>ts_speaker_id := sid, ts_role_confidence := rc, ts_speaker_confidence := sc,
              ts_start := st, ts_end := en, ts_text := tx, ts_redacted_text := rt\<rparr>))))))))))"

text \<open>The loop over the segments of a snapshot.\<close>

fun check_segment_times :: "pyfloat \<Rightarrow> transcript_segment list \<Rightarrow> pyfloat \<Rightarrow> pyfloat \<Rightarrow> exn + unit" where
  "check_segment_times dur [] ps pe = Inr ()"
| "check_segment_times dur (s # ss) ps pe =
     (if ts_start s < ps then Inl ValidationError
      else if ts_end s < pe then Inl ValidationError
      else if dur < ts_end s then Inl ValidationError
      else check_segment_times dur ss (ts_start s) (ts_end s))"

definition check_segment_role ::
  "(pystr \<rightharpoonup> role_assignment) \<Rightarrow> transcript_segment \<Rightarrow> exn + unit" where
  "check_segment_role assignments s =
     (case assignments (ts_speaker_id s) of
        None \<Rightarrow> Inl KeyError
      | Some a \<Rightarrow> if ra_role a \<noteq> ts_speaker s \<or> ra_confidence a \<noteq> ts_role_confidence s
          then Inl ValidationError else Inr ())"

definition validate_snapshot :: "transcript_snapshot \<Rightarrow> exn + unit" where
  "validate_snapshot t =
     (let ids = map ts_id (sn_segments t);
          as = rr_assignments (sn_roles t);
          assignments = dict_of (map (\<lambda>a. (ra_speaker_id a, a)) as);
          speakers = map ts_speaker_id (sn_segments t)
      in bindE (requireE ValidationError (all_unique ids)) (\<lambda>_.
         bindE (check_segment_times (sn_duration t) (sn_segments t) (- 1) 0) (\<lambda>_.
         bindE (requireE ValidationError
                  (subset_of (map ra_speaker_id as) speakers
                     \<and> subset_of speakers (map ra_speaker_id as))) (\<lambda>_.
         bindE (mapE (\<lambda>a. requireE ValidationError (subset_of (ra_evidence a) ids)) as) (\<lambda>_.
         bindE (mapE (check_segment_role assignments) (sn_segments t)) (\<lambda>_.
           requireE ValidationError (am_language (sn_asr t) = sn_language t)))))))"

definition validate_TranscriptSnapshot :: "transcript_snapshot \<Rightarrow> exn + transcript_snapshot" where
  "validate_TranscriptSnapshot t =
     bindE (sha256 (sn_audio_sha256 t)) (\<lambda>sha.
     bindE (non_empty_id (sn_revision t)) (\<lambda>rev.
     bindE (non_empty_id (sn_language t)) (\<lambda>lang.
     bindE (positive (sn_duration t)) (\<lambda>d.
     bindE (requireE ValidationError (sn_segments t \<noteq> [])) (\<lambda>_.
     let t' = t\<lparr>sn_audio_sha256 := sha, sn_revision := rev, sn_language := lang, sn_duration := d\<rparr>
     in bindE (validate_snapshot t') (\<lambda>_. Inr t'))))))"

section \<open>Normal forms\<close>

interpretation provenance_model: validator validate_RoleAgentProvenance
  by unfold_locales
    (auto simp: validate_RoleAgentProvenance_def result_iffs field_iffs require_iso_date_def split: if_splits)

interpretation word_model: validator validate_WordTimestamp
  by unfold_locales (auto simp: validate_WordTimestamp_def result_iffs field_iffs)

interpretation assignment_model: validator validate_RoleAssignment
  by unfold_locales (auto simp: validate_RoleAssignment_def result_iffs field_iffs)

interpretation resolution_model: validator validate_RoleResolution
  by unfold_locales (auto simp: validate_RoleResolution_def Let_def split: if_splits)

interpretation revision_model: validator validate_ComponentRevision
  by unfold_locales (auto simp: validate_ComponentRevision_def result_iffs field_iffs)

interpretation provider_model: validator validate_ASRProviderMetadata
  by unfold_locales (auto simp: validate_ASRProviderMetadata_def result_iffs field_iffs)

interpretation asr_model: validator validate_ASRMetadata
  by unfold_locales (auto simp: validate_ASRMetadata_def result_iffs field_iffs)

interpretation segment_model: validator validate_TranscriptSegment
  by unfold_locales (auto simp: validate_TranscriptSegment_def result_iffs field_iffs)

interpretation snapshot_model: validator validate_TranscriptSnapshot
  by unfold_locales (auto simp: validate_TranscriptSnapshot_def Let_def result_iffs field_iffs)

section \<open>What an accepted transcript satisfies\<close>

lemma check_words_iff:
  "check_words lo hi ws ps pe = Inr () \<longleftrightarrow>
     (\<forall>w \<in> set ws. lo \<le> wt_start w \<and> wt_end w \<le> hi)
     \<and> sorted (ps # map wt_start ws) \<and> sorted (pe # map wt_end ws)"
  by (induction lo hi ws ps pe rule: check_words.induct) (auto simp: not_less)

lemma check_segment_times_iff:
  "check_segment_times dur ss ps pe = Inr () \<longleftrightarrow>
     (\<forall>s \<in> set ss. ts_end s \<le> dur)
     \<and> sorted (ps # map ts_start ss) \<and> sorted (pe # map ts_end ss)"
  by (induction dur ss ps pe rule: check_segment_times.induct) (auto simp: not_less)

lemma mapE_requireE_iff: "mapE (\<lambda>x. requireE e (P x)) xs = Inr us \<longleftrightarrow> us = map (\<lambda>_. ()) xs \<and> (\<forall>x \<in> set xs. P x)"
  by (induction xs arbitrary: us) (auto simp: result_iffs)

lemma mapE_unit_iff: "mapE f xs = Inr us \<longleftrightarrow> us = map (\<lambda>_. ()) xs \<and> (\<forall>x \<in> set xs. f x = Inr ())"
  by (induction xs arbitrary: us) (auto simp: result_iffs)

lemma check_segment_role_iff:
  assumes "distinct (map ra_speaker_id as)"
  shows "check_segment_role (dict_of (map (\<lambda>a. (ra_speaker_id a, a)) as)) s = Inr () \<longleftrightarrow>
    (\<exists>a \<in> set as. ra_speaker_id a = ts_speaker_id s \<and> ra_role a = ts_speaker s
       \<and> ra_confidence a = ts_role_confidence s)"
proof -
  have d: "distinct (map fst (map (\<lambda>a. (ra_speaker_id a, a)) as))" using assms by (simp add: comp_def)
  have look: "dict_of (map (\<lambda>a. (ra_speaker_id a, a)) as) k = Some a \<longleftrightarrow>
      a \<in> set as \<and> ra_speaker_id a = k" for a k
    unfolding dict_of_distinct [OF d] map_of_eq_Some_iff [OF d] by (auto simp: image_iff)
  show ?thesis
  proof (cases "dict_of (map (\<lambda>a. (ra_speaker_id a, a)) as) (ts_speaker_id s)")
    case None
    then have "a \<in> set as \<Longrightarrow> ra_speaker_id a \<noteq> ts_speaker_id s" for a
      using look [of "ts_speaker_id s" a] by simp
    with None show ?thesis by (auto simp: check_segment_role_def)
  next
    case (Some a)
    then have "b \<in> set as \<and> ra_speaker_id b = ts_speaker_id s \<longleftrightarrow> b = a" for b
      using look [of "ts_speaker_id s" b] by auto
    then have "(\<exists>b \<in> set as. ra_speaker_id b = ts_speaker_id s \<and> P b) \<longleftrightarrow> P a" for P
      unfolding Bex_def conj_assoc [symmetric] by simp
    with Some show ?thesis by (auto simp: check_segment_role_def)
  qed
qed

lemma validate_snapshot_iff:
  assumes "distinct (map ra_speaker_id (rr_assignments (sn_roles t)))"
  shows "validate_snapshot t = Inr () \<longleftrightarrow>
    distinct (map ts_id (sn_segments t))
    \<and> sorted (- 1 # map ts_start (sn_segments t)) \<and> sorted (0 # map ts_end (sn_segments t))
    \<and> (\<forall>s \<in> set (sn_segments t). ts_end s \<le> sn_duration t)
    \<and> ra_speaker_id ` set (rr_assignments (sn_roles t)) = ts_speaker_id ` set (sn_segments t)
    \<and> (\<forall>a \<in> set (rr_assignments (sn_roles t)). set (ra_evidence a) \<subseteq> ts_id ` set (sn_segments t))
    \<and> (\<forall>s \<in> set (sn_segments t). \<exists>a \<in> set (rr_assignments (sn_roles t)).
          ra_speaker_id a = ts_speaker_id s \<and> ra_role a = ts_speaker s
          \<and> ra_confidence a = ts_role_confidence s)
    \<and> am_language (sn_asr t) = sn_language t"
proof -
  have sub: "subset_of xs ys \<and> subset_of ys xs \<longleftrightarrow> set xs = set ys" for xs ys :: "pystr list"
    by auto
  show ?thesis
    unfolding validate_snapshot_def Let_def sub
    by (simp only: bindE_Inr_iff requireE_Inr_iff all_unique_iff_distinct check_segment_times_iff
          mapE_requireE_iff mapE_unit_iff check_segment_role_iff [OF assms] subset_of_iff
          set_map simp_thms ex_simps ex_unit conj_assoc) blast
qed

text \<open>
  Property C14. Constructing a snapshot is idempotent, and an accepted snapshot is consistent:
  segment ids are distinct, starts and ends are in order and within the recording, every speaker
  of a segment has exactly one role assignment and the segment carries its role and confidence,
  and the evidence of the role resolution are segments of the transcript.
\<close>

theorem accepted_snapshot_consistent:
  assumes "is_valid validate_RoleResolution (sn_roles t0)" and "validate_TranscriptSnapshot t0 = Inr t"
  shows "validate_TranscriptSnapshot t = Inr t
      \<and> distinct (map ts_id (sn_segments t)) \<and> sorted (map ts_start (sn_segments t))
      \<and> sorted (map ts_end (sn_segments t)) \<and> (\<forall>s \<in> set (sn_segments t). ts_end s \<le> sn_duration t)
      \<and> (\<forall>s \<in> set (sn_segments t). \<exists>!a. a \<in> set (rr_assignments (sn_roles t)) \<and> ra_speaker_id a = ts_speaker_id s)
      \<and> (\<forall>s \<in> set (sn_segments t). \<forall>a \<in> set (rr_assignments (sn_roles t)).
           ra_speaker_id a = ts_speaker_id s \<longrightarrow> ra_role a = ts_speaker s \<and> ra_confidence a = ts_role_confidence s)
      \<and> (\<forall>a \<in> set (rr_assignments (sn_roles t)). set (ra_evidence a) \<subseteq> ts_id ` set (sn_segments t))"
proof -
  have normal: "validate_TranscriptSnapshot t = Inr t" by (rule snapshot_model.normal [OF assms(2)])
  have "validate_snapshot t = Inr ()" and roles: "sn_roles t = sn_roles t0"
    using assms(2) by (auto simp: validate_TranscriptSnapshot_def Let_def bindE_Inr_iff)
  moreover have d: "distinct (map ra_speaker_id (rr_assignments (sn_roles t)))"
    using assms(1) unfolding roles by (auto simp: is_valid_iff validate_RoleResolution_def Let_def split: if_splits)
  ultimately have V: "distinct (map ts_id (sn_segments t))
    \<and> sorted (- 1 # map ts_start (sn_segments t)) \<and> sorted (0 # map ts_end (sn_segments t))
    \<and> (\<forall>s \<in> set (sn_segments t). ts_end s \<le> sn_duration t)
    \<and> ra_speaker_id ` set (rr_assignments (sn_roles t)) = ts_speaker_id ` set (sn_segments t)
    \<and> (\<forall>a \<in> set (rr_assignments (sn_roles t)). set (ra_evidence a) \<subseteq> ts_id ` set (sn_segments t))
    \<and> (\<forall>s \<in> set (sn_segments t). \<exists>a \<in> set (rr_assignments (sn_roles t)).
          ra_speaker_id a = ts_speaker_id s \<and> ra_role a = ts_speaker s
          \<and> ra_confidence a = ts_role_confidence s)"
    unfolding validate_snapshot_iff [OF d] by blast
  have unique: "a = b" if "a \<in> set (rr_assignments (sn_roles t))" "b \<in> set (rr_assignments (sn_roles t))"
    "ra_speaker_id a = ra_speaker_id b" for a b
    using that d by (metis distinct_map inj_onD)
  have "(\<forall>s \<in> set (sn_segments t). \<exists>!a. a \<in> set (rr_assignments (sn_roles t)) \<and> ra_speaker_id a = ts_speaker_id s)
      \<and> (\<forall>s \<in> set (sn_segments t). \<forall>a \<in> set (rr_assignments (sn_roles t)).
           ra_speaker_id a = ts_speaker_id s \<longrightarrow> ra_role a = ts_speaker s \<and> ra_confidence a = ts_role_confidence s)"
    using V unique by metis
  with V normal show ?thesis by simp
qed

text \<open>A two-speaker transcript, used as the concrete input of several theories.\<close>

definition call_segments :: "transcript_segment list" where
  "call_segments =
     [\<lparr>ts_id = 1, ts_speaker_id = lit ''A'', ts_speaker = OPERATOR, ts_role_confidence = 9 / 10,
       ts_speaker_confidence = None, ts_start = 0, ts_end = 2, ts_text = lit ''hello'',
       ts_redacted_text = lit ''hello'', ts_words = []\<rparr>,
      \<lparr>ts_id = 2, ts_speaker_id = lit ''B'', ts_speaker = CLIENT, ts_role_confidence = 9 / 10,
       ts_speaker_confidence = None, ts_start = 2, ts_end = 5, ts_text = lit ''my card'',
       ts_redacted_text = lit ''my card'', ts_words = []\<rparr>]"

definition call_revision :: component_revision where
  "call_revision = \<lparr>cr_package = lit ''p'', cr_package_version = lit ''1'', cr_model_id = lit ''m'',
     cr_model_revision = lit ''r'', cr_artifact_sha256 = None\<rparr>"

definition call_assignment :: "pystr \<Rightarrow> speaker_role \<Rightarrow> uuid \<Rightarrow> role_assignment" where
  "call_assignment sid role seg = \<lparr>ra_speaker_id = sid, ra_role = role, ra_confidence = 9 / 10,
     ra_evidence = [seg], ra_source = METADATA, ra_resolution_evidence = lit ''channel''\<rparr>"

definition call_snapshot :: transcript_snapshot where
  "call_snapshot =
     \<lparr>sn_transcript_id = 7, sn_audio_sha256 = replicate 64 48, sn_revision = lit ''1'',
      sn_language = lit ''ru'', sn_duration = 6, sn_segments = call_segments,
      sn_roles = \<lparr>rr_assignments = [call_assignment (lit ''A'') OPERATOR 1, call_assignment (lit ''B'') CLIENT 2],
        rr_needs_review = False, rr_agent_provenance = None\<rparr>,
      sn_asr = \<lparr>am_asr = call_revision, am_alignment = call_revision, am_diarization = call_revision,
        am_language = lit ''ru'', am_processing_ms = 5, am_provider = None\<rparr>,
      sn_created_at = 0\<rparr>"

lemma accepted_snapshot_consistent_witness:
  "validate_TranscriptSnapshot call_snapshot = Inr call_snapshot
     \<and> distinct (map ts_id (sn_segments call_snapshot)) \<and> sorted (map ts_start (sn_segments call_snapshot))"
proof -
  have "is_valid validate_RoleResolution (sn_roles call_snapshot)" by code_simp
  moreover have "validate_TranscriptSnapshot call_snapshot = Inr call_snapshot" by code_simp
  ultimately show ?thesis using accepted_snapshot_consistent by blast
qed

end
