(* ===== verification/Results.thy ===== *)
theory Results
  imports Transcript
begin

text \<open>
  The results of the four agents (\<^verbatim>\<open>domain/agents.py\<close>), the public response and the stored
  record (\<^verbatim>\<open>domain/analysis.py\<close>): one record and one validator per model class, as in
  Transcript. \<^verbatim>\<open>Literal["1"]\<close> fields and the single completed status carry no information and are
  left out.
\<close>

section \<open>Agent results\<close>

definition require_unique :: "uuid list \<Rightarrow> exn + unit" where
  "require_unique xs = requireE ValidationError (all_unique xs)"

text \<open>\<^verbatim>\<open>EvidenceSegmentIds\<close> with the uniqueness validator: a non-empty tuple of distinct ids.\<close>

definition check_evidence :: "uuid list \<Rightarrow> exn + unit" where
  "check_evidence xs = bindE (requireE ValidationError (xs \<noteq> [])) (\<lambda>_. require_unique xs)"

lemma require_unique_iff [field_iffs]: "require_unique xs = Inr u \<longleftrightarrow> distinct xs"
  by (simp add: require_unique_def result_iffs)

lemma check_evidence_iff [field_iffs]: "check_evidence xs = Inr u \<longleftrightarrow> xs \<noteq> [] \<and> distinct xs"
  by (simp add: check_evidence_def result_iffs field_iffs)

record classification_result =
  cl_topic :: pystr
  cl_priority :: pystr
  cl_confidence :: pyfloat
  cl_evidence :: "uuid list"
  cl_rationale :: pystr

record criterion_assessment =
  qc_passed :: bool
  qc_confidence :: pyfloat
  qc_evidence :: "uuid list"
  qc_rationale :: pystr

record quality_assessment =
  qa_greeting :: criterion_assessment
  qa_need_detection :: criterion_assessment
  qa_solution_provided :: criterion_assessment
  qa_farewell :: criterion_assessment

datatype severity = INFO | WARNING | BLOCKING

record compliance_issue =
  ci_rule_id :: pystr
  ci_severity :: severity
  ci_evidence :: "uuid list"
  ci_explanation :: pystr

record compliance_assessment =
  ca_issues :: "compliance_issue list"

record action_item =
  ai_text :: pystr
  ai_evidence :: "uuid list"

record summary_result =
  su_sentences :: "pystr list"
  su_facts :: "uuid list"
  su_actions :: "action_item list"

definition validate_ClassificationResult :: "classification_result \<Rightarrow> exn + classification_result" where
  "validate_ClassificationResult c =
     bindE (non_empty_id (cl_topic c)) (\<lambda>t.
     bindE (non_empty_id (cl_priority c)) (\<lambda>p.
     bindE (confidence (cl_confidence c)) (\<lambda>cf.
     bindE (long_text (cl_rationale c)) (\<lambda>r.
     bindE (check_evidence (cl_evidence c)) (\<lambda>_.
       Inr (c\<lparr>cl_topic := t, cl_priority := p, cl_confidence := cf, cl_rationale := r\<rparr>))))))"

definition validate_QualityCriterionAssessment :: "criterion_assessment \<Rightarrow> exn + criterion_assessment" where
  "validate_QualityCriterionAssessment q =
     bindE (confidence (qc_confidence q)) (\<lambda>cf.
     bindE (long_text (qc_rationale q)) (\<lambda>r.
     bindE (check_evidence (qc_evidence q)) (\<lambda>_.
       Inr (q\<lparr>qc_confidence := cf, qc_rationale := r\<rparr>))))"

definition validate_ComplianceIssue :: "compliance_issue \<Rightarrow> exn + compliance_issue" where
  "validate_ComplianceIssue i =
     bindE (non_empty_id (ci_rule_id i)) (\<lambda>r.
     bindE (long_text (ci_explanation i)) (\<lambda>x.
     bindE (check_evidence (ci_evidence i)) (\<lambda>_.
       Inr (i\<lparr>ci_rule_id := r, ci_explanation := x\<rparr>))))"

definition validate_ActionItem :: "action_item \<Rightarrow> exn + action_item" where
  "validate_ActionItem a =
     bindE (long_text (ai_text a)) (\<lambda>t.
     bindE (check_evidence (ai_evidence a)) (\<lambda>_. Inr (a\<lparr>ai_text := t\<rparr>)))"

definition validate_SummaryResult :: "summary_result \<Rightarrow> exn + summary_result" where
  "validate_SummaryResult s =
     bindE (mapE long_text (su_sentences s)) (\<lambda>ss.
     bindE (requireE ValidationError (3 \<le> length ss \<and> length ss \<le> 5)) (\<lambda>_.
     bindE (check_evidence (su_facts s)) (\<lambda>_. Inr (s\<lparr>su_sentences := ss\<rparr>))))"

text \<open>\<^verbatim>\<open>" ".join(self.sentences)\<close>\<close>

fun join_with :: "pystr \<Rightarrow> pystr list \<Rightarrow> pystr" where
  "join_with sep [] = []"
| "join_with sep [x] = x"
| "join_with sep (x # y # xs) = x @ sep @ join_with sep (y # xs)"

lemma join_with_ends:
  "xs \<noteq> [] \<Longrightarrow> (\<forall>x \<in> set xs. x \<noteq> [] \<and> \<not> P (hd x) \<and> \<not> P (last x)) \<Longrightarrow>
     join_with sep xs \<noteq> [] \<and> \<not> P (hd (join_with sep xs)) \<and> \<not> P (last (join_with sep xs))"
  by (induction sep xs rule: join_with.induct) auto

definition summary_text :: "summary_result \<Rightarrow> pystr" where
  "summary_text s = join_with [32] (su_sentences s)"

section \<open>The public response\<close>

record public_segment =
  ps_id :: uuid
  ps_speaker :: speaker_role
  ps_start :: pyfloat
  ps_end :: pyfloat
  ps_text :: pystr

record public_classification =
  pc_topic :: pystr
  pc_priority :: pystr
  pc_confidence :: pyfloat
  pc_evidence :: "uuid list"
  pc_rationale :: pystr
  pc_taxonomy_version :: pystr

record checklist_item =
  qi_passed :: bool
  qi_confidence :: pyfloat
  qi_evidence :: "uuid list"
  qi_rationale :: pystr

record quality_checklist =
  ck_greeting :: bool
  ck_need_detection :: bool
  ck_solution_provided :: bool
  ck_farewell :: bool

record quality_details =
  qd_greeting :: checklist_item
  qd_need_detection :: checklist_item
  qd_solution_provided :: checklist_item
  qd_farewell :: checklist_item

record quality_score =
  qs_total :: pyfloat
  qs_checklist :: quality_checklist
  qs_details :: quality_details
  qs_policy_version :: pystr

record public_issue =
  pi_rule_id :: pystr
  pi_severity :: severity
  pi_evidence :: "uuid list"
  pi_explanation :: pystr

record compliance_view =
  cv_passed :: bool
  cv_issues :: "public_issue list"
  cv_policy_version :: pystr

record grounded_action =
  ga_text :: pystr
  ga_evidence :: "uuid list"

record grounding =
  gr_summary_evidence :: "uuid list"
  gr_actions :: "grounded_action list"

record analysis_versions =
  av_code_sha :: pystr
  av_prompt_bundle_hash :: pystr
  av_taxonomy :: pystr
  av_quality :: pystr
  av_compliance :: pystr
  av_asr :: component_revision
  av_alignment :: component_revision
  av_diarization :: component_revision

record analysis_meta =
  me_run_id :: uuid
  me_versions :: analysis_versions
  me_processing_ms :: int
  me_needs_review :: bool

record analyze_response =
  re_transcript :: "public_segment list"
  re_classification :: public_classification
  re_quality :: quality_score
  re_compliance :: compliance_view
  re_summary :: pystr
  re_action_items :: "pystr list"
  re_grounding :: grounding
  re_meta :: analysis_meta

definition validate_PublicTranscriptSegment :: "public_segment \<Rightarrow> exn + public_segment" where
  "validate_PublicTranscriptSegment s =
     bindE (non_negative (ps_start s)) (\<lambda>st.
     bindE (positive (ps_end s)) (\<lambda>en.
     bindE (long_text (ps_text s)) (\<lambda>t.
     bindE (requireE ValidationError (st < en)) (\<lambda>_.
       Inr (s\<lparr>ps_start := st, ps_end := en, ps_text := t\<rparr>)))))"

definition validate_PublicClassification :: "public_classification \<Rightarrow> exn + public_classification" where
  "validate_PublicClassification c =
     bindE (non_empty_id (pc_topic c)) (\<lambda>t.
     bindE (non_empty_id (pc_priority c)) (\<lambda>p.
     bindE (confidence (pc_confidence c)) (\<lambda>cf.
     bindE (long_text (pc_rationale c)) (\<lambda>r.
     bindE (non_empty_id (pc_taxonomy_version c)) (\<lambda>v.
     bindE (check_evidence (pc_evidence c)) (\<lambda>_.
       Inr (c\<lparr>pc_topic := t, pc_priority := p, pc_confidence := cf, pc_rationale := r,
              pc_taxonomy_version := v\<rparr>)))))))"

definition validate_QualityChecklistItem :: "checklist_item \<Rightarrow> exn + checklist_item" where
  "validate_QualityChecklistItem q =
     bindE (confidence (qi_confidence q)) (\<lambda>cf.
     bindE (long_text (qi_rationale q)) (\<lambda>r.
     bindE (check_evidence (qi_evidence q)) (\<lambda>_.
       Inr (q\<lparr>qi_confidence := cf, qi_rationale := r\<rparr>))))"

text \<open>The four criteria, in the order of the validator's loop.\<close>

definition checklist_values :: "quality_checklist \<Rightarrow> bool list" where
  "checklist_values c = [ck_greeting c, ck_need_detection c, ck_solution_provided c, ck_farewell c]"

definition details_items :: "quality_details \<Rightarrow> checklist_item list" where
  "details_items d = [qd_greeting d, qd_need_detection d, qd_solution_provided d, qd_farewell d]"

definition validate_QualityScore :: "quality_score \<Rightarrow> exn + quality_score" where
  "validate_QualityScore q =
     bindE (requireE ValidationError (0 \<le> qs_total q \<and> qs_total q \<le> 100)) (\<lambda>_.
     bindE (non_empty_id (qs_policy_version q)) (\<lambda>v.
     bindE (requireE ValidationError
              (checklist_values (qs_checklist q) = map qi_passed (details_items (qs_details q)))) (\<lambda>_.
       Inr (q\<lparr>qs_policy_version := v\<rparr>))))"

definition validate_PublicComplianceIssue :: "public_issue \<Rightarrow> exn + public_issue" where
  "validate_PublicComplianceIssue i =
     bindE (non_empty_id (pi_rule_id i)) (\<lambda>r.
     bindE (long_text (pi_explanation i)) (\<lambda>x.
     bindE (check_evidence (pi_evidence i)) (\<lambda>_.
       Inr (i\<lparr>pi_rule_id := r, pi_explanation := x\<rparr>))))"

definition validate_ComplianceView :: "compliance_view \<Rightarrow> exn + compliance_view" where
  "validate_ComplianceView v =
     bindE (non_empty_id (cv_policy_version v)) (\<lambda>p. Inr (v\<lparr>cv_policy_version := p\<rparr>))"

definition validate_GroundedActionItem :: "grounded_action \<Rightarrow> exn + grounded_action" where
  "validate_GroundedActionItem a =
     bindE (long_text (ga_text a)) (\<lambda>t.
     bindE (check_evidence (ga_evidence a)) (\<lambda>_. Inr (a\<lparr>ga_text := t\<rparr>)))"

definition validate_Grounding :: "grounding \<Rightarrow> exn + grounding" where
  "validate_Grounding g = bindE (check_evidence (gr_summary_evidence g)) (\<lambda>_. Inr g)"

definition validate_AnalysisVersions :: "analysis_versions \<Rightarrow> exn + analysis_versions" where
  "validate_AnalysisVersions v =
     bindE (non_empty_id (av_code_sha v)) (\<lambda>c.
     bindE (sha256 (av_prompt_bundle_hash v)) (\<lambda>h.
     bindE (non_empty_id (av_taxonomy v)) (\<lambda>t.
     bindE (non_empty_id (av_quality v)) (\<lambda>q.
     bindE (non_empty_id (av_compliance v)) (\<lambda>co.
       Inr (v\<lparr>av_code_sha := c, av_prompt_bundle_hash := h, av_taxonomy := t, av_quality := q,
              av_compliance := co\<rparr>))))))"

definition validate_AnalysisMeta :: "analysis_meta \<Rightarrow> exn + analysis_meta" where
  "validate_AnalysisMeta m = bindE (non_negative (me_processing_ms m)) (\<lambda>_. Inr m)"

text \<open>All evidence the response cites.\<close>

definition response_evidence :: "analyze_response \<Rightarrow> uuid list" where
  "response_evidence r =
     pc_evidence (re_classification r)
     @ concat (map qi_evidence (details_items (qs_details (re_quality r))))
     @ concat (map pi_evidence (cv_issues (re_compliance r)))
     @ gr_summary_evidence (re_grounding r)
     @ concat (map ga_evidence (gr_actions (re_grounding r)))"

definition validate_public_contract :: "analyze_response \<Rightarrow> exn + unit" where
  "validate_public_contract r =
     (let ids = map ps_id (re_transcript r); versions = me_versions (re_meta r) in
      if \<not> all_unique ids then Inl ValidationError
      else if \<not> subset_of (response_evidence r) ids then Inl ValidationError
      else if pc_taxonomy_version (re_classification r) \<noteq> av_taxonomy versions then Inl ValidationError
      else if qs_policy_version (re_quality r) \<noteq> av_quality versions then Inl ValidationError
      else if cv_policy_version (re_compliance r) \<noteq> av_compliance versions then Inl ValidationError
      else if map ga_text (gr_actions (re_grounding r)) \<noteq> re_action_items r then Inl ValidationError
      else Inr ())"

definition validate_AnalyzeResponse :: "analyze_response \<Rightarrow> exn + analyze_response" where
  "validate_AnalyzeResponse r =
     bindE (long_text (re_summary r)) (\<lambda>s.
     bindE (mapE long_text (re_action_items r)) (\<lambda>as.
     let r' = r\<lparr>re_summary := s, re_action_items := as\<rparr>
     in bindE (validate_public_contract r') (\<lambda>_. Inr r')))"

section \<open>The stored record\<close>

record sanitized_issue =
  si_rule_id :: pystr
  si_severity :: severity
  si_evidence :: "uuid list"

record sanitized_record =
  sr_run_id :: uuid
  sr_topic :: pystr
  sr_priority :: pystr
  sr_confidence :: pyfloat
  sr_classification_evidence :: "uuid list"
  sr_quality_total :: pyfloat
  sr_checklist :: quality_checklist
  sr_quality_evidence :: "uuid list"
  sr_compliance_passed :: bool
  sr_compliance_issues :: "sanitized_issue list"
  sr_action_item_count :: int
  sr_needs_review :: bool
  sr_processing_ms :: int
  sr_versions :: analysis_versions

definition validate_SanitizedComplianceIssue :: "sanitized_issue \<Rightarrow> exn + sanitized_issue" where
  "validate_SanitizedComplianceIssue i =
     bindE (non_empty_id (si_rule_id i)) (\<lambda>r.
     bindE (require_unique (si_evidence i)) (\<lambda>_. Inr (i\<lparr>si_rule_id := r\<rparr>)))"

definition validate_SanitizedAnalysisRecord :: "sanitized_record \<Rightarrow> exn + sanitized_record" where
  "validate_SanitizedAnalysisRecord s =
     bindE (non_empty_id (sr_topic s)) (\<lambda>t.
     bindE (non_empty_id (sr_priority s)) (\<lambda>p.
     bindE (confidence (sr_confidence s)) (\<lambda>_.
     bindE (requireE ValidationError (0 \<le> sr_quality_total s \<and> sr_quality_total s \<le> 100)) (\<lambda>_.
     bindE (non_negative (sr_action_item_count s)) (\<lambda>_.
     bindE (non_negative (sr_processing_ms s)) (\<lambda>_.
     bindE (require_unique (sr_classification_evidence s)) (\<lambda>_.
     bindE (require_unique (sr_quality_evidence s)) (\<lambda>_.
       Inr (s\<lparr>sr_topic := t, sr_priority := p\<rparr>)))))))))"

section \<open>Normal forms\<close>

lemmas result_validators =
  validate_ClassificationResult_def
  validate_QualityCriterionAssessment_def
  validate_ComplianceIssue_def
  validate_ActionItem_def
  validate_PublicTranscriptSegment_def
  validate_PublicClassification_def
  validate_QualityChecklistItem_def
  validate_QualityScore_def
  validate_PublicComplianceIssue_def
  validate_ComplianceView_def
  validate_GroundedActionItem_def
  validate_Grounding_def
  validate_AnalysisVersions_def
  validate_AnalysisMeta_def
  validate_SanitizedComplianceIssue_def
  validate_SanitizedAnalysisRecord_def

interpretation classification_model: validator validate_ClassificationResult
  by unfold_locales (auto simp: result_validators result_iffs field_iffs)

interpretation criterion_model: validator validate_QualityCriterionAssessment
  by unfold_locales (auto simp: result_validators result_iffs field_iffs)

interpretation issue_model: validator validate_ComplianceIssue
  by unfold_locales (auto simp: result_validators result_iffs field_iffs)

interpretation action_model: validator validate_ActionItem
  by unfold_locales (auto simp: result_validators result_iffs field_iffs)

interpretation public_segment_model: validator validate_PublicTranscriptSegment
  by unfold_locales (auto simp: result_validators result_iffs field_iffs)

interpretation public_classification_model: validator validate_PublicClassification
  by unfold_locales (auto simp: result_validators result_iffs field_iffs)

interpretation checklist_item_model: validator validate_QualityChecklistItem
  by unfold_locales (auto simp: result_validators result_iffs field_iffs)

interpretation score_model: validator validate_QualityScore
  by unfold_locales (auto simp: result_validators result_iffs field_iffs)

interpretation public_issue_model: validator validate_PublicComplianceIssue
  by unfold_locales (auto simp: result_validators result_iffs field_iffs)

interpretation compliance_view_model: validator validate_ComplianceView
  by unfold_locales (auto simp: result_validators result_iffs field_iffs)

interpretation grounded_action_model: validator validate_GroundedActionItem
  by unfold_locales (auto simp: result_validators result_iffs field_iffs)

interpretation grounding_model: validator validate_Grounding
  by unfold_locales (auto simp: result_validators result_iffs field_iffs)

interpretation versions_model: validator validate_AnalysisVersions
  by unfold_locales (auto simp: result_validators result_iffs field_iffs)

interpretation meta_model: validator validate_AnalysisMeta
  by unfold_locales (auto simp: result_validators result_iffs field_iffs)

interpretation sanitized_issue_model: validator validate_SanitizedComplianceIssue
  by unfold_locales (auto simp: result_validators result_iffs field_iffs)

interpretation record_model: validator validate_SanitizedAnalysisRecord
  by unfold_locales (auto simp: result_validators result_iffs field_iffs)

interpretation summary_model: validator validate_SummaryResult
  by unfold_locales (auto simp: validate_SummaryResult_def result_iffs field_iffs)

interpretation response_model: validator validate_AnalyzeResponse
  by unfold_locales (auto simp: validate_AnalyzeResponse_def Let_def result_iffs field_iffs)

text \<open>The public contract in terms of sets.\<close>

lemma public_contract_iff:
  "validate_public_contract r = Inr () \<longleftrightarrow>
     distinct (map ps_id (re_transcript r))
     \<and> set (response_evidence r) \<subseteq> ps_id ` set (re_transcript r)
     \<and> pc_taxonomy_version (re_classification r) = av_taxonomy (me_versions (re_meta r))
     \<and> qs_policy_version (re_quality r) = av_quality (me_versions (re_meta r))
     \<and> cv_policy_version (re_compliance r) = av_compliance (me_versions (re_meta r))
     \<and> map ga_text (gr_actions (re_grounding r)) = re_action_items r"
  by (auto simp: validate_public_contract_def Let_def)

end
