(* ===== verification/Json.thy ===== *)
theory Json
  imports Base
begin

text \<open>
  JSON values as \<^verbatim>\<open>json.loads\<close> returns them, and strict decoding of an object into the fields of a
  model with \<^verbatim>\<open>extra="forbid"\<close>. An object is an association list; the last binding of a repeated
  name counts.
\<close>

datatype json = JNull | JBool bool | JInt int | JFloat rat | JStr pystr | JList "json list"
  | JObj "(pystr \<times> json) list"

definition object_fields :: "pystr list \<Rightarrow> json \<Rightarrow> exn + (pystr \<rightharpoonup> json)" where
  "object_fields names j =
     (case j of
        JObj kvs \<Rightarrow> if list_all (\<lambda>kv. fst kv \<in> set names) kvs then Inr (dict_of kvs) else Inl ValidationError
      | _ \<Rightarrow> Inl ValidationError)"

definition field :: "(pystr \<rightharpoonup> json) \<Rightarrow> pystr \<Rightarrow> (json \<Rightarrow> exn + 'a) \<Rightarrow> exn + 'a" where
  "field m name decode = (case m name of None \<Rightarrow> Inl ValidationError | Some j \<Rightarrow> decode j)"

fun json_str :: "json \<Rightarrow> exn + pystr" where
  "json_str (JStr s) = Inr s"
| "json_str _ = Inl ValidationError"

text \<open>A strict float accepts an integer but not a boolean.\<close>

fun json_float :: "json \<Rightarrow> exn + pyfloat" where
  "json_float (JFloat x) = Inr x"
| "json_float (JInt i) = Inr (of_int i)"
| "json_float _ = Inl ValidationError"

fun json_list :: "(json \<Rightarrow> exn + 'a) \<Rightarrow> json \<Rightarrow> exn + 'a list" where
  "json_list decode (JList js) = mapE decode js"
| "json_list decode _ = Inl ValidationError"

definition json_id :: "json \<Rightarrow> exn + pystr" where
  "json_id j = bindE (json_str j) non_empty_id"

definition json_text :: "json \<Rightarrow> exn + pystr" where
  "json_text j = bindE (json_str j) long_text"

end
