(* ===== verification/Decimals.thy ===== *)
theory Decimals
  imports Prelude
begin

text \<open>
  Arithmetic of Python's \<^verbatim>\<open>decimal\<close> module in its default context: 28 significant digits, ties
  to even; \<^verbatim>\<open>quantize(Decimal("0.01"), ROUND_HALF_UP)\<close>. A rounding is an interface
  (\<open>rounding\<close>): it keeps the order and the values it can represent, and what sums of rounded
  terms satisfy is proved from that alone.
\<close>

section \<open>The interface of a rounding\<close>

locale rounding =
  fixes rnd :: "rat \<Rightarrow> rat"
    and add :: "rat \<Rightarrow> rat \<Rightarrow> rat"
  assumes add_def: "add x y = rnd (x + y)"
    and rnd_mono: "0 \<le> x \<Longrightarrow> x \<le> y \<Longrightarrow> rnd x \<le> rnd y"
    and rnd_zero: "rnd 0 = 0"
    and rnd_idem: "0 \<le> x \<Longrightarrow> rnd (rnd x) = rnd x"
begin

lemma rnd_nonneg: "0 \<le> x \<Longrightarrow> 0 \<le> rnd x"
  using rnd_mono [of 0 x] by (simp add: rnd_zero)

lemma add_nonneg: "0 \<le> x \<Longrightarrow> 0 \<le> y \<Longrightarrow> 0 \<le> add x y"
  by (simp add: add_def rnd_nonneg)

lemma add_mono: "0 \<le> x \<Longrightarrow> 0 \<le> y \<Longrightarrow> x \<le> x' \<Longrightarrow> y \<le> y' \<Longrightarrow> add x y \<le> add x' y'"
  by (simp add: add_def rnd_mono)

lemma fold_add_nonneg: "0 \<le> a \<Longrightarrow> (\<forall>x \<in> set xs. 0 \<le> x) \<Longrightarrow> 0 \<le> foldl add a xs"
  by (induction xs arbitrary: a) (auto simp: add_nonneg)

lemma fold_add_mono:
  "0 \<le> a \<Longrightarrow> a \<le> b \<Longrightarrow> list_all2 (\<lambda>x y. 0 \<le> x \<and> x \<le> y) xs ys
     \<Longrightarrow> foldl add a xs \<le> foldl add b ys"
proof (induction xs arbitrary: a b ys)
  case Nil
  then show ?case by simp
next
  case (Cons x xs)
  from Cons.prems(3) obtain y ys' where ys: "ys = y # ys'" "0 \<le> x" "x \<le> y"
    and rest: "list_all2 (\<lambda>x y. 0 \<le> x \<and> x \<le> y) xs ys'"
    by (auto simp: list_all2_Cons1)
  have "add a x \<le> add b y" using Cons.prems(1,2) ys by (intro add_mono) auto
  moreover have "0 \<le> add a x" using Cons.prems(1) ys by (intro add_nonneg) auto
  ultimately show ?case using Cons.IH rest ys by simp
qed

text \<open>Leaving terms out of a sum never makes the rounded sum bigger.\<close>

lemma fold_add_filter_le:
  "0 \<le> a \<Longrightarrow> a \<le> b \<Longrightarrow> rnd a = a \<Longrightarrow> rnd b = b \<Longrightarrow> (\<forall>x \<in> set xs. 0 \<le> f x)
     \<Longrightarrow> foldl add a (map f (filter P xs)) \<le> foldl add b (map f xs)"
proof (induction xs arbitrary: a b)
  case Nil
  then show ?case by simp
next
  case (Cons x xs)
  have fx: "0 \<le> f x" using Cons.prems(5) by simp
  have idem: "rnd (add c (f x)) = add c (f x)" if "0 \<le> c" for c
    using that fx by (simp add: add_def rnd_idem)
  show ?case
  proof (cases "P x")
    case True
    have "add a (f x) \<le> add b (f x)" using Cons.prems fx by (intro add_mono) auto
    then show ?thesis
      using Cons.IH [of "add a (f x)" "add b (f x)"] Cons.prems True fx
      by (simp add: add_nonneg idem)
  next
    case False
    have "rnd b \<le> add b (f x)" unfolding add_def using Cons.prems fx by (intro rnd_mono) auto
    then have "a \<le> add b (f x)" using Cons.prems by linarith
    then show ?thesis
      using Cons.IH [of a "add b (f x)"] Cons.prems False fx by (simp add: idem)
  qed
qed

lemmas sum_laws = add_nonneg add_mono fold_add_nonneg fold_add_mono fold_add_filter_le

end

section \<open>Magnitudes\<close>

text \<open>
  The exponent of the leading digit: \<open>floor_log b x\<close> is the largest \<open>e\<close> with \<open>b\<^sup>e \<le> x\<close>, computed
  by repeated integer division.
\<close>

fun ilog :: "nat \<Rightarrow> nat \<Rightarrow> nat" where
  "ilog b m = (if b < 2 \<or> m < b then 0 else Suc (ilog b (m div b)))"

function clog :: "nat \<Rightarrow> nat \<Rightarrow> nat" where
  "clog b c = (if b < 2 \<or> c \<le> 1 then 0 else Suc (clog b (Suc ((c - 1) div b))))"
  by pat_completeness auto
termination
proof (relation "measure snd")
  show "wf (measure snd)" by simp
next
  fix b c :: nat
  assume "\<not> (b < 2 \<or> c \<le> 1)"
  then have "2 \<le> b" "2 \<le> c" by auto
  then have "(c - 1) div b \<le> (c - 1) div 2" by (simp add: div_le_mono2)
  with \<open>2 \<le> c\<close> have "Suc ((c - 1) div b) < c" by linarith
  then show "((b, Suc ((c - 1) div b)), b, c) \<in> measure snd" by simp
qed

declare ilog.simps [simp del] clog.simps [simp del]

definition floor_log :: "nat \<Rightarrow> rat \<Rightarrow> int" where
  "floor_log b x = (if 1 \<le> x then int (ilog b (nat \<lfloor>x\<rfloor>)) else - int (clog b (nat \<lceil>1 / x\<rceil>)))"

lemma ilog_bounds: "2 \<le> b \<Longrightarrow> 1 \<le> m \<Longrightarrow> b ^ ilog b m \<le> m \<and> m < b ^ Suc (ilog b m)"
proof (induction b m rule: ilog.induct)
  case (1 b m)
  show ?case
  proof (cases "m < b")
    case True
    with 1 show ?thesis by (simp add: ilog.simps [of b m])
  next
    case False
    define q where "q = m div b"
    have q: "1 \<le> q" using False 1(2) by (simp add: q_def div_greater_zero_iff Suc_le_eq)
    have m: "q * b \<le> m" "m < Suc q * b"
      using 1(2) by (auto simp: q_def dividend_less_div_times)
    from 1 False q have IH: "b ^ ilog b q \<le> q" "q < b ^ Suc (ilog b q)"
      by (auto simp: q_def)
    have "b ^ ilog b q * b \<le> m"
      using mult_le_mono1 [OF IH(1), of b] m(1) by (rule order_trans)
    moreover have "m < b ^ Suc (ilog b q) * b"
      using m(2) mult_le_mono1 [OF Suc_leI [OF IH(2)], of b] by (rule less_le_trans)
    moreover have "ilog b m = Suc (ilog b q)"
      using False 1(2) by (simp add: ilog.simps [of b m] q_def)
    ultimately show ?thesis by (simp only: power_Suc2)
  qed
qed

lemma clog_bounds: "2 \<le> b \<Longrightarrow> c \<le> b ^ clog b c \<and> (1 < c \<longrightarrow> b ^ (clog b c - 1) < c)"
proof (induction b c rule: clog.induct)
  case (1 b c)
  show ?case
  proof (cases "c \<le> 1")
    case True
    then show ?thesis by (simp add: clog.simps [of b c])
  next
    case False
    define q where "q = (c - 1) div b"
    have m: "q * b \<le> c - 1" "c - 1 < Suc q * b"
      using 1(2) by (auto simp: q_def dividend_less_div_times)
    from 1 False have IH: "Suc q \<le> b ^ clog b (Suc q)"
        "1 < Suc q \<longrightarrow> b ^ (clog b (Suc q) - 1) < Suc q"
      by (auto simp: q_def)
    have "c \<le> Suc q * b" using m by linarith
    also have "\<dots> \<le> b ^ clog b (Suc q) * b" using IH(1) by (rule mult_le_mono1)
    finally have le: "c \<le> b ^ Suc (clog b (Suc q))" by (simp add: mult.commute)
    have lt: "b ^ clog b (Suc q) < c"
    proof (cases "q = 0")
      case True
      then show ?thesis using False by (simp add: clog.simps [of b "Suc 0"])
    next
      case nz: False
      then obtain k where k: "clog b (Suc q) = Suc k"
        using 1(2) by (simp add: clog.simps [of b "Suc q"])
      have "b ^ k \<le> q" using IH(2) nz k by simp
      then have "b ^ k * b \<le> q * b" by (rule mult_le_mono1)
      then have "b ^ k * b \<le> c - 1" using m(1) by (rule order_trans)
      moreover have "c - 1 < c" using False by simp
      ultimately show ?thesis unfolding k power_Suc2 by (rule le_less_trans)
    qed
    have "clog b c = Suc (clog b (Suc q))"
      using False 1(2) by (simp add: clog.simps [of b c] q_def)
    then show ?thesis using le lt by (simp del: power_Suc)
  qed
qed

lemma powi_add:
  "2 \<le> b \<Longrightarrow> (of_nat b powi (d + e) :: rat) = of_nat b powi d * of_nat b powi e"
  by (rule power_int_add) simp

lemma powi_minus: "(x::rat) powi (- int k) = 1 / x ^ k"
  by (simp add: power_int_minus inverse_eq_divide)

lemma floor_log_bounds:
  assumes "2 \<le> b" and "0 < x"
  shows "of_nat b powi floor_log b x \<le> x" and "x < of_nat b powi (floor_log b x + 1)"
proof -
  have "of_nat b powi floor_log b x \<le> x \<and> x < of_nat b powi (floor_log b x + 1)"
  proof (cases "1 \<le> x")
    case True
    define m where "m = nat \<lfloor>x\<rfloor>"
    have m1: "1 \<le> m" using True by (simp add: m_def le_nat_iff)
    have mx: "of_nat m \<le> x" "x < of_nat m + 1"
      using True floor_correct [of x] by (simp_all add: m_def of_nat_nat)
    from ilog_bounds [OF assms(1) m1] have a: "b ^ ilog b m \<le> m" and c: "Suc m \<le> b ^ Suc (ilog b m)"
      by auto
    from a have "(of_nat b ^ ilog b m :: rat) \<le> of_nat m"
      by (metis of_nat_le_iff of_nat_power)
    then have lo: "of_nat b ^ ilog b m \<le> x" using mx(1) by (rule order_trans)
    from c have "(of_nat m + 1 :: rat) \<le> of_nat b ^ Suc (ilog b m)"
      by (metis of_nat_le_iff of_nat_power of_nat_Suc add.commute)
    with mx(2) have hi: "x < of_nat b ^ Suc (ilog b m)" by (rule less_le_trans)
    have "floor_log b x + 1 = int (Suc (ilog b m))" "floor_log b x = int (ilog b m)"
      using True by (simp_all add: floor_log_def m_def)
    then show ?thesis using lo hi by (simp only: power_int_of_nat simp_thms)
  next
    case False
    define c where "c = nat \<lceil>1 / x\<rceil>"
    have big: "1 < 1 / x" using False assms(2) by (simp add: field_simps)
    then have c1: "1 < c" by (simp add: c_def less_ceiling_iff)
    have cx: "1 / x \<le> of_nat c" "of_nat c - 1 < 1 / x"
      using big ceiling_correct [of "1 / x"] by (simp_all add: c_def)
    define k where "k = clog b c"
    from clog_bounds [OF assms(1), of c] c1 have u: "c \<le> b ^ k" and l: "b ^ (k - 1) < c"
      by (auto simp: k_def)
    have k0: "k \<noteq> 0" using u c1 by (cases k) auto
    have pos: "(0::rat) < of_nat b ^ n" for n using assms(1) by simp
    from u have "(of_nat c :: rat) \<le> of_nat b ^ k"
      by (metis of_nat_le_iff of_nat_power)
    with cx have "1 / x \<le> of_nat b ^ k" by linarith
    then have lo: "1 / of_nat b ^ k \<le> x" using assms(2) pos [of k] by (simp add: field_simps)
    from l have "b ^ (k - 1) + 1 \<le> c" by simp
    then have "(of_nat b ^ (k - 1) :: rat) + 1 \<le> of_nat c"
      by (metis of_nat_le_iff of_nat_power of_nat_add of_nat_1)
    with cx have "of_nat b ^ (k - 1) < 1 / x" by linarith
    then have hi: "x < 1 / of_nat b ^ (k - 1)" using assms(2) pos [of "k - 1"] by (simp add: field_simps)
    have e: "floor_log b x = - int k" using False by (simp add: floor_log_def c_def k_def)
    have e1: "floor_log b x + 1 = - int (k - 1)" using e k0 by (simp add: of_nat_diff)
    have "(of_nat b :: rat) powi (floor_log b x) = 1 / of_nat b ^ k"
      unfolding e by (rule powi_minus)
    moreover have "(of_nat b :: rat) powi (floor_log b x + 1) = 1 / of_nat b ^ (k - 1)"
      unfolding e1 by (rule powi_minus)
    ultimately show ?thesis using lo hi by simp
  qed
  then show "of_nat b powi floor_log b x \<le> x" and "x < of_nat b powi (floor_log b x + 1)" by auto
qed


section \<open>Rounding to a number of significant digits\<close>

definition round_half_even :: "rat \<Rightarrow> int" where
  "round_half_even x =
     (let f = \<lfloor>x\<rfloor>; r = x - of_int f
      in if r < 1 / 2 then f else if 1 / 2 < r then f + 1 else if even f then f else f + 1)"

text \<open>\<open>p\<close> significant digits to base \<open>b\<close>, for a value that is not negative.\<close>

definition round_sig :: "nat \<Rightarrow> nat \<Rightarrow> rat \<Rightarrow> rat" where
  "round_sig b p x =
     (if x \<le> 0 then 0
      else let u = of_nat b powi (floor_log b x + 1 - int p)
           in of_int (round_half_even (x / u)) * u)"

lemma round_half_even_int [simp]: "round_half_even (of_int i) = i"
  by (simp add: round_half_even_def)

lemma round_half_even_mono: "x \<le> y \<Longrightarrow> round_half_even x \<le> round_half_even y"
proof -
  assume le: "x \<le> y"
  show ?thesis
  proof (cases "\<lfloor>x\<rfloor> = \<lfloor>y\<rfloor>")
    case True
    then show ?thesis using le by (simp add: round_half_even_def Let_def)
  next
    case False
    with le have "\<lfloor>x\<rfloor> + 1 \<le> \<lfloor>y\<rfloor>" using floor_mono [OF le] by linarith
    moreover have "round_half_even x \<le> \<lfloor>x\<rfloor> + 1" "\<lfloor>y\<rfloor> \<le> round_half_even y"
      by (auto simp: round_half_even_def Let_def)
    ultimately show ?thesis by linarith
  qed
qed

lemma round_sig_zero: "round_sig b p 0 = 0"
  by (simp add: round_sig_def)

lemma powi_pos: "2 \<le> b \<Longrightarrow> (0::rat) < of_nat b powi e"
  by simp

lemma powi_less_iff: "2 \<le> b \<Longrightarrow> (of_nat b powi d :: rat) < of_nat b powi e \<longleftrightarrow> d < e"
  using power_int_strict_increasing [of d e "of_nat b"] power_int_increasing [of e d "of_nat b"]
  by (metis linorder_not_less of_nat_1 of_nat_less_iff order_less_imp_le Suc_1 less_eq_Suc_le One_nat_def)

lemma powi_le_iff: "2 \<le> b \<Longrightarrow> (of_nat b powi d :: rat) \<le> of_nat b powi e \<longleftrightarrow> d \<le> e"
  using powi_less_iff [of b e d] by (metis linorder_not_less)

lemma floor_log_unique:
  assumes "2 \<le> b" "of_nat b powi e \<le> (x::rat)" "x < of_nat b powi (e + 1)"
  shows "floor_log b x = e"
proof -
  have "0 < x" using powi_pos [OF assms(1), of e] assms(2) by linarith
  note B = floor_log_bounds [OF assms(1) this]
  have "of_nat b powi floor_log b x < (of_nat b powi (e + 1) :: rat)" using B(1) assms(3) by linarith
  moreover have "of_nat b powi e < (of_nat b powi (floor_log b x + 1) :: rat)"
    using B(2) assms(2) by linarith
  ultimately show ?thesis by (simp only: powi_less_iff [OF assms(1)])
qed

lemma floor_log_mono:
  assumes "2 \<le> b" "0 < x" "x \<le> y"
  shows "floor_log b x \<le> floor_log b y"
proof -
  have "of_nat b powi floor_log b x < (of_nat b powi (floor_log b y + 1) :: rat)"
    using floor_log_bounds(1) [of b x] floor_log_bounds(2) [of b y] assms by linarith
  then show ?thesis by (simp only: powi_less_iff [OF assms(1)])
qed

lemma floor_log_shift:
  assumes "2 \<le> b" "0 < x"
  shows "floor_log b (x * of_nat b powi j) = floor_log b x + j"
proof (rule floor_log_unique [OF assms(1)])
  have pj: "(0::rat) < of_nat b powi j" by (rule powi_pos [OF assms(1)])
  show "of_nat b powi (floor_log b x + j) \<le> x * of_nat b powi j"
    unfolding powi_add [OF assms(1)]
    using floor_log_bounds(1) [OF assms] less_imp_le [OF pj] by (rule mult_right_mono)
  have "floor_log b x + j + 1 = (floor_log b x + 1) + j" by simp
  then have "of_nat b powi (floor_log b x + j + 1) =
      (of_nat b powi (floor_log b x + 1) * of_nat b powi j :: rat)"
    by (simp only: powi_add [OF assms(1)])
  then show "x * of_nat b powi j < of_nat b powi (floor_log b x + j + 1)"
    using mult_strict_right_mono [OF floor_log_bounds(2) [OF assms] pj] by (simp only:)
qed

text \<open>The scaled mantissa lies between two powers of the base.\<close>

lemma unit_scale:
  assumes "2 \<le> b"
  shows "(of_nat b powi l :: rat) = of_nat b ^ n * of_nat b powi (l - int n)"
proof -
  have "l = int n + (l - int n)" by simp
  then have "(of_nat b powi l :: rat) = of_nat b powi (int n + (l - int n))" by (simp only:)
  also have "\<dots> = of_nat b ^ n * of_nat b powi (l - int n)"
    by (simp only: powi_add [OF assms] power_int_of_nat)
  finally show ?thesis .
qed

lemma mantissa_bounds:
  assumes "2 \<le> b" "1 \<le> p" "0 < (x::rat)"
  defines "u \<equiv> of_nat b powi (floor_log b x + 1 - int p)"
  shows "int b ^ (p - 1) \<le> round_half_even (x / u)" "round_half_even (x / u) \<le> int b ^ p"
    and "of_int (int b ^ (p - 1)) * u = of_nat b powi floor_log b x"
    and "of_int (int b ^ p) * u = of_nat b powi (floor_log b x + 1)"
proof -
  have u0: "0 < u" unfolding u_def by (rule powi_pos [OF assms(1)])
  have "floor_log b x - int (p - 1) = floor_log b x + 1 - int p" using assms(2) by simp
  then show lo': "of_int (int b ^ (p - 1)) * u = of_nat b powi floor_log b x"
    using unit_scale [OF assms(1), of "floor_log b x" "p - 1"]
    by (simp only: u_def of_int_power of_int_of_nat_eq)
  show hi': "of_int (int b ^ p) * u = of_nat b powi (floor_log b x + 1)"
    using unit_scale [OF assms(1), of "floor_log b x + 1" "p"]
    by (simp only: u_def of_int_power of_int_of_nat_eq)
  have lo: "of_int (int b ^ (p - 1)) \<le> x / u"
    using floor_log_bounds(1) [OF assms(1,3)] u0
    by (simp only: pos_le_divide_eq [OF u0] lo')
  have hi: "x / u \<le> of_int (int b ^ p)"
    using floor_log_bounds(2) [OF assms(1,3)] u0
    by (simp only: pos_divide_le_eq [OF u0] hi' less_imp_le)
  show "int b ^ (p - 1) \<le> round_half_even (x / u)"
    using round_half_even_mono [OF lo] by (simp only: round_half_even_int)
  show "round_half_even (x / u) \<le> int b ^ p"
    using round_half_even_mono [OF hi] by (simp only: round_half_even_int)
qed

lemma round_sig_bounds:
  assumes "2 \<le> b" "1 \<le> p" "0 < (x::rat)"
  shows "of_nat b powi floor_log b x \<le> round_sig b p x"
    and "round_sig b p x \<le> of_nat b powi (floor_log b x + 1)"
proof -
  define u :: rat where "u = of_nat b powi (floor_log b x + 1 - int p)"
  have u0: "0 \<le> u" unfolding u_def by (rule less_imp_le [OF powi_pos [OF assms(1)]])
  have r: "round_sig b p x = of_int (round_half_even (x / u)) * u"
    using assms(3) by (simp add: round_sig_def u_def Let_def)
  note M = mantissa_bounds [OF assms, folded u_def]
  have "(of_int (int b ^ (p - 1)) :: rat) \<le> of_int (round_half_even (x / u))"
    using M(1) by (simp only: of_int_le_iff)
  from mult_right_mono [OF this u0] show "of_nat b powi floor_log b x \<le> round_sig b p x"
    by (simp only: M(3) r)
  have "(of_int (round_half_even (x / u)) :: rat) \<le> of_int (int b ^ p)"
    using M(2) by (simp only: of_int_le_iff)
  from mult_right_mono [OF this u0] show "round_sig b p x \<le> of_nat b powi (floor_log b x + 1)"
    by (simp only: M(4) r)
qed

lemma round_sig_mono:
  assumes "2 \<le> b" "1 \<le> p" "0 \<le> (x::rat)" "x \<le> y"
  shows "round_sig b p x \<le> round_sig b p y"
proof (cases "x = 0")
  case True
  show ?thesis
  proof (cases "y = 0")
    case False
    then have "0 < y" using True assms by simp
    then have "0 \<le> round_sig b p y"
      using round_sig_bounds(1) [OF assms(1,2), of y] powi_pos [OF assms(1), of "floor_log b y"]
      by linarith
    then show ?thesis using True by (simp add: round_sig_zero)
  qed (simp add: True)
next
  case False
  then have x0: "0 < x" and y0: "0 < y" using assms by auto
  show ?thesis
  proof (cases "floor_log b x = floor_log b y")
    case True
    define u :: rat where "u = of_nat b powi (floor_log b x + 1 - int p)"
    have u0: "0 < u" unfolding u_def by (rule powi_pos [OF assms(1)])
    have "round_half_even (x / u) \<le> round_half_even (y / u)"
      using assms(4) u0 by (intro round_half_even_mono) (simp add: divide_right_mono)
    moreover have "round_sig b p x = of_int (round_half_even (x / u)) * u"
      "round_sig b p y = of_int (round_half_even (y / u)) * u"
      using x0 y0 True by (simp_all add: round_sig_def Let_def u_def)
    ultimately show ?thesis using u0 by simp
  next
    case False
    with floor_log_mono [OF assms(1) x0 assms(4)] have "floor_log b x + 1 \<le> floor_log b y" by simp
    then have "of_nat b powi (floor_log b x + 1) \<le> (of_nat b powi floor_log b y :: rat)"
      by (simp only: powi_le_iff [OF assms(1)])
    then show ?thesis
      using round_sig_bounds(2) [OF assms(1,2) x0] round_sig_bounds(1) [OF assms(1,2) y0] by linarith
  qed
qed

text \<open>A value with at most \<open>p\<close> digits is a fixed point.\<close>

lemma round_sig_on_grid:
  assumes "2 \<le> b" "0 < (x::rat)" "x = of_int m * of_nat b powi k"
    and le: "floor_log b x + 1 - int p \<le> k"
  shows "round_sig b p x = x"
proof -
  define e where "e = floor_log b x"
  obtain n where n: "k = (e + 1 - int p) + int n"
    using le unfolding e_def [symmetric]
    by (metis add.commute diff_add_cancel nonneg_int_cases diff_ge_0_iff_ge)
  define u :: rat where "u = of_nat b powi (e + 1 - int p)"
  have u0: "u \<noteq> 0" using powi_pos [OF assms(1), of "e + 1 - int p"] unfolding u_def by linarith
  have q: "x / u = of_int (m * int b ^ n)"
    using u0 unfolding assms(3) n powi_add [OF assms(1)] u_def [symmetric] by simp
  then have "round_sig b p x = of_int (m * int b ^ n) * u"
    using assms(2) unfolding round_sig_def Let_def e_def [symmetric] u_def [symmetric]
    by (simp del: of_int_mult of_int_power)
  also have "\<dots> = x" using q u0 by (metis nonzero_divide_eq_eq)
  finally show ?thesis .
qed

lemma round_sig_representable:
  assumes "2 \<le> b" "1 \<le> p" "0 \<le> m" "m \<le> int b ^ p"
  shows "round_sig b p (of_int m * of_nat b powi k) = of_int m * of_nat b powi k"
proof (cases "m = 0")
  case True
  then show ?thesis by (simp add: round_sig_zero)
next
  case False
  define x :: rat where "x = of_int m * of_nat b powi k"
  have pk: "(0::rat) < of_nat b powi k" by (rule powi_pos [OF assms(1)])
  have x0: "0 < x" using False assms(3) pk by (simp add: x_def)
  have pw: "of_nat b powi (k + int n) = (of_int (int b ^ n) * of_nat b powi k :: rat)" for n k
    by (simp only: powi_add [OF assms(1)] power_int_of_nat of_int_power of_int_of_nat_eq
          mult.commute)
  have "round_sig b p x = x"
  proof (cases "m = int b ^ p")
    case True
    have x1: "x = of_nat b powi (k + int p)" by (simp only: x_def pw True)
    have x2: "x = of_int (int b ^ (p - 1)) * of_nat b powi (k + 1)"
      using pw [of "k + 1" "p - 1"] assms(2) by (simp add: x1 of_nat_diff algebra_simps)
    have "floor_log b x = k + int p"
      unfolding x1 using powi_less_iff [OF assms(1), of "k + int p" "k + int p + 1"]
      by (intro floor_log_unique [OF assms(1)]) auto
    then show ?thesis by (intro round_sig_on_grid [OF assms(1) x0 x2]) simp
  next
    case False
    with assms(4) have "(of_int m :: rat) < of_int (int b ^ p)" by (simp only: of_int_less_iff)
    from mult_strict_right_mono [OF this pk]
    have "x < of_nat b powi (k + int p)" by (simp only: x_def pw)
    with floor_log_bounds(1) [OF assms(1) x0]
    have "of_nat b powi floor_log b x < (of_nat b powi (k + int p) :: rat)" by linarith
    then have "floor_log b x < k + int p" by (simp only: powi_less_iff [OF assms(1)])
    then show ?thesis by (intro round_sig_on_grid [OF assms(1) x0 x_def]) simp
  qed
  then show ?thesis by (simp only: x_def)
qed

lemma round_sig_nonneg:
  assumes "2 \<le> b" "1 \<le> p" shows "0 \<le> round_sig b p x"
proof (cases "x \<le> 0")
  case False
  then show ?thesis
    using round_sig_bounds(1) [OF assms, of x] powi_pos [OF assms(1), of "floor_log b x"] by linarith
qed (simp add: round_sig_def)

lemma round_sig_idem:
  assumes "2 \<le> b" "1 \<le> p"
  shows "round_sig b p (round_sig b p x) = round_sig b p x"
proof (cases "x \<le> 0")
  case False
  then have x: "0 < x" by simp
  note M = mantissa_bounds [OF assms x]
  have "0 \<le> round_half_even (x / of_nat b powi (floor_log b x + 1 - int p))"
    using M(1) by (rule order_trans [rotated]) simp
  from round_sig_representable [OF assms this M(2)] show ?thesis
    using x by (simp add: round_sig_def [of b p x] Let_def)
qed (simp add: round_sig_def)

text \<open>Rounding commutes with a shift of the exponent.\<close>

lemma round_sig_shift:
  assumes "2 \<le> b"
  shows "round_sig b p (x * of_nat b powi j) = round_sig b p x * of_nat b powi j"
proof (cases "x \<le> 0")
  case True
  then show ?thesis
    using powi_pos [OF assms, of j] by (simp add: round_sig_def mult_le_0_iff)
next
  case False
  then have x: "0 < x" by simp
  have pj: "(0::rat) < of_nat b powi j" by (rule powi_pos [OF assms])
  define u :: rat where "u = of_nat b powi (floor_log b x + 1 - int p)"
  define s :: rat where "s = of_nat b powi j"
  have "\<not> x * s \<le> 0" using x pj by (simp add: s_def not_le)
  moreover have "floor_log b (x * s) + 1 - int p = (floor_log b x + 1 - int p) + j"
    by (simp add: s_def floor_log_shift [OF assms x])
  then have "of_nat b powi (floor_log b (x * s) + 1 - int p) = u * s"
    by (simp only: u_def s_def powi_add [OF assms])
  moreover have "s \<noteq> 0" using pj by (simp only: s_def less_imp_neq)
  then have "x * s / (u * s) = x / u" by simp
  ultimately have "round_sig b p (x * s) = of_int (round_half_even (x / u)) * (u * s)"
    by (simp only: round_sig_def Let_def if_False)
  then show ?thesis using False by (simp only: round_sig_def Let_def if_False mult.assoc s_def u_def)
qed

section \<open>The default decimal context\<close>

definition dec_round :: "rat \<Rightarrow> rat" where
  "dec_round = round_sig 10 28"

definition dec_add :: "rat \<Rightarrow> rat \<Rightarrow> rat" where
  "dec_add x y = dec_round (x + y)"

definition dec_mul :: "rat \<Rightarrow> rat \<Rightarrow> rat" where
  "dec_mul x y = dec_round (x * y)"

interpretation dec: rounding dec_round dec_add
  by unfold_locales
    (auto simp: dec_add_def dec_round_def round_sig_mono round_sig_zero round_sig_idem)

lemma dec_round_int: "0 \<le> n \<Longrightarrow> n \<le> 10 ^ 28 \<Longrightarrow> dec_round (of_int n) = of_int n"
  using round_sig_representable [of 10 28 n 0] by (simp add: dec_round_def)

text \<open>A shortcut for evaluation: six decimal places need no rounding.\<close>

lemma dec_round_code [code]:
  "dec_round x =
     (let y = x * 1000000; m = \<lfloor>y\<rfloor>
      in if 0 \<le> m \<and> m \<le> 10000000000000000000000000000 \<and> of_int m = y then x else round_sig 10 28 x)"
proof -
  have "dec_round x = x" if m: "0 \<le> m" "m \<le> 10000000000000000000000000000" "of_int m = x * 1000000" for m
  proof -
    have "x = of_int m * of_nat 10 powi (- 6)" using m(3) by (simp add: power_int_def field_simps)
    moreover have "round_sig 10 28 (of_int m * of_nat 10 powi (- 6)) = of_int m * of_nat 10 powi (- 6)"
      using m(1,2) by (intro round_sig_representable) simp_all
    ultimately show ?thesis by (simp only: dec_round_def)
  qed
  from this [of "\<lfloor>x * 1000000\<rfloor>"] show ?thesis
    unfolding Let_def dec_round_def by (simp only: split: if_split) blast
qed

text \<open>The repr of a double has at most 17 significant digits, so a decimal keeps it.\<close>

definition float_repr :: "rat \<Rightarrow> bool" where
  "float_repr x \<longleftrightarrow> round_sig 10 17 x = x"

lemma float_repr_exact:
  assumes "float_repr x" shows "dec_round x = x"
proof (cases "x \<le> 0")
  case True
  then show ?thesis using assms by (simp add: float_repr_def round_sig_def dec_round_def)
next
  case False
  then have x: "0 < x" by simp
  define u :: rat where "u = of_nat 10 powi (floor_log 10 x + 1 - int 17)"
  note M = mantissa_bounds [of 10 17, OF _ _ x, folded u_def]
  have m: "0 \<le> round_half_even (x / u)" "round_half_even (x / u) \<le> int 10 ^ 28"
    using M(1,2) by auto
  have "x = of_int (round_half_even (x / u)) * u"
    using assms False by (simp add: float_repr_def round_sig_def Let_def u_def)
  then show ?thesis
    using round_sig_representable [of 10 28, OF _ _ m, of "floor_log 10 x + 1 - int 17"]
    unfolding dec_round_def u_def by simp
qed

text \<open>Multiplying by a hundred is exact in the sense that it commutes with rounding.\<close>

lemma dec_round_hundred: "dec_round (x * 100) = dec_round x * 100"
  using round_sig_shift [of 10 28 x 2] by (simp add: dec_round_def)

text \<open>\<^verbatim>\<open>quantize(Decimal("0.01"), rounding=ROUND_HALF_UP)\<close> of a value that is not negative.\<close>

definition quantize_cents :: "rat \<Rightarrow> rat" where
  "quantize_cents x = of_int \<lfloor>x * 100 + 1 / 2\<rfloor> / 100"

lemma quantize_mono: "x \<le> y \<Longrightarrow> quantize_cents x \<le> quantize_cents y"
  by (auto simp: quantize_cents_def intro!: divide_right_mono floor_mono)

lemma quantize_whole [simp]: "quantize_cents (of_int n) = of_int n"
proof -
  have "\<lfloor>of_int n * 100 + 1 / 2 :: rat\<rfloor> = n * 100"
    by (rule floor_unique) simp_all
  then show ?thesis by (simp add: quantize_cents_def)
qed

lemma quantize_hundred [simp]: "quantize_cents 100 = 100"
  using quantize_whole [of 100] by simp

lemma quantize_zero [simp]: "quantize_cents 0 = 0"
  using quantize_whole [of 0] by simp

section \<open>Binary double arithmetic\<close>

text \<open>
  The components that compute with floats represent a double by its exact value, and round the
  exact result of each operation to 53 binary digits, ties to even. Magnitudes stay far from
  overflow and underflow.
\<close>

type_synonym double = rat

definition dbl :: "rat \<Rightarrow> double" where
  "dbl x = (if 0 \<le> x then round_sig 2 53 x else - round_sig 2 53 (- x))"

definition dbl_add :: "double \<Rightarrow> double \<Rightarrow> double" where
  "dbl_add x y = dbl (x + y)"

definition dbl_sub :: "double \<Rightarrow> double \<Rightarrow> double" where
  "dbl_sub x y = dbl (x - y)"

definition dbl_mul :: "double \<Rightarrow> double \<Rightarrow> double" where
  "dbl_mul x y = dbl (x * y)"

lemma dbl_nonneg: "0 \<le> x \<Longrightarrow> 0 \<le> dbl x"
  by (simp add: dbl_def round_sig_nonneg)

lemma dbl_idem: "dbl (dbl x) = dbl x"
  using round_sig_nonneg [of 2 53 x] round_sig_nonneg [of 2 53 "- x"]
  by (auto simp: dbl_def round_sig_idem round_sig_zero)

lemma dbl_zero [simp]: "dbl 0 = 0"
  by (simp add: dbl_def round_sig_zero)

lemma dbl_mono: "x \<le> y \<Longrightarrow> dbl x \<le> dbl y"
proof -
  assume le: "x \<le> y"
  consider "0 \<le> x" | "x < 0" "0 \<le> y" | "y < 0" by linarith
  then show ?thesis
  proof cases
    case 2
    then show ?thesis using round_sig_nonneg [of 2 53 y] round_sig_nonneg [of 2 53 "- x"]
      by (simp add: dbl_def)
  qed (use le in \<open>simp_all add: dbl_def round_sig_mono\<close>)
qed

interpretation dbl: rounding dbl dbl_add
  by unfold_locales (auto simp: dbl_add_def dbl_mono dbl_idem)

text \<open>Integers below \<open>2\<^sup>5\<^sup>3\<close> and their quotients by powers of two are doubles.\<close>

lemma dbl_exact: "0 \<le> m \<Longrightarrow> m \<le> 2 ^ 53 \<Longrightarrow> dbl (of_int m * 2 powi k) = of_int m * 2 powi k"
  using round_sig_representable [of 2 53 m k] by (simp add: dbl_def)

lemma dbl_one [simp]: "dbl 1 = 1"
  using dbl_exact [of 1 0] by simp

text \<open>A shortcut for evaluation: quotients by \<open>2\<^sup>1\<^sup>0\<close> need no rounding.\<close>

lemma dbl_code [code]:
  "dbl x =
     (let y = x * 1024; m = \<lfloor>y\<rfloor>
      in if 0 \<le> m \<and> m \<le> 9007199254740992 \<and> of_int m = y then x
         else if 0 \<le> x then round_sig 2 53 x else - round_sig 2 53 (- x))"
proof -
  have "dbl x = x" if m: "0 \<le> m" "m \<le> 9007199254740992" "of_int m = x * 1024" for m
  proof -
    have "x = of_int m * 2 powi (- 10)" using m(3) by (simp add: power_int_def field_simps)
    then show ?thesis using dbl_exact [OF m(1), of "- 10"] m(2) by (simp only:) simp
  qed
  from this [of "\<lfloor>x * 1024\<rfloor>"] show ?thesis by (simp add: Let_def dbl_def)
qed

lemma dbl_scale: "0 \<le> x \<Longrightarrow> dbl (x * 2 powi j) = dbl x * 2 powi j"
  using round_sig_shift [of 2 53 x j] by (simp add: dbl_def)

lemma dbl_mul_bounds:
  assumes "dbl x = x" "0 \<le> x" "1 / 2 \<le> y" "y \<le> 1"
  shows "x / 2 \<le> dbl_mul x y" "dbl_mul x y \<le> x"
proof -
  have "x * (1 / 2) \<le> x * y" using assms by (intro mult_left_mono) auto
  then have "dbl (x * 2 powi (- 1)) \<le> dbl_mul x y"
    unfolding dbl_mul_def by (intro dbl_mono) (simp add: power_int_def)
  then show "x / 2 \<le> dbl_mul x y"
    unfolding dbl_scale [OF assms(2)] assms(1) by (simp add: power_int_def)
  have "x * y \<le> x" using assms by (simp add: mult_left_le)
  then show "dbl_mul x y \<le> x" unfolding dbl_mul_def by (metis dbl_mono assms(1))
qed

end
