(* ===== verification/Policies.thy ===== *)
theory Policies
  imports Results Json Decimals
begin

text \<open>
  The versioned policy packs (\<^verbatim>\<open>policies/loader.py\<close>): the three policy models with their validators
  and lookups, strict decoding, the containment checks on the path of a pack, and the registry
  that loads each pack once. The file system, the UTF-8/JSON decoder and the digest are
  parameters (\<open>policy_env\<close>).
\<close>

section \<open>Policy models\<close>

record policy_metadata =
  pm_policy_id :: pystr
  pm_version :: pystr
  pm_owner :: pystr
  pm_effective_date :: pystr

record taxonomy_topic =
  tt_id :: pystr
  tt_description :: pystr
  tt_priorities :: "pystr list"

record taxonomy_policy =
  tp_metadata :: policy_metadata
  tp_topics :: "taxonomy_topic list"

record quality_criterion =
  qr_id :: pystr
  qr_weight :: pyfloat
  qr_description :: pystr

record quality_policy =
  qp_metadata :: policy_metadata
  qp_criteria :: "quality_criterion list"
  qp_review_threshold :: pyfloat
  qp_role_threshold :: pyfloat

record compliance_rule =
  cru_id :: pystr
  cru_severity :: severity
  cru_description :: pystr

record compliance_policy =
  cp_metadata :: policy_metadata
  cp_rules :: "compliance_rule list"

definition topic_ids :: "pystr list" where
  "topic_ids = [[1082, 1088, 1077, 1076, 1080, 1090, 1099], [1082, 1072, 1088, 1090, 1099],
     [1087, 1077, 1088, 1077, 1074, 1086, 1076, 1099], [1078, 1072, 1083, 1086, 1073, 1099],
     [1076, 1088, 1091, 1075, 1086, 1077]]"

definition priority_ids :: "pystr list" where
  "priority_ids = [lit ''low'', lit ''medium'', lit ''high'']"

definition quality_criteria :: "pystr list" where
  "quality_criteria =
     [lit ''greeting'', lit ''need_detection'', lit ''solution_provided'', lit ''farewell'']"

section \<open>Validators\<close>

definition validate_PolicyMetadata :: "policy_metadata \<Rightarrow> exn + policy_metadata" where
  "validate_PolicyMetadata m =
     bindE (non_empty_id (pm_policy_id m)) (\<lambda>i.
     bindE (non_empty_id (pm_version m)) (\<lambda>v.
     bindE (non_empty_id (pm_owner m)) (\<lambda>w.
     bindE (bindE (non_empty_id (pm_effective_date m)) require_iso_date) (\<lambda>d.
       Inr \<lparr>pm_policy_id = i, pm_version = v, pm_owner = w, pm_effective_date = d\<rparr>))))"

definition validate_TaxonomyTopic :: "taxonomy_topic \<Rightarrow> exn + taxonomy_topic" where
  "validate_TaxonomyTopic t =
     bindE (non_empty_id (tt_id t)) (\<lambda>i.
     bindE (long_text (tt_description t)) (\<lambda>d.
     bindE (mapE non_empty_id (tt_priorities t)) (\<lambda>ps.
     bindE (requireE ValidationError (ps \<noteq> [])) (\<lambda>_.
     bindE (requireE ValidationError (i \<in> set topic_ids)) (\<lambda>_.
     bindE (requireE ValidationError (all_unique ps)) (\<lambda>_.
     bindE (requireE ValidationError (subset_of ps priority_ids)) (\<lambda>_.
       Inr \<lparr>tt_id = i, tt_description = d, tt_priorities = ps\<rparr>)))))))"

definition validate_TaxonomyPolicy :: "taxonomy_policy \<Rightarrow> exn + taxonomy_policy" where
  "validate_TaxonomyPolicy p =
     (let ids = map tt_id (tp_topics p) in
      if tp_topics p = [] then Inl ValidationError
      else if \<not> all_unique ids \<or> \<not> (subset_of ids topic_ids \<and> subset_of topic_ids ids)
        then Inl ValidationError
      else Inr p)"

definition validate_QualityCriterion :: "quality_criterion \<Rightarrow> exn + quality_criterion" where
  "validate_QualityCriterion c =
     bindE (non_empty_id (qr_id c)) (\<lambda>i.
     bindE (requireE ValidationError (0 < qr_weight c \<and> qr_weight c \<le> 1)) (\<lambda>_.
     bindE (long_text (qr_description c)) (\<lambda>d.
       Inr (c\<lparr>qr_id := i, qr_description := d\<rparr>))))"

text \<open>\<^verbatim>\<open>sum((Decimal(str(item.weight)) for item in criteria), Decimal("0"))\<close>\<close>

definition weight_sum :: "quality_criterion list \<Rightarrow> rat" where
  "weight_sum cs = foldl dec_add 0 (map qr_weight cs)"

definition validate_QualityPolicy :: "quality_policy \<Rightarrow> exn + quality_policy" where
  "validate_QualityPolicy p =
     bindE (requireE ValidationError (qp_criteria p \<noteq> [])) (\<lambda>_.
     bindE (confidence (qp_review_threshold p)) (\<lambda>_.
     bindE (confidence (qp_role_threshold p)) (\<lambda>_.
     bindE (requireE ValidationError (map qr_id (qp_criteria p) = quality_criteria)) (\<lambda>_.
     bindE (requireE ValidationError (weight_sum (qp_criteria p) = 1)) (\<lambda>_.
       Inr p)))))"

definition validate_ComplianceRule :: "compliance_rule \<Rightarrow> exn + compliance_rule" where
  "validate_ComplianceRule r =
     bindE (non_empty_id (cru_id r)) (\<lambda>i.
     bindE (long_text (cru_description r)) (\<lambda>d. Inr (r\<lparr>cru_id := i, cru_description := d\<rparr>)))"

definition validate_CompliancePolicy :: "compliance_policy \<Rightarrow> exn + compliance_policy" where
  "validate_CompliancePolicy p =
     (if cp_rules p = [] then Inl ValidationError
      else if \<not> all_unique (map cru_id (cp_rules p)) then Inl ValidationError
      else Inr p)"

section \<open>Lookups\<close>

fun allowed_priorities_in :: "taxonomy_topic list \<Rightarrow> pystr \<Rightarrow> exn + pystr list" where
  "allowed_priorities_in [] topic = Inl PolicyLoadError"
| "allowed_priorities_in (t # ts) topic =
     (if tt_id t = topic then Inr (tt_priorities t) else allowed_priorities_in ts topic)"

definition allowed_priorities :: "taxonomy_policy \<Rightarrow> pystr \<Rightarrow> exn + pystr list" where
  "allowed_priorities p = allowed_priorities_in (tp_topics p)"

fun criterion_in :: "quality_criterion list \<Rightarrow> pystr \<Rightarrow> exn + quality_criterion" where
  "criterion_in [] i = Inl PolicyLoadError"
| "criterion_in (c # cs) i = (if qr_id c = i then Inr c else criterion_in cs i)"

definition criterion :: "quality_policy \<Rightarrow> pystr \<Rightarrow> exn + quality_criterion" where
  "criterion p = criterion_in (qp_criteria p)"

fun rule_in :: "compliance_rule list \<Rightarrow> pystr \<Rightarrow> exn + compliance_rule" where
  "rule_in [] i = Inl PolicyLoadError"
| "rule_in (r # rs) i = (if cru_id r = i then Inr r else rule_in rs i)"

definition policy_rule :: "compliance_policy \<Rightarrow> pystr \<Rightarrow> exn + compliance_rule" where
  "policy_rule p = rule_in (cp_rules p)"

section \<open>Strict decoding\<close>

definition decode_metadata :: "json \<Rightarrow> exn + policy_metadata" where
  "decode_metadata j =
     bindE (object_fields [lit ''policy_id'', lit ''version'', lit ''owner'', lit ''effective_date''] j) (\<lambda>m.
     bindE (field m (lit ''policy_id'') json_str) (\<lambda>i.
     bindE (field m (lit ''version'') json_str) (\<lambda>v.
     bindE (field m (lit ''owner'') json_str) (\<lambda>w.
     bindE (field m (lit ''effective_date'') json_str) (\<lambda>d.
       validate_PolicyMetadata
         \<lparr>pm_policy_id = i, pm_version = v, pm_owner = w, pm_effective_date = d\<rparr>)))))"

definition decode_topic :: "json \<Rightarrow> exn + taxonomy_topic" where
  "decode_topic j =
     bindE (object_fields [lit ''id'', lit ''description'', lit ''allowed_priorities''] j) (\<lambda>m.
     bindE (field m (lit ''id'') json_str) (\<lambda>i.
     bindE (field m (lit ''description'') json_str) (\<lambda>d.
     bindE (field m (lit ''allowed_priorities'') (json_list json_str)) (\<lambda>ps.
       validate_TaxonomyTopic \<lparr>tt_id = i, tt_description = d, tt_priorities = ps\<rparr>))))"

definition decode_taxonomy :: "json \<Rightarrow> exn + taxonomy_policy" where
  "decode_taxonomy j =
     bindE (object_fields [lit ''metadata'', lit ''topics''] j) (\<lambda>m.
     bindE (field m (lit ''metadata'') decode_metadata) (\<lambda>md.
     bindE (field m (lit ''topics'') (json_list decode_topic)) (\<lambda>ts.
       validate_TaxonomyPolicy \<lparr>tp_metadata = md, tp_topics = ts\<rparr>)))"

definition decode_criterion :: "json \<Rightarrow> exn + quality_criterion" where
  "decode_criterion j =
     bindE (object_fields [lit ''id'', lit ''weight'', lit ''description''] j) (\<lambda>m.
     bindE (field m (lit ''id'') json_str) (\<lambda>i.
     bindE (field m (lit ''weight'') json_float) (\<lambda>w.
     bindE (field m (lit ''description'') json_str) (\<lambda>d.
       validate_QualityCriterion \<lparr>qr_id = i, qr_weight = w, qr_description = d\<rparr>))))"

definition decode_quality :: "json \<Rightarrow> exn + quality_policy" where
  "decode_quality j =
     bindE (object_fields [lit ''metadata'', lit ''criteria'', lit ''review_confidence_threshold'',
                           lit ''role_confidence_threshold''] j) (\<lambda>m.
     bindE (field m (lit ''metadata'') decode_metadata) (\<lambda>md.
     bindE (field m (lit ''criteria'') (json_list decode_criterion)) (\<lambda>cs.
     bindE (field m (lit ''review_confidence_threshold'') json_float) (\<lambda>a.
     bindE (field m (lit ''role_confidence_threshold'') json_float) (\<lambda>b.
       validate_QualityPolicy \<lparr>qp_metadata = md, qp_criteria = cs, qp_review_threshold = a,
                               qp_role_threshold = b\<rparr>)))))"

text \<open>\<^verbatim>\<open>parse_severity\<close>\<close>

definition parse_severity :: "json \<Rightarrow> exn + severity" where
  "parse_severity j =
     (if j = JStr (lit ''info'') then Inr INFO
      else if j = JStr (lit ''warning'') then Inr WARNING
      else if j = JStr (lit ''blocking'') then Inr BLOCKING
      else Inl ValidationError)"

definition decode_rule :: "json \<Rightarrow> exn + compliance_rule" where
  "decode_rule j =
     bindE (object_fields [lit ''id'', lit ''severity'', lit ''description''] j) (\<lambda>m.
     bindE (field m (lit ''id'') json_str) (\<lambda>i.
     bindE (field m (lit ''severity'') parse_severity) (\<lambda>s.
     bindE (field m (lit ''description'') json_str) (\<lambda>d.
       validate_ComplianceRule \<lparr>cru_id = i, cru_severity = s, cru_description = d\<rparr>))))"

definition decode_compliance :: "json \<Rightarrow> exn + compliance_policy" where
  "decode_compliance j =
     bindE (object_fields [lit ''metadata'', lit ''rules''] j) (\<lambda>m.
     bindE (field m (lit ''metadata'') decode_metadata) (\<lambda>md.
     bindE (field m (lit ''rules'') (json_list decode_rule)) (\<lambda>rs.
       validate_CompliancePolicy \<lparr>cp_metadata = md, cp_rules = rs\<rparr>)))"

section \<open>Loading a pack\<close>

text \<open>
  A path is the list of its components. \<open>env_resolve\<close> is \<^verbatim>\<open>Path.resolve(strict=True)\<close>, nothing when
  it raises; \<open>env_read\<close> is \<^verbatim>\<open>read_bytes\<close>; \<open>env_json\<close> decodes UTF-8 and JSON.
\<close>

type_synonym path = "pystr list"

record policy_env =
  env_is_symlink :: "path \<Rightarrow> bool"
  env_resolve :: "path \<Rightarrow> path option"
  env_is_dir :: "path \<Rightarrow> bool"
  env_is_file :: "path \<Rightarrow> bool"
  env_read :: "path \<Rightarrow> nat list option"
  env_json :: "nat list \<Rightarrow> json option"
  env_sha256 :: "nat list \<Rightarrow> pystr"

definition component_char :: "nat \<Rightarrow> bool" where
  "component_char c \<longleftrightarrow> (97 \<le> c \<and> c \<le> 122) \<or> (48 \<le> c \<and> c \<le> 57) \<or> c = 95 \<or> c = 45"

definition validate_component :: "pystr \<Rightarrow> exn + unit" where
  "validate_component s =
     requireE PolicyLoadError
       (case s of [] \<Rightarrow> False
        | c # cs \<Rightarrow> 97 \<le> c \<and> c \<le> 122 \<and> length cs \<le> 63 \<and> list_all component_char cs)"

definition resolve_root :: "policy_env \<Rightarrow> path \<Rightarrow> exn + path" where
  "resolve_root env base =
     (if env_is_symlink env base then Inl PolicyLoadError
      else case env_resolve env base of
             None \<Rightarrow> Inl PolicyLoadError
           | Some r \<Rightarrow> if env_is_dir env r then Inr r else Inl PolicyLoadError)"

fun no_symlink_from :: "policy_env \<Rightarrow> path \<Rightarrow> path \<Rightarrow> exn + unit" where
  "no_symlink_from env current [] = Inr ()"
| "no_symlink_from env current (part # parts) =
     (if env_is_symlink env (current @ [part]) then Inl PolicyLoadError
      else no_symlink_from env (current @ [part]) parts)"

fun is_relative_to :: "path \<Rightarrow> path \<Rightarrow> bool" where
  "is_relative_to p [] = True"
| "is_relative_to [] (r # rs) = False"
| "is_relative_to (p # ps) (r # rs) = (p = r \<and> is_relative_to ps rs)"

definition resolve_policy_path :: "policy_env \<Rightarrow> path \<Rightarrow> pystr \<Rightarrow> pystr \<Rightarrow> exn + path" where
  "resolve_policy_path env base name version =
     (let relative = [name, version @ lit ''.yaml''] in
      bindE (no_symlink_from env base relative) (\<lambda>_.
      case env_resolve env (base @ relative) of
        None \<Rightarrow> Inl PolicyLoadError
      | Some p \<Rightarrow> if \<not> env_is_file env p \<or> \<not> is_relative_to p base then Inl PolicyLoadError
          else Inr p))"

datatype policy = Taxonomy taxonomy_policy | Quality quality_policy | Compliance compliance_policy

fun policy_metadata_of :: "policy \<Rightarrow> policy_metadata" where
  "policy_metadata_of (Taxonomy p) = tp_metadata p"
| "policy_metadata_of (Quality p) = qp_metadata p"
| "policy_metadata_of (Compliance p) = cp_metadata p"

record loaded_pack =
  lp_name :: pystr
  lp_version :: pystr
  lp_owner :: pystr
  lp_effective_date :: pystr
  lp_sha256 :: pystr
  lp_policy :: policy

definition policy_names :: "pystr list" where
  "policy_names = [lit ''taxonomy'', lit ''quality'', lit ''compliance'']"

text \<open>\<^verbatim>\<open>_POLICY_MODELS[name].model_validate\<close>\<close>

definition decode_policy :: "pystr \<Rightarrow> json \<Rightarrow> exn + policy" where
  "decode_policy name j =
     (if name = lit ''taxonomy'' then bindE (decode_taxonomy j) (\<lambda>p. Inr (Taxonomy p))
      else if name = lit ''quality'' then bindE (decode_quality j) (\<lambda>p. Inr (Quality p))
      else bindE (decode_compliance j) (\<lambda>p. Inr (Compliance p)))"

text \<open>The tail of \<^verbatim>\<open>load_policy_pack\<close>: decoding the bytes that were read.\<close>

definition decode_pack :: "policy_env \<Rightarrow> pystr \<Rightarrow> pystr \<Rightarrow> nat list \<Rightarrow> exn + loaded_pack" where
  "decode_pack env name version raw =
     (case env_json env raw of
        Some (JObj kvs) \<Rightarrow>
          (case decode_policy name (JObj kvs) of
             Inl _ \<Rightarrow> Inl PolicyLoadError
           | Inr p \<Rightarrow>
               let md = policy_metadata_of p in
               if pm_policy_id md \<noteq> name \<or> pm_version md \<noteq> version then Inl PolicyLoadError
               else Inr \<lparr>lp_name = name, lp_version = pm_version md, lp_owner = pm_owner md,
                         lp_effective_date = pm_effective_date md,
                         lp_sha256 = env_sha256 env raw, lp_policy = p\<rparr>)
      | _ \<Rightarrow> Inl PolicyLoadError)"

definition load_policy_pack ::
  "policy_env \<Rightarrow> path \<Rightarrow> pystr \<Rightarrow> pystr \<Rightarrow> exn + loaded_pack" where
  "load_policy_pack env base name version =
     bindE (validate_component name) (\<lambda>_.
     bindE (validate_component version) (\<lambda>_.
     bindE (requireE PolicyLoadError (name \<in> set policy_names)) (\<lambda>_.
     bindE (resolve_root env base) (\<lambda>policy_root.
     bindE (resolve_policy_path env policy_root name version) (\<lambda>path.
     case env_read env path of
       None \<Rightarrow> Inl PolicyLoadError
     | Some raw \<Rightarrow> decode_pack env name version raw)))))"

section \<open>The registry\<close>

text \<open>Each property loads its pack on first use and keeps it.\<close>

record policy_registry =
  reg_root :: path
  reg_version :: pystr
  reg_taxonomy :: "loaded_pack option"
  reg_quality :: "loaded_pack option"
  reg_compliance :: "loaded_pack option"

definition new_registry :: "path \<Rightarrow> pystr \<Rightarrow> policy_registry" where
  "new_registry base version = \<lparr>reg_root = base, reg_version = version, reg_taxonomy = None,
     reg_quality = None, reg_compliance = None\<rparr>"

definition registry_taxonomy :: "policy_env \<Rightarrow> policy_registry \<Rightarrow> exn + (loaded_pack \<times> policy_registry)" where
  "registry_taxonomy env r =
     (case reg_taxonomy r of
        Some pack \<Rightarrow> Inr (pack, r)
      | None \<Rightarrow> bindE (load_policy_pack env (reg_root r) (lit ''taxonomy'') (reg_version r)) (\<lambda>pack.
          Inr (pack, r\<lparr>reg_taxonomy := Some pack\<rparr>)))"

definition registry_quality :: "policy_env \<Rightarrow> policy_registry \<Rightarrow> exn + (loaded_pack \<times> policy_registry)" where
  "registry_quality env r =
     (case reg_quality r of
        Some pack \<Rightarrow> Inr (pack, r)
      | None \<Rightarrow> bindE (load_policy_pack env (reg_root r) (lit ''quality'') (reg_version r)) (\<lambda>pack.
          Inr (pack, r\<lparr>reg_quality := Some pack\<rparr>)))"

definition registry_compliance :: "policy_env \<Rightarrow> policy_registry \<Rightarrow> exn + (loaded_pack \<times> policy_registry)" where
  "registry_compliance env r =
     (case reg_compliance r of
        Some pack \<Rightarrow> Inr (pack, r)
      | None \<Rightarrow> bindE (load_policy_pack env (reg_root r) (lit ''compliance'') (reg_version r)) (\<lambda>pack.
          Inr (pack, r\<lparr>reg_compliance := Some pack\<rparr>)))"

definition registry_load_all :: "policy_env \<Rightarrow> policy_registry \<Rightarrow> exn + (loaded_pack list \<times> policy_registry)" where
  "registry_load_all env r =
     bindE (registry_taxonomy env r) (\<lambda>(t, r1).
     bindE (registry_quality env r1) (\<lambda>(q, r2).
     bindE (registry_compliance env r2) (\<lambda>(c, r3).
       Inr ([t, q, c], r3))))"

section \<open>Well-formed packs\<close>

definition wf_taxonomy :: "taxonomy_policy \<Rightarrow> bool" where
  "wf_taxonomy p \<longleftrightarrow> distinct (map tt_id (tp_topics p)) \<and> tt_id ` set (tp_topics p) = set topic_ids
     \<and> (\<forall>t \<in> set (tp_topics p). tt_priorities t \<noteq> [] \<and> distinct (tt_priorities t)
          \<and> set (tt_priorities t) \<subseteq> set priority_ids)"

definition wf_quality :: "quality_policy \<Rightarrow> bool" where
  "wf_quality p \<longleftrightarrow> map qr_id (qp_criteria p) = quality_criteria \<and> weight_sum (qp_criteria p) = 1
     \<and> (\<forall>c \<in> set (qp_criteria p). 0 < qr_weight c \<and> qr_weight c \<le> 1)
     \<and> 0 \<le> qp_review_threshold p \<and> qp_review_threshold p \<le> 1
     \<and> 0 \<le> qp_role_threshold p \<and> qp_role_threshold p \<le> 1"

definition wf_compliance :: "compliance_policy \<Rightarrow> bool" where
  "wf_compliance p \<longleftrightarrow> cp_rules p \<noteq> [] \<and> distinct (map cru_id (cp_rules p))"

fun wf_policy :: "policy \<Rightarrow> bool" where
  "wf_policy (Taxonomy p) = wf_taxonomy p"
| "wf_policy (Quality p) = wf_quality p"
| "wf_policy (Compliance p) = wf_compliance p"

lemma mapE_results: "mapE f js = Inr xs \<Longrightarrow> x \<in> set xs \<Longrightarrow> \<exists>j \<in> set js. f j = Inr x"
  by (induction js arbitrary: xs) (auto simp: result_iffs)

lemma json_list_all:
  "json_list f j = Inr xs \<Longrightarrow> (\<And>j x. f j = Inr x \<Longrightarrow> P x) \<Longrightarrow> \<forall>x \<in> set xs. P x"
  by (cases j) (auto dest: mapE_results)

lemma field_Inr_iff: "field m n f = Inr x \<longleftrightarrow> (\<exists>j. m n = Some j \<and> f j = Inr x)"
  by (auto simp: field_def split: option.splits)

lemma decode_topic_facts:
  "decode_topic j = Inr t \<Longrightarrow>
     tt_priorities t \<noteq> [] \<and> distinct (tt_priorities t) \<and> set (tt_priorities t) \<subseteq> set priority_ids"
  by (auto simp: decode_topic_def validate_TaxonomyTopic_def result_iffs)

lemma decode_taxonomy_wf: "decode_taxonomy j = Inr p \<Longrightarrow> wf_taxonomy p"
  unfolding decode_taxonomy_def bindE_Inr_iff field_Inr_iff
  by (auto simp: wf_taxonomy_def validate_TaxonomyPolicy_def Let_def split: if_splits
      dest!: json_list_all [where P = "\<lambda>t. tt_priorities t \<noteq> [] \<and> distinct (tt_priorities t)
         \<and> set (tt_priorities t) \<subseteq> set priority_ids"] dest: decode_topic_facts)

lemma decode_criterion_facts:
  "decode_criterion j = Inr c \<Longrightarrow> 0 < qr_weight c \<and> qr_weight c \<le> 1"
  by (auto simp: decode_criterion_def validate_QualityCriterion_def result_iffs)

lemma decode_quality_wf: "decode_quality j = Inr p \<Longrightarrow> wf_quality p"
  unfolding decode_quality_def bindE_Inr_iff field_Inr_iff
  by (auto simp: wf_quality_def validate_QualityPolicy_def result_iffs
      dest!: json_list_all [where P = "\<lambda>c. 0 < qr_weight c \<and> qr_weight c \<le> 1"]
      dest: decode_criterion_facts)

lemma decode_compliance_wf: "decode_compliance j = Inr p \<Longrightarrow> wf_compliance p"
  unfolding decode_compliance_def bindE_Inr_iff
  by (auto simp: wf_compliance_def validate_CompliancePolicy_def split: if_splits)

lemma decode_policy_wf: "decode_policy name j = Inr p \<Longrightarrow> wf_policy p"
  by (auto simp: decode_policy_def result_iffs split: if_splits
      dest: decode_taxonomy_wf decode_quality_wf decode_compliance_wf)

text \<open>Lookups in a well-formed pack.\<close>

lemma allowed_priorities_in_iff:
  "distinct (map tt_id ts) \<Longrightarrow>
     allowed_priorities_in ts topic = Inr ps \<longleftrightarrow> (\<exists>t \<in> set ts. tt_id t = topic \<and> tt_priorities t = ps)"
  by (induction ts) (auto simp: rev_image_eqI)

lemma allowed_priorities_iff:
  "wf_taxonomy p \<Longrightarrow> allowed_priorities p topic = Inr ps \<longleftrightarrow>
     (\<exists>t \<in> set (tp_topics p). tt_id t = topic \<and> tt_priorities t = ps)"
  by (simp add: allowed_priorities_def allowed_priorities_in_iff wf_taxonomy_def)

lemma allowed_priorities_in_Inl:
  "allowed_priorities_in ts topic = Inl e \<longleftrightarrow> e = PolicyLoadError \<and> topic \<notin> tt_id ` set ts"
  by (induction ts) auto

lemma criterion_in_ok: "i \<in> qr_id ` set cs \<Longrightarrow> \<exists>c. criterion_in cs i = Inr c \<and> qr_id c = i \<and> c \<in> set cs"
  by (induction cs) auto

lemma criterion_ok:
  "wf_quality p \<Longrightarrow> i \<in> set quality_criteria \<Longrightarrow> is_ok (criterion p i)"
  unfolding criterion_def wf_quality_def is_ok_iff by (metis criterion_in_ok list.set_map)

lemma rule_in_iff:
  "distinct (map cru_id rs) \<Longrightarrow> rule_in rs i = Inr r \<longleftrightarrow> r \<in> set rs \<and> cru_id r = i"
  by (induction rs) (auto simp: rev_image_eqI)

lemma rule_in_Inl: "rule_in rs i = Inl e \<longleftrightarrow> e = PolicyLoadError \<and> i \<notin> cru_id ` set rs"
  by (induction rs) auto

section \<open>Loading is contained and checked\<close>

lemma no_symlink_from_iff:
  "no_symlink_from env cur parts = Inr () \<longleftrightarrow>
     (\<forall>n < length parts. \<not> env_is_symlink env (cur @ take (Suc n) parts))"
proof (induction parts arbitrary: cur)
  case Nil
  then show ?case by simp
next
  case (Cons p ps)
  have "(\<forall>n < length (p # ps). \<not> env_is_symlink env (cur @ take (Suc n) (p # ps))) \<longleftrightarrow>
      \<not> env_is_symlink env (cur @ [p])
      \<and> (\<forall>n < length ps. \<not> env_is_symlink env ((cur @ [p]) @ take (Suc n) ps))"
    by (auto simp: less_Suc_eq_0_disj)
  then show ?case by (simp add: Cons.IH)
qed

lemma is_relative_to_iff: "is_relative_to p r \<longleftrightarrow> (\<exists>q. p = r @ q)"
  by (induction p r rule: is_relative_to.induct) auto

lemma resolve_root_Inr:
  "resolve_root env base = Inr r \<longleftrightarrow>
     \<not> env_is_symlink env base \<and> env_resolve env base = Some r \<and> env_is_dir env r"
  by (auto simp: resolve_root_def split: option.splits)

lemma resolve_policy_path_Inr:
  "resolve_policy_path env base name version = Inr p \<longleftrightarrow>
     \<not> env_is_symlink env (base @ [name])
     \<and> \<not> env_is_symlink env (base @ [name, version @ lit ''.yaml''])
     \<and> env_resolve env (base @ [name, version @ lit ''.yaml'']) = Some p
     \<and> env_is_file env p \<and> is_relative_to p base"
  by (auto simp: resolve_policy_path_def Let_def result_iffs split: option.splits)

lemma decode_pack_Inr:
  "decode_pack env name version raw = Inr pack \<Longrightarrow>
     wf_policy (lp_policy pack) \<and> lp_name pack = name \<and> lp_version pack = version
     \<and> lp_sha256 pack = env_sha256 env raw
     \<and> (\<exists>kvs. env_json env raw = Some (JObj kvs) \<and> decode_policy name (JObj kvs) = Inr (lp_policy pack))"
  unfolding decode_pack_def
  by (auto simp: Let_def decode_policy_wf split: option.splits json.splits sum.splits if_splits)

lemma load_policy_pack_Inr:
  "load_policy_pack env base name version = Inr pack \<longleftrightarrow>
     validate_component name = Inr () \<and> validate_component version = Inr ()
     \<and> name \<in> set policy_names
     \<and> (\<exists>r p raw. resolve_root env base = Inr r \<and> resolve_policy_path env r name version = Inr p
          \<and> env_read env p = Some raw \<and> decode_pack env name version raw = Inr pack)"
proof -
  have read: "(case env_read env p of None \<Rightarrow> Inl PolicyLoadError
        | Some raw \<Rightarrow> decode_pack env name version raw) = Inr pack \<longleftrightarrow>
      (\<exists>raw. env_read env p = Some raw \<and> decode_pack env name version raw = Inr pack)" for p
    by (auto split: option.splits)
  show ?thesis unfolding load_policy_pack_def bindE_Inr_iff requireE_Inr_iff read by simp
qed

lemmas load_facts = resolve_root_Inr resolve_policy_path_Inr is_relative_to_iff

section \<open>Properties\<close>

text \<open>
  Property C12. A pack that loads was read from a regular file below the resolved policy root,
  with no symbolic link at the root, the pack directory or the file; its name and version are the
  requested ones, its digest is that of the bytes read, and its content satisfies the semantic
  rules of its kind.
\<close>

theorem load_policy_pack_contained:
  assumes "load_policy_pack env base name version = Inr pack"
  shows "\<exists>r q raw. env_resolve env base = Some r \<and> \<not> env_is_symlink env base
      \<and> \<not> env_is_symlink env (r @ [name])
      \<and> \<not> env_is_symlink env (r @ [name, version @ lit ''.yaml''])
      \<and> env_resolve env (r @ [name, version @ lit ''.yaml'']) = Some (r @ q)
      \<and> env_is_file env (r @ q) \<and> env_read env (r @ q) = Some raw
      \<and> lp_sha256 pack = env_sha256 env raw
      \<and> lp_name pack = name \<and> lp_version pack = version \<and> name \<in> set policy_names
      \<and> wf_policy (lp_policy pack)"
  using assms unfolding load_policy_pack_Inr load_facts by (force dest: decode_pack_Inr)

definition demo_document :: json where
  "demo_document = JObj
     [(lit ''metadata'', JObj [(lit ''policy_id'', JStr (lit ''compliance'')), (lit ''version'', JStr (lit ''v1'')),
        (lit ''owner'', JStr (lit ''MTBank'')), (lit ''effective_date'', JStr (lit ''2026-07-16''))]),
      (lit ''rules'', JList [JObj [(lit ''id'', JStr (lit ''no_unconditional_guarantee'')),
        (lit ''severity'', JStr (lit ''blocking'')), (lit ''description'', JStr (lit ''rule''))]])]"

text \<open>A root with the three files and nothing else; a file's bytes are its kind.\<close>

definition demo_env :: policy_env where
  "demo_env = \<lparr>env_is_symlink = (\<lambda>_. False), env_resolve = Some, env_is_dir = (\<lambda>p. length p = 1),
     env_is_file = (\<lambda>p. length p = 3), env_read = (\<lambda>p. Some (p ! 1)),
     env_json = (\<lambda>raw. if raw = lit ''compliance'' then Some demo_document else None),
     env_sha256 = (\<lambda>raw. replicate 64 48)\<rparr>"

lemma load_policy_pack_contained_witness:
  "\<exists>pack. load_policy_pack demo_env [lit ''policies''] (lit ''compliance'') (lit ''v1'') = Inr pack
     \<and> lp_name pack = lit ''compliance'' \<and> wf_policy (lp_policy pack)"
proof -
  have "is_ok (load_policy_pack demo_env [lit ''policies''] (lit ''compliance'') (lit ''v1''))"
    by code_simp
  then obtain pack where "load_policy_pack demo_env [lit ''policies''] (lit ''compliance'') (lit ''v1'') = Inr pack"
    by (auto simp: is_ok_iff)
  with load_policy_pack_contained [OF this] show ?thesis by blast
qed

lemma registry_step:
  "registry_taxonomy env r = Inr (p, r') \<Longrightarrow> reg_taxonomy r' = Some p"
  "registry_quality env r = Inr (p, r') \<Longrightarrow> reg_quality r' = Some p"
  "registry_compliance env r = Inr (p, r') \<Longrightarrow> reg_compliance r' = Some p"
  "registry_quality env r = Inr (p, r') \<Longrightarrow> reg_taxonomy r' = reg_taxonomy r"
  "registry_compliance env r = Inr (p, r') \<Longrightarrow> reg_taxonomy r' = reg_taxonomy r \<and> reg_quality r' = reg_quality r"
  by (auto simp: registry_taxonomy_def registry_quality_def registry_compliance_def result_iffs
      split: option.splits)

lemma registry_memo:
  "reg_taxonomy r = Some p \<Longrightarrow> registry_taxonomy env r = Inr (p, r)"
  "reg_quality r = Some p \<Longrightarrow> registry_quality env r = Inr (p, r)"
  "reg_compliance r = Some p \<Longrightarrow> registry_compliance env r = Inr (p, r)"
  by (simp_all add: registry_taxonomy_def registry_quality_def registry_compliance_def)

text \<open>
  Property C13. Once all three packs are loaded the registry is frozen: whatever happens to the
  policy files afterwards, every access returns the same packs and leaves the registry as it is.
\<close>

theorem registry_frozen:
  assumes "registry_load_all env r = Inr (packs, r')"
  shows "registry_load_all env' r' = Inr (packs, r')
    \<and> (\<exists>t q c. packs = [t, q, c] \<and> registry_taxonomy env' r' = Inr (t, r')
      \<and> registry_quality env' r' = Inr (q, r') \<and> registry_compliance env' r' = Inr (c, r'))"
proof -
  obtain t r1 q r2 c where s: "registry_taxonomy env r = Inr (t, r1)" "registry_quality env r1 = Inr (q, r2)"
    "registry_compliance env r2 = Inr (c, r')" "packs = [t, q, c]"
    using assms by (auto simp: registry_load_all_def result_iffs)
  then have "reg_taxonomy r' = Some t" "reg_quality r' = Some q" "reg_compliance r' = Some c"
    using registry_step by metis+
  note m = registry_memo(1) [OF this(1)] registry_memo(2) [OF this(2)] registry_memo(3) [OF this(3)]
  then show ?thesis using s(4) by (auto simp: registry_load_all_def)
qed

definition demo_pack :: "string \<Rightarrow> loaded_pack" where
  "demo_pack name = \<lparr>lp_name = lit name, lp_version = lit ''v1'', lp_owner = lit ''MTBank'',
     lp_effective_date = lit ''2026-07-16'', lp_sha256 = replicate 64 48,
     lp_policy = Compliance \<lparr>cp_metadata = \<lparr>pm_policy_id = lit name, pm_version = lit ''v1'',
       pm_owner = lit ''MTBank'', pm_effective_date = lit ''2026-07-16''\<rparr>, cp_rules = []\<rparr>\<rparr>"

lemma registry_frozen_witness:
  "\<exists>packs r'. registry_load_all demo_env
       ((new_registry [lit ''policies''] (lit ''v1''))
          \<lparr>reg_taxonomy := Some (demo_pack ''taxonomy''), reg_quality := Some (demo_pack ''quality'')\<rparr>)
       = Inr (packs, r')
     \<and> registry_load_all (demo_env\<lparr>env_read := \<lambda>_. None\<rparr>) r' = Inr (packs, r')"
proof -
  have "is_ok (registry_load_all demo_env
       ((new_registry [lit ''policies''] (lit ''v1''))
          \<lparr>reg_taxonomy := Some (demo_pack ''taxonomy''), reg_quality := Some (demo_pack ''quality'')\<rparr>))"
    by code_simp
  then show ?thesis using registry_frozen unfolding is_ok_iff by (metis prod.exhaust)
qed

end
