(* ===== verification/Aggregation.thy ===== *)
theory Aggregation
  imports Policies
begin

text \<open>
  The deterministic fan-in of the four agent results (\<^verbatim>\<open>workflow/aggregation.py\<close>): the checks
  against the transcript and the policy packs, the derived values, and the two outputs, built
  through the validators of Results. \<open>policy_packs\<close> is a registry whose three packs are loaded,
  which is how \<^verbatim>\<open>workflow/factory.py\<close> builds it.
\<close>

section \<open>Checks\<close>

record policy_packs =
  pk_taxonomy :: taxonomy_policy
  pk_quality :: quality_policy
  pk_compliance :: compliance_policy

definition require_known_evidence :: "uuid list \<Rightarrow> uuid list \<Rightarrow> exn + unit" where
  "require_known_evidence ids known = requireE AggregationError (subset_of ids known)"

text \<open>\<^verbatim>\<open>except ValueError\<close> of the lookups.\<close>

definition as_aggregation_error :: "exn + 'a \<Rightarrow> exn + 'a" where
  "as_aggregation_error r =
     (case r of Inl e \<Rightarrow> Inl (if is_value_error e then AggregationError else e) | Inr x \<Rightarrow> Inr x)"

definition check_classification :: "classification_result \<Rightarrow> policy_packs \<Rightarrow> uuid list \<Rightarrow> exn + unit" where
  "check_classification c pk known =
     bindE (as_aggregation_error (allowed_priorities (pk_taxonomy pk) (cl_topic c))) (\<lambda>allowed.
     bindE (requireE AggregationError (cl_priority c \<in> set allowed)) (\<lambda>_.
       require_known_evidence (cl_evidence c) known))"

definition assessment_items :: "quality_assessment \<Rightarrow> (pystr \<times> criterion_assessment) list" where
  "assessment_items q =
     [(lit ''greeting'', qa_greeting q), (lit ''need_detection'', qa_need_detection q),
      (lit ''solution_provided'', qa_solution_provided q), (lit ''farewell'', qa_farewell q)]"

definition check_quality :: "quality_assessment \<Rightarrow> policy_packs \<Rightarrow> uuid list \<Rightarrow> exn + unit" where
  "check_quality q pk known =
     bindE (mapE (\<lambda>(identifier, item).
              bindE (criterion (pk_quality pk) identifier) (\<lambda>_.
                require_known_evidence (qc_evidence item) known)) (assessment_items q))
       (\<lambda>_. Inr ())"

text \<open>The loop over the issues; \<open>seen\<close> is the set of rule ids met so far.\<close>

fun check_issues :: "compliance_policy \<Rightarrow> uuid list \<Rightarrow> pystr list \<Rightarrow> compliance_issue list \<Rightarrow> exn + unit" where
  "check_issues p known seen [] = Inr ()"
| "check_issues p known seen (i # is) =
     (if ci_rule_id i \<in> set seen then Inl AggregationError
      else bindE (as_aggregation_error (policy_rule p (ci_rule_id i))) (\<lambda>r.
           if ci_severity i \<noteq> cru_severity r then Inl AggregationError
           else bindE (require_known_evidence (ci_evidence i) known) (\<lambda>_.
                check_issues p known (ci_rule_id i # seen) is)))"

definition check_compliance :: "compliance_assessment \<Rightarrow> policy_packs \<Rightarrow> uuid list \<Rightarrow> exn + unit" where
  "check_compliance c pk known = check_issues (pk_compliance pk) known [] (ca_issues c)"

definition check_summary :: "summary_result \<Rightarrow> uuid list \<Rightarrow> exn + unit" where
  "check_summary s known =
     bindE (require_known_evidence (su_facts s) known) (\<lambda>_.
     bindE (mapE (\<lambda>a. require_known_evidence (ai_evidence a) known) (su_actions s)) (\<lambda>_. Inr ()))"

section \<open>Derived values\<close>

definition quality_item :: "criterion_assessment \<Rightarrow> exn + checklist_item" where
  "quality_item c =
     validate_QualityChecklistItem
       \<lparr>qi_passed = qc_passed c, qi_confidence = qc_confidence c, qi_evidence = qc_evidence c,
        qi_rationale = qc_rationale c\<rparr>"

text \<open>
  \<^verbatim>\<open>_quality_total\<close>: \<^verbatim>\<open>assessments[criterion.id]\<close> raises \<open>KeyError\<close> for a criterion that is not one
  of the four.
\<close>

definition passed_of :: "quality_assessment \<Rightarrow> pystr \<Rightarrow> exn + bool" where
  "passed_of q i =
     (case dict_of (assessment_items q) i of None \<Rightarrow> Inl KeyError | Some a \<Rightarrow> Inr (qc_passed a))"

fun weighted_sum :: "quality_assessment \<Rightarrow> quality_criterion list \<Rightarrow> rat \<Rightarrow> exn + rat" where
  "weighted_sum q [] acc = Inr acc"
| "weighted_sum q (c # cs) acc =
     bindE (passed_of q (qr_id c)) (\<lambda>b.
       weighted_sum q cs (if b then dec_add acc (dec_mul (qr_weight c) 100) else acc))"

definition quality_total :: "quality_assessment \<Rightarrow> policy_packs \<Rightarrow> exn + pyfloat" where
  "quality_total q pk =
     bindE (weighted_sum q (qp_criteria (pk_quality pk)) 0) (\<lambda>score. Inr (quantize_cents score))"

fun add_missing :: "uuid list \<Rightarrow> uuid list \<Rightarrow> uuid list" where
  "add_missing vs [] = vs"
| "add_missing vs (x # xs) = add_missing (if x \<in> set vs then vs else vs @ [x]) xs"

definition unique_quality_evidence :: "quality_assessment \<Rightarrow> uuid list" where
  "unique_quality_evidence q =
     foldl add_missing [] (map qc_evidence
       [qa_greeting q, qa_need_detection q, qa_solution_provided q, qa_farewell q])"

definition needs_review ::
  "transcript_snapshot \<Rightarrow> classification_result \<Rightarrow> quality_assessment \<Rightarrow> policy_packs \<Rightarrow> bool" where
  "needs_review t c q pk \<longleftrightarrow>
     rr_needs_review (sn_roles t)
     \<or> list_ex (\<lambda>s. ts_role_confidence s < qp_role_threshold (pk_quality pk)) (sn_segments t)
     \<or> list_ex (\<lambda>x. x < qp_review_threshold (pk_quality pk))
         [cl_confidence c, qc_confidence (qa_greeting q), qc_confidence (qa_need_detection q),
          qc_confidence (qa_solution_provided q), qc_confidence (qa_farewell q)]"

section \<open>The fan-in\<close>

definition public_segment_of :: "transcript_segment \<Rightarrow> exn + public_segment" where
  "public_segment_of s =
     validate_PublicTranscriptSegment
       \<lparr>ps_id = ts_id s, ps_speaker = ts_speaker s, ps_start = ts_start s, ps_end = ts_end s,
        ps_text = ts_redacted_text s\<rparr>"

definition public_issue_of :: "compliance_issue \<Rightarrow> exn + public_issue" where
  "public_issue_of i =
     validate_PublicComplianceIssue
       \<lparr>pi_rule_id = ci_rule_id i, pi_severity = ci_severity i, pi_evidence = ci_evidence i,
        pi_explanation = ci_explanation i\<rparr>"

definition grounded_action_of :: "action_item \<Rightarrow> exn + grounded_action" where
  "grounded_action_of a =
     validate_GroundedActionItem \<lparr>ga_text = ai_text a, ga_evidence = ai_evidence a\<rparr>"

definition sanitized_issue_of :: "compliance_issue \<Rightarrow> exn + sanitized_issue" where
  "sanitized_issue_of i =
     validate_SanitizedComplianceIssue
       \<lparr>si_rule_id = ci_rule_id i, si_severity = ci_severity i, si_evidence = ci_evidence i\<rparr>"

definition checklist_of :: "quality_assessment \<Rightarrow> quality_checklist" where
  "checklist_of q =
     \<lparr>ck_greeting = qc_passed (qa_greeting q), ck_need_detection = qc_passed (qa_need_detection q),
      ck_solution_provided = qc_passed (qa_solution_provided q),
      ck_farewell = qc_passed (qa_farewell q)\<rparr>"

definition details_of :: "quality_assessment \<Rightarrow> exn + quality_details" where
  "details_of q =
     bindE (quality_item (qa_greeting q)) (\<lambda>g.
     bindE (quality_item (qa_need_detection q)) (\<lambda>n.
     bindE (quality_item (qa_solution_provided q)) (\<lambda>s.
     bindE (quality_item (qa_farewell q)) (\<lambda>f.
       Inr \<lparr>qd_greeting = g, qd_need_detection = n, qd_solution_provided = s, qd_farewell = f\<rparr>))))"

definition no_blocking :: "compliance_assessment \<Rightarrow> bool" where
  "no_blocking c \<longleftrightarrow> \<not> list_ex (\<lambda>i. ci_severity i = BLOCKING) (ca_issues c)"

record aggregated =
  ag_response :: analyze_response
  ag_record :: sanitized_record

definition build_response ::
  "transcript_snapshot \<Rightarrow> classification_result \<Rightarrow> compliance_assessment \<Rightarrow> summary_result
     \<Rightarrow> policy_packs \<Rightarrow> uuid \<Rightarrow> analysis_versions \<Rightarrow> int \<Rightarrow> bool \<Rightarrow> pyfloat \<Rightarrow> quality_checklist
     \<Rightarrow> quality_details \<Rightarrow> public_issue list \<Rightarrow> grounded_action list \<Rightarrow> exn + analyze_response" where
  "build_response t c co su pk run vs ms review score checklist details issues actions =
     bindE (mapE public_segment_of (sn_segments t)) (\<lambda>segments.
     bindE (validate_PublicClassification
       \<lparr>pc_topic = cl_topic c, pc_priority = cl_priority c, pc_confidence = cl_confidence c,
        pc_evidence = cl_evidence c, pc_rationale = cl_rationale c,
        pc_taxonomy_version = lit ''taxonomy/'' @ pm_version (tp_metadata (pk_taxonomy pk))\<rparr>) (\<lambda>pc.
     bindE (validate_QualityScore
       \<lparr>qs_total = score, qs_checklist = checklist, qs_details = details,
        qs_policy_version = lit ''quality/'' @ pm_version (qp_metadata (pk_quality pk))\<rparr>) (\<lambda>qs.
     bindE (validate_ComplianceView
       \<lparr>cv_passed = no_blocking co, cv_issues = issues,
        cv_policy_version = lit ''compliance/'' @ pm_version (cp_metadata (pk_compliance pk))\<rparr>) (\<lambda>cv.
     bindE (validate_Grounding
       \<lparr>gr_summary_evidence = su_facts su, gr_actions = actions\<rparr>) (\<lambda>gr.
     bindE (validate_AnalysisMeta
       \<lparr>me_run_id = run, me_versions = vs, me_processing_ms = ms, me_needs_review = review\<rparr>) (\<lambda>meta.
       validate_AnalyzeResponse
         \<lparr>re_transcript = segments, re_classification = pc, re_quality = qs, re_compliance = cv,
          re_summary = summary_text su, re_action_items = map ai_text (su_actions su),
          re_grounding = gr, re_meta = meta\<rparr>))))))"

definition aggregate_analysis ::
  "transcript_snapshot \<Rightarrow> classification_result \<Rightarrow> quality_assessment \<Rightarrow> compliance_assessment
     \<Rightarrow> summary_result \<Rightarrow> policy_packs \<Rightarrow> uuid \<Rightarrow> analysis_versions \<Rightarrow> int \<Rightarrow> exn + aggregated" where
  "aggregate_analysis t c q co su pk run vs ms =
     (let known = map ts_id (sn_segments t) in
      bindE (requireE AggregationError (0 \<le> ms)) (\<lambda>_.
      bindE (check_classification c pk known) (\<lambda>_.
      bindE (check_quality q pk known) (\<lambda>_.
      bindE (check_compliance co pk known) (\<lambda>_.
      bindE (check_summary su known) (\<lambda>_.
      bindE (details_of q) (\<lambda>details.
      bindE (quality_total q pk) (\<lambda>score.
      bindE (mapE public_issue_of (ca_issues co)) (\<lambda>issues.
      bindE (mapE grounded_action_of (su_actions su)) (\<lambda>actions.
      let review = needs_review t c q pk in
      bindE (build_response t c co su pk run vs ms review score (checklist_of q) details issues actions)
        (\<lambda>response.
      bindE (mapE sanitized_issue_of (ca_issues co)) (\<lambda>stored.
      bindE (validate_SanitizedAnalysisRecord
        \<lparr>sr_run_id = run, sr_topic = cl_topic c, sr_priority = cl_priority c,
         sr_confidence = cl_confidence c, sr_classification_evidence = cl_evidence c,
         sr_quality_total = score, sr_checklist = checklist_of q,
         sr_quality_evidence = unique_quality_evidence q,
         sr_compliance_passed = cv_passed (re_compliance response), sr_compliance_issues = stored,
         sr_action_item_count = int (length (su_actions su)), sr_needs_review = review,
         sr_processing_ms = ms, sr_versions = vs\<rparr>) (\<lambda>record.
      Inr \<lparr>ag_response = response, ag_record = record\<rparr>)))))))))))))"

section \<open>The quality score\<close>

definition passed_criterion :: "quality_assessment \<Rightarrow> quality_criterion \<Rightarrow> bool" where
  "passed_criterion q c \<longleftrightarrow> passed_of q (qr_id c) = Inr True"

lemma assessment_keys: "map fst (assessment_items q) = quality_criteria"
  by (simp add: assessment_items_def quality_criteria_def)

lemma passed_of_known:
  "i \<in> set quality_criteria \<Longrightarrow> \<exists>b. passed_of q i = Inr b"
proof -
  assume "i \<in> set quality_criteria"
  then have "i \<in> set (map fst (assessment_items q))" by (simp only: assessment_keys)
  then have "dict_of (assessment_items q) i \<noteq> None" by (simp only: dict_of_keys list.set_map)
  then show ?thesis by (auto simp: passed_of_def)
qed

lemma weighted_sum_known:
  "(\<forall>c \<in> set cs. qr_id c \<in> set quality_criteria) \<Longrightarrow>
     weighted_sum q cs acc =
       Inr (foldl dec_add acc (map (\<lambda>c. dec_mul (qr_weight c) 100) (filter (passed_criterion q) cs)))"
proof (induction cs arbitrary: acc)
  case (Cons c cs)
  then obtain b where "passed_of q (qr_id c) = Inr b" using passed_of_known [of "qr_id c" q] by auto
  then show ?case using Cons by (cases b) (simp_all add: passed_criterion_def)
qed simp

text \<open>All weights times a hundred add up to a hundred.\<close>

lemma fold_hundred:
  "(\<forall>c \<in> set cs. float_repr (qr_weight c)) \<Longrightarrow>
     foldl dec_add (a * 100) (map (\<lambda>c. dec_mul (qr_weight c) 100) cs)
       = foldl dec_add a (map qr_weight cs) * 100"
proof (induction cs arbitrary: a)
  case (Cons c cs)
  have "dec_mul (qr_weight c) 100 = qr_weight c * 100"
    using Cons.prems by (simp add: dec_mul_def dec_round_hundred float_repr_exact)
  then have "dec_add (a * 100) (dec_mul (qr_weight c) 100) = dec_add a (qr_weight c) * 100"
    using dec_round_hundred [of "a + qr_weight c"] by (simp add: dec_add_def distrib_right)
  then show ?case using Cons by simp
qed simp

definition exact_weights :: "quality_policy \<Rightarrow> bool" where
  "exact_weights p \<longleftrightarrow> list_all (\<lambda>c. float_repr (qr_weight c)) (qp_criteria p)"

lemma full_score:
  assumes "wf_quality p" "exact_weights p"
  shows "foldl dec_add 0 (map (\<lambda>c. dec_mul (qr_weight c) 100) (qp_criteria p)) = 100"
  using fold_hundred [of "qp_criteria p" 0] assms
  by (simp add: exact_weights_def list_all_iff wf_quality_def weight_sum_def)

lemma dec_mul_nonneg: "0 \<le> x \<Longrightarrow> 0 \<le> y \<Longrightarrow> 0 \<le> dec_mul x y"
  by (simp add: dec_mul_def dec.rnd_nonneg)

definition raw_score :: "quality_assessment \<Rightarrow> quality_policy \<Rightarrow> rat" where
  "raw_score q p =
     foldl dec_add 0 (map (\<lambda>c. dec_mul (qr_weight c) 100) (filter (passed_criterion q) (qp_criteria p)))"

lemma quality_total_raw:
  assumes "wf_quality (pk_quality pk)"
  shows "quality_total q pk = Inr (quantize_cents (raw_score q (pk_quality pk)))"
proof -
  have "\<forall>c \<in> set (qp_criteria (pk_quality pk)). qr_id c \<in> set quality_criteria"
    using assms unfolding wf_quality_def by (metis image_eqI list.set_map)
  then show ?thesis by (simp add: quality_total_def weighted_sum_known raw_score_def)
qed

lemma raw_score_bounds:
  assumes "wf_quality p" "exact_weights p"
  shows "0 \<le> raw_score q p" "raw_score q p \<le> 100"
proof -
  have nn: "\<forall>c \<in> set (qp_criteria p). 0 \<le> dec_mul (qr_weight c) 100"
    using assms(1) by (auto simp: wf_quality_def less_imp_le intro!: dec_mul_nonneg)
  then show "0 \<le> raw_score q p" unfolding raw_score_def by (intro dec.fold_add_nonneg) auto
  show "raw_score q p \<le> 100"
    using dec.fold_add_filter_le [of 0 0 "qp_criteria p" "\<lambda>c. dec_mul (qr_weight c) 100" "passed_criterion q"] nn
    by (simp add: raw_score_def full_score [OF assms] dec.rnd_zero)
qed

section \<open>When the checks pass\<close>

lemma require_known_iff [field_iffs]: "require_known_evidence xs known = Inr u \<longleftrightarrow> set xs \<subseteq> set known"
  by (simp add: require_known_evidence_def result_iffs)

lemma as_aggregation_error_Inr [simp]: "as_aggregation_error r = Inr x \<longleftrightarrow> r = Inr x"
  by (auto simp: as_aggregation_error_def split: sum.splits)

lemma check_classification_iff:
  "wf_taxonomy (pk_taxonomy pk) \<Longrightarrow> check_classification c pk known = Inr () \<longleftrightarrow>
     (\<exists>t \<in> set (tp_topics (pk_taxonomy pk)). tt_id t = cl_topic c \<and> cl_priority c \<in> set (tt_priorities t))
     \<and> set (cl_evidence c) \<subseteq> set known"
  by (auto simp: check_classification_def result_iffs field_iffs allowed_priorities_iff)

lemma check_quality_iff:
  assumes "wf_quality (pk_quality pk)"
  shows "check_quality q pk known = Inr () \<longleftrightarrow>
     (\<forall>a \<in> snd ` set (assessment_items q). set (qc_evidence a) \<subseteq> set known)"
proof -
  have "is_ok (criterion (pk_quality pk) (fst a))" if "a \<in> set (assessment_items q)" for a
    using that assessment_keys [of q] by (intro criterion_ok [OF assms]) (metis image_eqI list.set_map)
  then have "(\<forall>a \<in> set (assessment_items q). (case a of (identifier, item) \<Rightarrow>
        bindE (criterion (pk_quality pk) identifier) (\<lambda>_. require_known_evidence (qc_evidence item) known)) = Inr ())
      \<longleftrightarrow> (\<forall>a \<in> set (assessment_items q). set (qc_evidence (snd a)) \<subseteq> set known)"
    by (intro ball_cong refl) (auto simp: result_iffs field_iffs is_ok_iff)
  then show ?thesis by (simp add: check_quality_def result_iffs mapE_unit_iff)
qed

lemma check_issues_iff:
  "wf_compliance p \<Longrightarrow> check_issues p known seen is = Inr () \<longleftrightarrow>
     distinct (map ci_rule_id is) \<and> set (map ci_rule_id is) \<inter> set seen = {}
     \<and> (\<forall>i \<in> set is. (\<exists>r \<in> set (cp_rules p). cru_id r = ci_rule_id i \<and> cru_severity r = ci_severity i)
          \<and> set (ci_evidence i) \<subseteq> set known)"
proof (induction "is" arbitrary: seen)
  case (Cons i "is")
  have step: "check_issues p known seen (i # is) = Inr () \<longleftrightarrow>
      ci_rule_id i \<notin> set seen
      \<and> (\<exists>r \<in> set (cp_rules p). cru_id r = ci_rule_id i \<and> cru_severity r = ci_severity i)
      \<and> set (ci_evidence i) \<subseteq> set known \<and> check_issues p known (ci_rule_id i # seen) is = Inr ()"
  proof (cases "policy_rule p (ci_rule_id i)")
    case (Inl e)
    then have "ci_rule_id i \<notin> cru_id ` set (cp_rules p)" by (simp add: policy_rule_def rule_in_Inl)
    with Inl show ?thesis by (force simp: as_aggregation_error_def)
  next
    case (Inr r)
    have d: "distinct (map cru_id (cp_rules p))" using Cons.prems by (simp add: wf_compliance_def)
    have "r' \<in> set (cp_rules p) \<and> cru_id r' = ci_rule_id i \<longleftrightarrow> r' = r" for r'
      using Inr rule_in_iff [OF d, of "ci_rule_id i" r'] by (auto simp: policy_rule_def)
    then have "(\<exists>r' \<in> set (cp_rules p). cru_id r' = ci_rule_id i \<and> P r') \<longleftrightarrow> P r" for P
      unfolding Bex_def conj_assoc [symmetric] by simp
    with Inr show ?thesis by (auto simp: result_iffs field_iffs as_aggregation_error_def)
  qed
  show ?case unfolding step Cons.IH [OF Cons.prems] by auto
qed simp

lemma check_summary_iff:
  "check_summary s known = Inr () \<longleftrightarrow>
     set (su_facts s) \<subseteq> set known \<and> (\<forall>a \<in> set (su_actions s). set (ai_evidence a) \<subseteq> set known)"
  by (simp add: check_summary_def result_iffs field_iffs mapE_unit_iff)

section \<open>Building the outputs from valid inputs\<close>

lemma quality_item_ok:
  "is_valid validate_QualityCriterionAssessment c \<Longrightarrow>
     quality_item c = Inr \<lparr>qi_passed = qc_passed c, qi_confidence = qc_confidence c,
       qi_evidence = qc_evidence c, qi_rationale = qc_rationale c\<rparr>"
  by (cases c) (auto simp: is_valid_iff quality_item_def validate_QualityCriterionAssessment_def
        validate_QualityChecklistItem_def result_iffs field_iffs)

lemma public_segment_ok:
  "is_valid validate_TranscriptSegment s \<Longrightarrow>
     public_segment_of s = Inr \<lparr>ps_id = ts_id s, ps_speaker = ts_speaker s, ps_start = ts_start s,
       ps_end = ts_end s, ps_text = ts_redacted_text s\<rparr>"
  by (cases s) (auto simp: is_valid_iff public_segment_of_def validate_TranscriptSegment_def
        validate_PublicTranscriptSegment_def result_iffs field_iffs)

lemma public_issue_ok:
  "is_valid validate_ComplianceIssue i \<Longrightarrow>
     public_issue_of i = Inr \<lparr>pi_rule_id = ci_rule_id i, pi_severity = ci_severity i,
       pi_evidence = ci_evidence i, pi_explanation = ci_explanation i\<rparr>"
  by (cases i) (auto simp: is_valid_iff public_issue_of_def validate_ComplianceIssue_def
        validate_PublicComplianceIssue_def result_iffs field_iffs)

lemma sanitized_issue_ok:
  "is_valid validate_ComplianceIssue i \<Longrightarrow>
     sanitized_issue_of i = Inr \<lparr>si_rule_id = ci_rule_id i, si_severity = ci_severity i,
       si_evidence = ci_evidence i\<rparr>"
  by (cases i) (auto simp: is_valid_iff sanitized_issue_of_def validate_ComplianceIssue_def
        validate_SanitizedComplianceIssue_def result_iffs field_iffs)

lemma grounded_action_ok:
  "is_valid validate_ActionItem a \<Longrightarrow>
     grounded_action_of a = Inr \<lparr>ga_text = ai_text a, ga_evidence = ai_evidence a\<rparr>"
  by (cases a) (auto simp: is_valid_iff grounded_action_of_def validate_ActionItem_def
        validate_GroundedActionItem_def result_iffs field_iffs)

lemma distinct_add_missing: "distinct vs \<Longrightarrow> distinct (add_missing vs xs)"
  by (induction vs xs rule: add_missing.induct) auto

lemma set_add_missing: "set (add_missing vs xs) = set vs \<union> set xs"
  by (induction vs xs rule: add_missing.induct) auto

lemma unique_quality_evidence:
  "distinct (unique_quality_evidence q)"
  "set (unique_quality_evidence q) = (\<Union>a \<in> snd ` set (assessment_items q). set (qc_evidence a))"
  by (auto simp: unique_quality_evidence_def assessment_items_def distinct_add_missing set_add_missing)

lemma component_prefix_id:
  assumes "validate_component v = Inr ()" "list_all (\<lambda>c. \<not> is_white c) p" "length p \<le> 64"
  shows "non_empty_id (p @ v) = Inr (p @ v)"
proof -
  have "v \<noteq> []" "length v \<le> 64" "list_all (\<lambda>c. \<not> is_white c) v"
    using assms(1)
    by (auto simp: validate_component_def result_iffs list_all_iff component_char_def is_white_def
        split: list.splits)
  then show ?thesis
    using assms(2,3) strip_by_none [of is_white "p @ v"] by (simp add: field_iffs)
qed

section \<open>What the fan-in promises\<close>

definition valid_inputs ::
  "transcript_snapshot \<Rightarrow> classification_result \<Rightarrow> quality_assessment \<Rightarrow> compliance_assessment
     \<Rightarrow> summary_result \<Rightarrow> bool" where
  "valid_inputs t c q co su \<longleftrightarrow>
     distinct (map ts_id (sn_segments t))
     \<and> list_all (is_valid validate_TranscriptSegment) (sn_segments t)
     \<and> is_valid validate_ClassificationResult c
     \<and> list_all (\<lambda>(_, a). is_valid validate_QualityCriterionAssessment a) (assessment_items q)
     \<and> list_all (is_valid validate_ComplianceIssue) (ca_issues co)
     \<and> is_valid validate_SummaryResult su
     \<and> list_all (is_valid validate_ActionItem) (su_actions su)"

definition valid_packs :: "policy_packs \<Rightarrow> bool" where
  "valid_packs pk \<longleftrightarrow> wf_taxonomy (pk_taxonomy pk) \<and> wf_quality (pk_quality pk)
     \<and> exact_weights (pk_quality pk) \<and> wf_compliance (pk_compliance pk)
     \<and> is_ok (validate_component (pm_version (tp_metadata (pk_taxonomy pk))))
     \<and> is_ok (validate_component (pm_version (qp_metadata (pk_quality pk))))
     \<and> is_ok (validate_component (pm_version (cp_metadata (pk_compliance pk))))"

text \<open>Every segment the results cite is a segment of the transcript.\<close>

definition cited_segments ::
  "classification_result \<Rightarrow> quality_assessment \<Rightarrow> compliance_assessment \<Rightarrow> summary_result \<Rightarrow> uuid list" where
  "cited_segments c q co su =
     cl_evidence c @ concat (map (\<lambda>a. qc_evidence (snd a)) (assessment_items q))
     @ concat (map ci_evidence (ca_issues co)) @ su_facts su @ concat (map ai_evidence (su_actions su))"

definition policy_conformant :: "classification_result \<Rightarrow> compliance_assessment \<Rightarrow> policy_packs \<Rightarrow> bool" where
  "policy_conformant c co pk \<longleftrightarrow>
     list_ex (\<lambda>t. tt_id t = cl_topic c \<and> cl_priority c \<in> set (tt_priorities t)) (tp_topics (pk_taxonomy pk))
     \<and> distinct (map ci_rule_id (ca_issues co))
     \<and> list_all (\<lambda>i. list_ex (\<lambda>r. cru_id r = ci_rule_id i \<and> cru_severity r = ci_severity i)
          (cp_rules (pk_compliance pk))) (ca_issues co)"

definition taxonomy_version_of :: "policy_packs \<Rightarrow> pystr" where
  "taxonomy_version_of pk = lit ''taxonomy/'' @ pm_version (tp_metadata (pk_taxonomy pk))"

definition quality_version_of :: "policy_packs \<Rightarrow> pystr" where
  "quality_version_of pk = lit ''quality/'' @ pm_version (qp_metadata (pk_quality pk))"

definition compliance_version_of :: "policy_packs \<Rightarrow> pystr" where
  "compliance_version_of pk = lit ''compliance/'' @ pm_version (cp_metadata (pk_compliance pk))"

definition versions_match :: "analysis_versions \<Rightarrow> policy_packs \<Rightarrow> bool" where
  "versions_match vs pk \<longleftrightarrow> av_taxonomy vs = taxonomy_version_of pk
     \<and> av_quality vs = quality_version_of pk \<and> av_compliance vs = compliance_version_of pk"

definition item_view :: "criterion_assessment \<Rightarrow> checklist_item" where
  "item_view a = \<lparr>qi_passed = qc_passed a, qi_confidence = qc_confidence a, qi_evidence = qc_evidence a,
     qi_rationale = qc_rationale a\<rparr>"

definition score_of :: "quality_assessment \<Rightarrow> policy_packs \<Rightarrow> pyfloat" where
  "score_of q pk = quantize_cents (raw_score q (pk_quality pk))"

definition response_of ::
  "transcript_snapshot \<Rightarrow> classification_result \<Rightarrow> quality_assessment \<Rightarrow> compliance_assessment
     \<Rightarrow> summary_result \<Rightarrow> policy_packs \<Rightarrow> uuid \<Rightarrow> analysis_versions \<Rightarrow> int \<Rightarrow> analyze_response" where
  "response_of t c q co su pk run vs ms =
     \<lparr>re_transcript = map (\<lambda>s. \<lparr>ps_id = ts_id s, ps_speaker = ts_speaker s, ps_start = ts_start s,
        ps_end = ts_end s, ps_text = ts_redacted_text s\<rparr>) (sn_segments t),
      re_classification = \<lparr>pc_topic = cl_topic c, pc_priority = cl_priority c,
        pc_confidence = cl_confidence c, pc_evidence = cl_evidence c, pc_rationale = cl_rationale c,
        pc_taxonomy_version = taxonomy_version_of pk\<rparr>,
      re_quality = \<lparr>qs_total = score_of q pk, qs_checklist = checklist_of q,
        qs_details = \<lparr>qd_greeting = item_view (qa_greeting q),
          qd_need_detection = item_view (qa_need_detection q),
          qd_solution_provided = item_view (qa_solution_provided q),
          qd_farewell = item_view (qa_farewell q)\<rparr>,
        qs_policy_version = quality_version_of pk\<rparr>,
      re_compliance = \<lparr>cv_passed = no_blocking co,
        cv_issues = map (\<lambda>i. \<lparr>pi_rule_id = ci_rule_id i, pi_severity = ci_severity i,
          pi_evidence = ci_evidence i, pi_explanation = ci_explanation i\<rparr>) (ca_issues co),
        cv_policy_version = compliance_version_of pk\<rparr>,
      re_summary = summary_text su, re_action_items = map ai_text (su_actions su),
      re_grounding = \<lparr>gr_summary_evidence = su_facts su,
        gr_actions = map (\<lambda>a. \<lparr>ga_text = ai_text a, ga_evidence = ai_evidence a\<rparr>) (su_actions su)\<rparr>,
      re_meta = \<lparr>me_run_id = run, me_versions = vs, me_processing_ms = ms,
        me_needs_review = needs_review t c q pk\<rparr>\<rparr>"

definition record_of ::
  "transcript_snapshot \<Rightarrow> classification_result \<Rightarrow> quality_assessment \<Rightarrow> compliance_assessment
     \<Rightarrow> summary_result \<Rightarrow> policy_packs \<Rightarrow> uuid \<Rightarrow> analysis_versions \<Rightarrow> int \<Rightarrow> sanitized_record" where
  "record_of t c q co su pk run vs ms =
     \<lparr>sr_run_id = run, sr_topic = cl_topic c, sr_priority = cl_priority c,
      sr_confidence = cl_confidence c, sr_classification_evidence = cl_evidence c,
      sr_quality_total = score_of q pk, sr_checklist = checklist_of q,
      sr_quality_evidence = unique_quality_evidence q, sr_compliance_passed = no_blocking co,
      sr_compliance_issues = map (\<lambda>i. \<lparr>si_rule_id = ci_rule_id i, si_severity = ci_severity i,
        si_evidence = ci_evidence i\<rparr>) (ca_issues co),
      sr_action_item_count = int (length (su_actions su)), sr_needs_review = needs_review t c q pk,
      sr_processing_ms = ms, sr_versions = vs\<rparr>"

lemma summary_text_stripped:
  assumes "is_valid validate_SummaryResult su"
  shows "strip (summary_text su) = summary_text su" "summary_text su \<noteq> []"
proof -
  have v: "mapE long_text (su_sentences su) = Inr (su_sentences su)" "su_sentences su \<noteq> []"
    using assms by (cases su; auto simp: is_valid_iff validate_SummaryResult_def result_iffs field_iffs)+
  then have "\<forall>x \<in> set (su_sentences su). strip x = x \<and> x \<noteq> []"
    unfolding mapE_long_text_iff by (metis map_idI map_eq_conv list.map_ident strip_by_idem)
  then have "\<forall>x \<in> set (su_sentences su). x \<noteq> [] \<and> \<not> is_white (hd x) \<and> \<not> is_white (last x)"
    by (metis strip_by_ends)
  from join_with_ends [OF v(2) this, of "[32]"] show "strip (summary_text su) = summary_text su" "summary_text su \<noteq> []"
    by (simp_all add: summary_text_def strip_by_keeps)
qed

lemma details_of_ok:
  "list_all (\<lambda>(_, a). is_valid validate_QualityCriterionAssessment a) (assessment_items q) \<Longrightarrow>
     details_of q = Inr \<lparr>qd_greeting = item_view (qa_greeting q),
       qd_need_detection = item_view (qa_need_detection q),
       qd_solution_provided = item_view (qa_solution_provided q), qd_farewell = item_view (qa_farewell q)\<rparr>"
  by (simp add: details_of_def assessment_items_def quality_item_ok item_view_def)

lemmas output_items =
  details_of_ok mapE_pure [OF public_segment_ok] mapE_pure [OF public_issue_ok]
  mapE_pure [OF sanitized_issue_ok] mapE_pure [OF grounded_action_ok]

lemma version_ids:
  assumes "valid_packs pk"
  shows "non_empty_id (taxonomy_version_of pk) = Inr (taxonomy_version_of pk)"
    "non_empty_id (quality_version_of pk) = Inr (quality_version_of pk)"
    "non_empty_id (compliance_version_of pk) = Inr (compliance_version_of pk)"
proof -
  have p: "list_all (\<lambda>c. \<not> is_white c) (lit ''taxonomy/'')" "list_all (\<lambda>c. \<not> is_white c) (lit ''quality/'')"
    "list_all (\<lambda>c. \<not> is_white c) (lit ''compliance/'')"
    by (simp_all add: lit_def is_white_def)
  have v: "validate_component (pm_version (tp_metadata (pk_taxonomy pk))) = Inr ()"
    "validate_component (pm_version (qp_metadata (pk_quality pk))) = Inr ()"
    "validate_component (pm_version (cp_metadata (pk_compliance pk))) = Inr ()"
    using assms by (simp_all add: valid_packs_def is_ok_iff)
  show "non_empty_id (taxonomy_version_of pk) = Inr (taxonomy_version_of pk)"
    "non_empty_id (quality_version_of pk) = Inr (quality_version_of pk)"
    "non_empty_id (compliance_version_of pk) = Inr (compliance_version_of pk)"
    unfolding taxonomy_version_of_def quality_version_of_def compliance_version_of_def
    by (rule component_prefix_id; simp add: v p)+
qed

lemma classification_view_ok:
  assumes "is_valid validate_ClassificationResult c" "non_empty_id v = Inr v"
  shows "validate_PublicClassification
     \<lparr>pc_topic = cl_topic c, pc_priority = cl_priority c, pc_confidence = cl_confidence c,
      pc_evidence = cl_evidence c, pc_rationale = cl_rationale c, pc_taxonomy_version = v\<rparr>
     = Inr \<lparr>pc_topic = cl_topic c, pc_priority = cl_priority c, pc_confidence = cl_confidence c,
      pc_evidence = cl_evidence c, pc_rationale = cl_rationale c, pc_taxonomy_version = v\<rparr>"
  using assms
  by (cases c) (auto simp: is_valid_iff validate_ClassificationResult_def
      validate_PublicClassification_def result_iffs field_iffs)

lemma score_view_ok:
  assumes "0 \<le> x" "x \<le> 100" "non_empty_id v = Inr v"
  shows "validate_QualityScore
     \<lparr>qs_total = x, qs_checklist = checklist_of q,
      qs_details = \<lparr>qd_greeting = item_view (qa_greeting q),
        qd_need_detection = item_view (qa_need_detection q),
        qd_solution_provided = item_view (qa_solution_provided q),
        qd_farewell = item_view (qa_farewell q)\<rparr>,
      qs_policy_version = v\<rparr>
     = Inr \<lparr>qs_total = x, qs_checklist = checklist_of q,
      qs_details = \<lparr>qd_greeting = item_view (qa_greeting q),
        qd_need_detection = item_view (qa_need_detection q),
        qd_solution_provided = item_view (qa_solution_provided q),
        qd_farewell = item_view (qa_farewell q)\<rparr>,
      qs_policy_version = v\<rparr>"
  using assms
  by (simp add: validate_QualityScore_def requireE_def checklist_values_def checklist_of_def
      details_items_def item_view_def)

lemma grounding_ok:
  "is_valid validate_SummaryResult su \<Longrightarrow>
     validate_Grounding \<lparr>gr_summary_evidence = su_facts su, gr_actions = as\<rparr>
     = Inr \<lparr>gr_summary_evidence = su_facts su, gr_actions = as\<rparr>"
  by (cases su) (auto simp: is_valid_iff validate_SummaryResult_def validate_Grounding_def
      result_iffs field_iffs)

lemma action_texts_ok:
  "list_all (is_valid validate_ActionItem) as \<Longrightarrow> mapE long_text (map ai_text as) = Inr (map ai_text as)"
proof (induction as)
  case (Cons a as)
  then have "is_valid validate_ActionItem a" by simp
  then have "long_text (ai_text a) = Inr (ai_text a)"
    by (cases a) (auto simp: is_valid_iff validate_ActionItem_def bindE_Inr_iff)
  then show ?case using Cons by simp
qed simp

lemma score_of_bounds:
  "valid_packs pk \<Longrightarrow> 0 \<le> score_of q pk" "valid_packs pk \<Longrightarrow> score_of q pk \<le> 100"
proof -
  assume v: "valid_packs pk"
  then have r: "0 \<le> raw_score q (pk_quality pk)" "raw_score q (pk_quality pk) \<le> 100"
    by (auto simp: valid_packs_def raw_score_bounds)
  show "0 \<le> score_of q pk" using quantize_mono [OF r(1)] by (simp add: score_of_def)
  show "score_of q pk \<le> 100" using quantize_mono [OF r(2)] by (simp add: score_of_def)
qed

text \<open>The last step: the response's own validator.\<close>

lemma response_contract:
  assumes "distinct (map ts_id (sn_segments t))" "set (cited_segments c q co su) \<subseteq> ts_id ` set (sn_segments t)"
  shows "validate_public_contract (response_of t c q co su pk run vs ms) = Inr () \<longleftrightarrow> versions_match vs pk"
proof -
  have "set (response_evidence (response_of t c q co su pk run vs ms)) = set (cited_segments c q co su)"
    by (simp add: response_evidence_def response_of_def cited_segments_def details_items_def
        assessment_items_def item_view_def Un_assoc)
  moreover have "map ps_id (re_transcript (response_of t c q co su pk run vs ms)) = map ts_id (sn_segments t)"
    "ps_id ` set (re_transcript (response_of t c q co su pk run vs ms)) = ts_id ` set (sn_segments t)"
    "map ga_text (gr_actions (re_grounding (response_of t c q co su pk run vs ms)))
       = re_action_items (response_of t c q co su pk run vs ms)"
    by (simp_all add: response_of_def image_image comp_def)
  ultimately have "validate_public_contract (response_of t c q co su pk run vs ms) = Inr () \<longleftrightarrow>
      pc_taxonomy_version (re_classification (response_of t c q co su pk run vs ms)) = av_taxonomy (me_versions (re_meta (response_of t c q co su pk run vs ms)))
      \<and> qs_policy_version (re_quality (response_of t c q co su pk run vs ms)) = av_quality (me_versions (re_meta (response_of t c q co su pk run vs ms)))
      \<and> cv_policy_version (re_compliance (response_of t c q co su pk run vs ms)) = av_compliance (me_versions (re_meta (response_of t c q co su pk run vs ms)))"
    unfolding public_contract_iff using assms by (simp only: simp_thms)
  then show ?thesis by (auto simp: response_of_def versions_match_def)
qed

lemma public_contract_Inl: "validate_public_contract r = Inl e \<Longrightarrow> e = ValidationError"
  by (auto simp: validate_public_contract_def Let_def split: if_splits)

lemma build_response_eq:
  assumes "valid_inputs t c q co su" "valid_packs pk" "0 \<le> ms"
    and "set (cited_segments c q co su) \<subseteq> ts_id ` set (sn_segments t)"
  shows "build_response t c co su pk run vs ms (needs_review t c q pk) (score_of q pk) (checklist_of q)
      \<lparr>qd_greeting = item_view (qa_greeting q), qd_need_detection = item_view (qa_need_detection q),
       qd_solution_provided = item_view (qa_solution_provided q), qd_farewell = item_view (qa_farewell q)\<rparr>
      (map (\<lambda>i. \<lparr>pi_rule_id = ci_rule_id i, pi_severity = ci_severity i, pi_evidence = ci_evidence i,
         pi_explanation = ci_explanation i\<rparr>) (ca_issues co))
      (map (\<lambda>a. \<lparr>ga_text = ai_text a, ga_evidence = ai_evidence a\<rparr>) (su_actions su))
    = (if versions_match vs pk \<and> length (summary_text su) \<le> 20000
       then Inr (response_of t c q co su pk run vs ms) else Inl ValidationError)"
proof -
  note I = assms(1) [unfolded valid_inputs_def]
  have segs: "mapE public_segment_of (sn_segments t) = Inr (re_transcript (response_of t c q co su pk run vs ms))"
    using I by (auto simp: response_of_def list_all_iff intro!: mapE_pure public_segment_ok)
  have meta: "validate_AnalysisMeta m = Inr m" if "me_processing_ms m = ms" for m
    using that assms(3) by (simp add: validate_AnalysisMeta_def non_negative_def)
  have view: "validate_ComplianceView \<lparr>cv_passed = b, cv_issues = is, cv_policy_version = compliance_version_of pk\<rparr>
      = Inr \<lparr>cv_passed = b, cv_issues = is, cv_policy_version = compliance_version_of pk\<rparr>" for b "is"
    using version_ids(3) [OF assms(2)] by (simp add: validate_ComplianceView_def)
  have final: "validate_AnalyzeResponse (response_of t c q co su pk run vs ms)
      = (if versions_match vs pk \<and> length (summary_text su) \<le> 20000
         then Inr (response_of t c q co su pk run vs ms) else Inl ValidationError)"
  proof -
    have a: "mapE long_text (re_action_items (response_of t c q co su pk run vs ms))
        = Inr (re_action_items (response_of t c q co su pk run vs ms))"
      using I action_texts_ok by (simp add: response_of_def)
    have s: "long_text (re_summary (response_of t c q co su pk run vs ms))
        = (if length (summary_text su) \<le> 20000 then Inr (summary_text su) else Inl ValidationError)"
      using summary_text_stripped [of su] I
      by (auto simp: response_of_def long_text_def constrained_str_def Let_def Suc_le_eq)
    have id: "response_of t c q co su pk run vs ms
        \<lparr>re_summary := summary_text su\<rparr> = response_of t c q co su pk run vs ms"
      by (simp add: response_of_def)
    have "validate_public_contract (response_of t c q co su pk run vs ms)
        = (if versions_match vs pk then Inr () else Inl ValidationError)"
      using response_contract [OF _ assms(4), of pk run vs ms] I public_contract_Inl
      by (cases "validate_public_contract (response_of t c q co su pk run vs ms)") auto
    then show ?thesis by (simp add: validate_AnalyzeResponse_def a s id Let_def)
  qed
  show ?thesis
    using classification_view_ok [OF _ version_ids(1) [OF assms(2)], of c] I
      score_view_ok [OF score_of_bounds [OF assms(2), of q] version_ids(2) [OF assms(2)], of q]
      grounding_ok [of su]
    unfolding build_response_def segs
    by (simp add: meta view final [unfolded response_of_def] response_of_def taxonomy_version_of_def [symmetric]
        quality_version_of_def [symmetric] compliance_version_of_def [symmetric])
qed

lemma as_aggregation_error_PolicyLoad [simp]: "as_aggregation_error (Inl PolicyLoadError) = Inl AggregationError"
  by (simp add: as_aggregation_error_def)

lemma check_classification_Inl:
  "check_classification c pk known = Inl e \<Longrightarrow> e = AggregationError"
  by (auto simp: check_classification_def result_iffs require_known_evidence_def allowed_priorities_def
      allowed_priorities_in_Inl as_aggregation_error_def split: sum.splits if_splits)

lemma check_quality_Inl:
  "wf_quality (pk_quality pk) \<Longrightarrow> check_quality q pk known = Inl e \<Longrightarrow> e = AggregationError"
  using criterion_ok [of "pk_quality pk"] assessment_keys [of q]
  by (auto simp: check_quality_def result_iffs require_known_evidence_def is_ok_iff
      dest!: mapE_Inl_D) (metis Inl_Inr_False image_eqI fst_conv list.set_map)

lemma check_issues_Inl: "check_issues p known seen is = Inl e \<Longrightarrow> e = AggregationError"
  by (induction p known seen "is" rule: check_issues.induct)
    (auto simp: result_iffs require_known_evidence_def policy_rule_def rule_in_Inl
      as_aggregation_error_def split: if_splits sum.splits)

lemma check_summary_Inl: "check_summary s known = Inl e \<Longrightarrow> e = AggregationError"
  by (auto simp: check_summary_def result_iffs require_known_evidence_def dest!: mapE_Inl_D)

text \<open>The five checks in sequence.\<close>

lemma checks_eq:
  assumes "valid_packs pk"
  shows "bindE (requireE AggregationError (0 \<le> ms)) (\<lambda>_.
      bindE (check_classification c pk known) (\<lambda>_.
      bindE (check_quality q pk known) (\<lambda>_.
      bindE (check_compliance co pk known) (\<lambda>_.
      bindE (check_summary su known) (\<lambda>_. k)))))
    = (if 0 \<le> ms \<and> policy_conformant c co pk \<and> set (cited_segments c q co su) \<subseteq> set known
       then k else Inl AggregationError)"
proof -
  have wf: "wf_taxonomy (pk_taxonomy pk)" "wf_quality (pk_quality pk)" "wf_compliance (pk_compliance pk)"
    using assms by (simp_all add: valid_packs_def)
  have all: "0 \<le> ms \<and> policy_conformant c co pk \<and> set (cited_segments c q co su) \<subseteq> set known \<longleftrightarrow>
      0 \<le> ms \<and> check_classification c pk known = Inr () \<and> check_quality q pk known = Inr ()
      \<and> check_compliance co pk known = Inr () \<and> check_summary su known = Inr ()"
    unfolding check_classification_iff [OF wf(1)] check_quality_iff [OF wf(2)] check_compliance_def
      check_issues_iff [OF wf(3)] check_summary_iff policy_conformant_def cited_segments_def
    by (auto simp: list_ex_iff list_all_iff)
  have step: "bindE m (\<lambda>_. k') = (if m = Inr () then k' else Inl AggregationError)"
    if "\<And>e. m = Inl e \<Longrightarrow> e = AggregationError" for m :: "exn + unit" and k'
    using that by (cases m) auto
  show ?thesis
    unfolding all
    by (subst step, simp add: requireE_def split: if_splits,
        subst step, erule check_classification_Inl,
        subst step, erule check_quality_Inl [OF wf(2)],
        subst step, simp add: check_compliance_def check_issues_Inl,
        subst step, erule check_summary_Inl)
      (auto simp: requireE_def)
qed

section \<open>Properties\<close>

text \<open>
  Property C1. On valid agent results and loaded packs the fan-in is exactly this function: it
  raises \<open>AggregationError\<close> for a negative duration, a topic, priority or compliance rule the
  policies do not approve, or evidence outside the transcript; a validation error when the
  trusted versions are not the packs' or the joined summary exceeds 20000 characters; otherwise
  it returns the response and the stored record computed from its arguments.
\<close>

theorem aggregate_analysis_result:
  assumes "valid_inputs t c q co su" and "valid_packs pk"
  shows "aggregate_analysis t c q co su pk run vs ms =
    (if ms < 0 \<or> \<not> policy_conformant c co pk
        \<or> \<not> set (cited_segments c q co su) \<subseteq> ts_id ` set (sn_segments t) then Inl AggregationError
     else if \<not> versions_match vs pk \<or> 20000 < length (summary_text su) then Inl ValidationError
     else Inr \<lparr>ag_response = response_of t c q co su pk run vs ms,
               ag_record = record_of t c q co su pk run vs ms\<rparr>)"
proof -
  note I = assms(1) [unfolded valid_inputs_def list_all_iff]
  have issues: "mapE public_issue_of (ca_issues co)
      = Inr (cv_issues (re_compliance (response_of t c q co su pk run vs ms)))"
    using I by (auto simp: response_of_def intro!: mapE_pure public_issue_ok)
  have actions: "mapE grounded_action_of (su_actions su)
      = Inr (gr_actions (re_grounding (response_of t c q co su pk run vs ms)))"
    using I by (auto simp: response_of_def intro!: mapE_pure grounded_action_ok)
  have stored: "mapE sanitized_issue_of (ca_issues co)
      = Inr (sr_compliance_issues (record_of t c q co su pk run vs ms))"
    using I by (auto simp: record_of_def intro!: mapE_pure sanitized_issue_ok)
  have details: "details_of q = Inr (qs_details (re_quality (response_of t c q co su pk run vs ms)))"
    using assms(1) by (simp add: response_of_def details_of_ok valid_inputs_def)
  have score: "quality_total q pk = Inr (score_of q pk)"
    using assms(2) by (simp add: quality_total_raw score_of_def valid_packs_def)
  have rec: "validate_SanitizedAnalysisRecord (record_of t c q co su pk run vs ms)
      = Inr (record_of t c q co su pk run vs ms)" if "0 \<le> ms"
  proof -
    have "non_empty_id (cl_topic c) = Inr (cl_topic c)" "non_empty_id (cl_priority c) = Inr (cl_priority c)"
      "confidence (cl_confidence c) = Inr (cl_confidence c)" "distinct (cl_evidence c)"
      using I by (cases c; auto simp: is_valid_iff validate_ClassificationResult_def bindE_Inr_iff
          field_iffs(4,5) check_evidence_iff confidence_Inr_iff)+
    then show ?thesis
      using that score_of_bounds [OF assms(2), of q]
      by (simp add: validate_SanitizedAnalysisRecord_def record_of_def requireE_def non_negative_def
          require_unique_def unique_quality_evidence)
  qed
  show ?thesis
  proof (cases "0 \<le> ms \<and> policy_conformant c co pk
      \<and> set (cited_segments c q co su) \<subseteq> set (map ts_id (sn_segments t))")
    case False
    then show ?thesis
      unfolding aggregate_analysis_def Let_def checks_eq [OF assms(2)] by auto
  next
    case True
    then have "0 \<le> ms" "set (cited_segments c q co su) \<subseteq> ts_id ` set (sn_segments t)" by auto
    note R = build_response_eq [OF assms this]
    show ?thesis
      using True rec
      unfolding aggregate_analysis_def Let_def checks_eq [OF assms(2)] details score issues actions stored
      by (simp add: response_of_def record_of_def R [unfolded response_of_def])
  qed
qed

lemma raw_score_mono:
  assumes "wf_quality p" "\<And>c. c \<in> set (qp_criteria p) \<Longrightarrow> passed_criterion q c \<Longrightarrow> passed_criterion q' c"
  shows "raw_score q p \<le> raw_score q' p"
proof -
  have "filter (passed_criterion q) (filter (passed_criterion q') (qp_criteria p))
      = filter (passed_criterion q) (qp_criteria p)"
    using assms(2) by (auto simp: filter_filter intro: filter_cong)
  moreover have "\<forall>c \<in> set (qp_criteria p). 0 \<le> dec_mul (qr_weight c) 100"
    using assms(1) by (auto simp: wf_quality_def less_imp_le intro!: dec_mul_nonneg)
  ultimately show ?thesis
    using dec.fold_add_filter_le [of 0 0 "filter (passed_criterion q') (qp_criteria p)"
        "\<lambda>c. dec_mul (qr_weight c) 100" "passed_criterion q"]
    by (simp add: raw_score_def dec.rnd_zero)
qed

lemma passed_of_cases:
  assumes "i \<in> set quality_criteria"
  shows "\<exists>a \<in> snd ` set (assessment_items q). passed_of q i = Inr (qc_passed a)"
proof -
  have "i \<in> set (map fst (assessment_items q))" using assms by (simp only: assessment_keys)
  then obtain a where a: "dict_of (assessment_items q) i = Some a"
    by (metis dict_of_keys list.set_map not_Some_eq)
  then have "(i, a) \<in> set (assessment_items q)"
    by (metis dict_of_def map_of_SomeD set_rev)
  then show ?thesis using a by (force simp: passed_of_def)
qed

text \<open>
  Property C10. The quality score lies between 0 and 100, is exactly 100 when all four criteria
  pass and 0 when none does, and passing more criteria never lowers it; this holds in the
  28-digit decimal arithmetic for every rubric the loader accepts, whatever its weights.
\<close>

theorem quality_total_bounds:
  assumes "wf_quality (pk_quality pk)" and "exact_weights (pk_quality pk)"
  shows "\<exists>s. quality_total q pk = Inr s \<and> 0 \<le> s \<and> s \<le> 100
     \<and> ((\<forall>a \<in> snd ` set (assessment_items q). qc_passed a) \<longrightarrow> s = 100)
     \<and> ((\<forall>a \<in> snd ` set (assessment_items q). \<not> qc_passed a) \<longrightarrow> s = 0)
     \<and> (\<forall>q'. (\<forall>i. passed_of q i = Inr True \<longrightarrow> passed_of q' i = Inr True)
          \<longrightarrow> (\<exists>s'. quality_total q' pk = Inr s' \<and> s \<le> s'))"
proof (intro exI conjI impI allI)
  let ?p = "pk_quality pk"
  have ids: "qr_id c \<in> set quality_criteria" if "c \<in> set (qp_criteria ?p)" for c
    using that assms(1) unfolding wf_quality_def by (metis image_eqI list.set_map)
  show "quality_total q pk = Inr (quantize_cents (raw_score q ?p))"
    by (rule quality_total_raw [OF assms(1)])
  show "0 \<le> quantize_cents (raw_score q ?p)"
    using quantize_mono [OF raw_score_bounds(1) [OF assms]] by simp
  show "quantize_cents (raw_score q ?p) \<le> 100"
    using quantize_mono [OF raw_score_bounds(2) [OF assms]] by simp
  show "quantize_cents (raw_score q ?p) = 100" if "\<forall>a \<in> snd ` set (assessment_items q). qc_passed a"
  proof -
    have "filter (passed_criterion q) (qp_criteria ?p) = qp_criteria ?p"
      unfolding filter_id_conv passed_criterion_def using that passed_of_cases [OF ids, of _ q] by force
    then show ?thesis by (simp add: raw_score_def full_score [OF assms])
  qed
  show "quantize_cents (raw_score q ?p) = 0" if "\<forall>a \<in> snd ` set (assessment_items q). \<not> qc_passed a"
  proof -
    have "filter (passed_criterion q) (qp_criteria ?p) = []"
      unfolding filter_empty_conv passed_criterion_def using that passed_of_cases [OF ids, of _ q] by force
    then show ?thesis by (simp add: raw_score_def)
  qed
  fix q' assume "\<forall>i. passed_of q i = Inr True \<longrightarrow> passed_of q' i = Inr True"
  then show "quality_total q' pk = Inr (quantize_cents (raw_score q' ?p))"
    "quantize_cents (raw_score q ?p) \<le> quantize_cents (raw_score q' ?p)"
    using quality_total_raw [OF assms(1), of q']
    by (auto simp: passed_criterion_def intro!: quantize_mono raw_score_mono [OF assms(1)])
qed

lemma build_response_passed:
  "build_response t c co su pk run vs ms review score ck d is as = Inr r \<Longrightarrow>
     cv_passed (re_compliance r) = no_blocking co"
  by (auto simp: build_response_def validate_AnalyzeResponse_def Let_def validate_ComplianceView_def
      bindE_Inr_iff)

lemma validate_record_passed:
  "validate_SanitizedAnalysisRecord s = Inr r \<Longrightarrow> sr_compliance_passed r = sr_compliance_passed s"
  by (auto simp: validate_SanitizedAnalysisRecord_def bindE_Inr_iff)

text \<open>
  Property C11. When the fan-in returns a result, its compliance verdict is decided by the policy
  and not by the model: it passes exactly when no reported rule is blocking in the compliance
  policy, and the stored record carries the same verdict.
\<close>

theorem compliance_verdict_by_policy:
  assumes "wf_compliance (pk_compliance pk)"
    and "aggregate_analysis t c q co su pk run vs ms = Inr a"
  shows "(cv_passed (re_compliance (ag_response a)) \<longleftrightarrow>
      (\<forall>i \<in> set (ca_issues co). \<forall>r \<in> set (cp_rules (pk_compliance pk)).
         cru_id r = ci_rule_id i \<longrightarrow> cru_severity r \<noteq> BLOCKING))
    \<and> sr_compliance_passed (ag_record a) = cv_passed (re_compliance (ag_response a))"
proof -
  have "check_compliance co pk (map ts_id (sn_segments t)) = Inr ()"
    and verdict: "cv_passed (re_compliance (ag_response a)) = no_blocking co"
    and same: "sr_compliance_passed (ag_record a) = cv_passed (re_compliance (ag_response a))"
    using assms(2)
    by (auto simp: aggregate_analysis_def Let_def bindE_Inr_iff requireE_Inr_iff
        dest!: build_response_passed validate_record_passed)
  have rules: "\<exists>r \<in> set (cp_rules (pk_compliance pk)). cru_id r = ci_rule_id i \<and> cru_severity r = ci_severity i"
    if "i \<in> set (ca_issues co)" for i
    using that \<open>check_compliance co pk _ = Inr ()\<close>
    by (simp add: check_compliance_def check_issues_iff [OF assms(1)])
  have unique: "r = r'" if "r \<in> set (cp_rules (pk_compliance pk))" "r' \<in> set (cp_rules (pk_compliance pk))"
    "cru_id r = cru_id r'" for r r'
    using that assms(1) by (metis (mono_tags) wf_compliance_def distinct_map inj_onD)
  have "cv_passed (re_compliance (ag_response a)) \<longleftrightarrow>
      (\<forall>i \<in> set (ca_issues co). \<forall>r \<in> set (cp_rules (pk_compliance pk)).
         cru_id r = ci_rule_id i \<longrightarrow> cru_severity r \<noteq> BLOCKING)"
    unfolding verdict no_blocking_def list_ex_iff using rules unique by metis
  with same show ?thesis by simp
qed

section \<open>A concrete call\<close>

definition call_classification :: classification_result where
  "call_classification = \<lparr>cl_topic = topic_ids ! 1, cl_priority = lit ''medium'',
     cl_confidence = 4 / 5, cl_evidence = [2], cl_rationale = lit ''a card''\<rparr>"

definition call_criterion :: "bool \<Rightarrow> criterion_assessment" where
  "call_criterion b = \<lparr>qc_passed = b, qc_confidence = 4 / 5, qc_evidence = [1], qc_rationale = lit ''seen''\<rparr>"

definition call_quality :: quality_assessment where
  "call_quality = \<lparr>qa_greeting = call_criterion True, qa_need_detection = call_criterion True,
     qa_solution_provided = call_criterion True, qa_farewell = call_criterion False\<rparr>"

definition call_compliance :: compliance_assessment where
  "call_compliance = \<lparr>ca_issues = [\<lparr>ci_rule_id = lit ''credit_terms_disclaimer'',
     ci_severity = WARNING, ci_evidence = [1], ci_explanation = lit ''missing''\<rparr>]\<rparr>"

definition call_summary :: summary_result where
  "call_summary = \<lparr>su_sentences = [lit ''one.'', lit ''two.'', lit ''three.''], su_facts = [1, 2],
     su_actions = [\<lparr>ai_text = lit ''call back'', ai_evidence = [2]\<rparr>]\<rparr>"

definition v1_metadata :: "string \<Rightarrow> policy_metadata" where
  "v1_metadata name = \<lparr>pm_policy_id = lit name, pm_version = lit ''v1'', pm_owner = lit ''MTBank'',
     pm_effective_date = lit ''2026-07-16''\<rparr>"

text \<open>The shipped v1 packs, with shortened descriptions.\<close>

definition v1_topic :: "nat \<Rightarrow> string list \<Rightarrow> taxonomy_topic" where
  "v1_topic n ps = \<lparr>tt_id = topic_ids ! n, tt_description = lit ''topic'', tt_priorities = map lit ps\<rparr>"

definition v1_criterion :: "string \<Rightarrow> rat \<Rightarrow> quality_criterion" where
  "v1_criterion i w = \<lparr>qr_id = lit i, qr_weight = w, qr_description = lit ''criterion''\<rparr>"

definition v1_rule :: "string \<Rightarrow> severity \<Rightarrow> compliance_rule" where
  "v1_rule i s = \<lparr>cru_id = lit i, cru_severity = s, cru_description = lit ''rule''\<rparr>"

definition v1_packs :: policy_packs where
  "v1_packs =
     \<lparr>pk_taxonomy = \<lparr>tp_metadata = v1_metadata ''taxonomy'', tp_topics =
        [v1_topic 0 [''low'', ''medium'', ''high''], v1_topic 1 [''low'', ''medium'', ''high''],
         v1_topic 2 [''low'', ''medium'', ''high''], v1_topic 3 [''medium'', ''high''],
         v1_topic 4 [''low'', ''medium'']]\<rparr>,
      pk_quality = \<lparr>qp_metadata = v1_metadata ''quality'', qp_criteria =
        [v1_criterion ''greeting'' (1 / 4), v1_criterion ''need_detection'' (1 / 4),
         v1_criterion ''solution_provided'' (3 / 10), v1_criterion ''farewell'' (1 / 5)],
        qp_review_threshold = 3 / 4, qp_role_threshold = 3 / 4\<rparr>,
      pk_compliance = \<lparr>cp_metadata = v1_metadata ''compliance'', cp_rules =
        [v1_rule ''no_unconditional_guarantee'' BLOCKING, v1_rule ''no_sensitive_data_request'' BLOCKING,
         v1_rule ''credit_terms_disclaimer'' WARNING, v1_rule ''complaint_acknowledgement'' WARNING]\<rparr>\<rparr>"

definition call_versions :: analysis_versions where
  "call_versions = \<lparr>av_code_sha = lit ''abc'', av_prompt_bundle_hash = replicate 64 97,
     av_taxonomy = lit ''taxonomy/v1'', av_quality = lit ''quality/v1'',
     av_compliance = lit ''compliance/v1'', av_asr = call_revision, av_alignment = call_revision,
     av_diarization = call_revision\<rparr>"

lemma v1_packs_wf: "wf_taxonomy (pk_taxonomy v1_packs)" "wf_quality (pk_quality v1_packs)"
  "wf_compliance (pk_compliance v1_packs)" "exact_weights (pk_quality v1_packs)"
proof -
  show "wf_taxonomy (pk_taxonomy v1_packs)" by code_simp
  show "wf_quality (pk_quality v1_packs)" by code_simp
  show "wf_compliance (pk_compliance v1_packs)" by code_simp
  show "exact_weights (pk_quality v1_packs)" by code_simp
qed

lemma v1_packs_valid: "valid_packs v1_packs"
proof -
  have "is_ok (validate_component (pm_version (v1_metadata n)))" for n
    unfolding v1_metadata_def policy_metadata.simps by code_simp
  then show ?thesis by (simp add: valid_packs_def v1_packs_wf) (simp add: v1_packs_def)
qed

lemma call_inputs_valid:
  "valid_inputs call_snapshot call_classification call_quality call_compliance call_summary"
  by code_simp

lemma aggregate_analysis_result_witness:
  "aggregate_analysis call_snapshot call_classification call_quality call_compliance call_summary
     v1_packs 3 call_versions 12 =
   Inr \<lparr>ag_response = response_of call_snapshot call_classification call_quality call_compliance
           call_summary v1_packs 3 call_versions 12,
         ag_record = record_of call_snapshot call_classification call_quality call_compliance
           call_summary v1_packs 3 call_versions 12\<rparr>"
proof -
  have "policy_conformant call_classification call_compliance v1_packs" by code_simp
  moreover have "set (cited_segments call_classification call_quality call_compliance call_summary)
      \<subseteq> ts_id ` set (sn_segments call_snapshot)" by code_simp
  moreover have "versions_match call_versions v1_packs" by code_simp
  moreover have "length (summary_text call_summary) \<le> 20000" by code_simp
  ultimately show ?thesis
    using aggregate_analysis_result [OF call_inputs_valid v1_packs_valid, of 3 call_versions 12] by simp
qed

lemma quality_total_bounds_witness:
  "\<exists>s. quality_total call_quality v1_packs = Inr s \<and> 0 \<le> s \<and> s \<le> 100"
  using quality_total_bounds [OF v1_packs_wf(2,4), of call_quality] by blast

lemma compliance_verdict_by_policy_witness:
  "\<exists>a. aggregate_analysis call_snapshot call_classification call_quality call_compliance call_summary
     v1_packs 3 call_versions 12 = Inr a \<and> cv_passed (re_compliance (ag_response a))"
proof -
  have r: "is_ok (aggregate_analysis call_snapshot call_classification call_quality call_compliance
      call_summary v1_packs 3 call_versions 12)"
    by code_simp
  moreover have "\<forall>i \<in> set (ca_issues call_compliance). \<forall>r \<in> set (cp_rules (pk_compliance v1_packs)).
      cru_id r = ci_rule_id i \<longrightarrow> cru_severity r \<noteq> BLOCKING"
    by code_simp
  ultimately show ?thesis
    using compliance_verdict_by_policy [OF v1_packs_wf(3)] by (metis is_ok_iff)
qed

end
