(* ===== verification/Contracts.thy ===== *)
theory Contracts
  imports Json Decimals
begin

text \<open>
  The immutable contracts of the bounded agent runtime (\<^verbatim>\<open>agent_runtime/contracts.py\<close>) and the
  lifecycle event types (\<^verbatim>\<open>domain/events.py\<close>): messages, requests, responses, budgets, agent
  specifications and the recorded trajectory. Model outputs and tool arguments are JSON values.
\<close>

section \<open>Messages\<close>

datatype message_role = SYSTEM | USER | ASSISTANT | TOOL

datatype tool_choice = CHOICE_AUTO | CHOICE_NONE | CHOICE_REQUIRED

datatype side_effect = READ_ONLY | TERMINAL_SUBMIT

datatype tool_call_status = PROPOSED | VALIDATED | ALLOWED | CALL_COMPLETED | CALL_FAILED

datatype reasoning_effort = EFFORT_LOW | EFFORT_MEDIUM | EFFORT_HIGH | EFFORT_XHIGH | EFFORT_ULTRA

record model_tool_call =
  tc_id :: pystr
  tc_name :: pystr
  tc_arguments :: pystr

definition validate_ModelToolCall :: "model_tool_call \<Rightarrow> exn + model_tool_call" where
  "validate_ModelToolCall c =
     bindE (non_empty_id (tc_id c)) (\<lambda>i.
     bindE (non_empty_id (tc_name c)) (\<lambda>n.
     bindE (requireE ValidationError (1 \<le> length (tc_arguments c) \<and> length (tc_arguments c) \<le> 65536)) (\<lambda>_.
       Inr (c\<lparr>tc_id := i, tc_name := n\<rparr>))))"

record model_message =
  ms_role :: message_role
  ms_content :: "pystr option"
  ms_tool_call_id :: "pystr option"
  ms_tool_calls :: "model_tool_call list"

definition message_shape :: "model_message \<Rightarrow> exn + unit" where
  "message_shape m =
     (if ms_role m \<in> {SYSTEM, USER} \<and> ms_content m = None then Inl ValidationError
      else if ms_role m = TOOL \<and> (ms_content m = None \<or> ms_tool_call_id m = None) then Inl ValidationError
      else if ms_role m = TOOL \<and> ms_tool_calls m \<noteq> [] then Inl ValidationError
      else if ms_role m \<noteq> TOOL \<and> ms_tool_call_id m \<noteq> None then Inl ValidationError
      else if ms_role m \<noteq> ASSISTANT \<and> ms_tool_calls m \<noteq> [] then Inl ValidationError
      else if ms_role m = ASSISTANT \<and> ms_content m = None \<and> ms_tool_calls m = [] then Inl ValidationError
      else Inr ())"

definition validate_ModelMessage :: "model_message \<Rightarrow> exn + model_message" where
  "validate_ModelMessage m =
     bindE (optional long_text (ms_content m)) (\<lambda>c.
     bindE (optional non_empty_id (ms_tool_call_id m)) (\<lambda>i.
     let m' = m\<lparr>ms_content := c, ms_tool_call_id := i\<rparr>
     in bindE (message_shape m') (\<lambda>_. Inr m')))"

section \<open>Requests and responses\<close>

record function_schema =
  fs_name :: pystr
  fs_description :: pystr
  fs_parameters :: json

record model_request =
  mq_model_id :: pystr
  mq_effort :: "reasoning_effort option"
  mq_messages :: "model_message list"
  mq_tools :: "function_schema list"
  mq_tool_choice :: tool_choice
  mq_max_output_tokens :: int
  mq_temperature :: pyfloat

definition validate_ModelRequest :: "model_request \<Rightarrow> exn + model_request" where
  "validate_ModelRequest r =
     bindE (non_empty_id (mq_model_id r)) (\<lambda>m.
     bindE (requireE ValidationError (mq_messages r \<noteq> [])) (\<lambda>_.
     bindE (positive (mq_max_output_tokens r)) (\<lambda>_.
     bindE (requireE ValidationError (0 \<le> mq_temperature r \<and> mq_temperature r \<le> 2)) (\<lambda>_.
     bindE (requireE ValidationError (all_unique (map fs_name (mq_tools r)))) (\<lambda>_.
     bindE (requireE ValidationError (\<not> (mq_tool_choice r = CHOICE_REQUIRED \<and> mq_tools r = []))) (\<lambda>_.
       Inr (r\<lparr>mq_model_id := m\<rparr>)))))))"

record model_usage =
  us_input :: int
  us_output :: int
  us_total :: int

definition validate_ModelUsage :: "model_usage \<Rightarrow> exn + model_usage" where
  "validate_ModelUsage u =
     (if us_input u < 0 \<or> us_output u < 0 \<or> us_total u < 0 then Inl ValidationError
      else if us_total u \<noteq> us_input u + us_output u then Inl ValidationError
      else Inr u)"

record model_response =
  mr_request_id :: "pystr option"
  mr_model_id :: pystr
  mr_finish_reason :: "pystr option"
  mr_tool_calls :: "model_tool_call list"
  mr_usage :: model_usage
  mr_latency_ms :: int
  mr_has_text :: bool
  mr_text :: "pystr option"

definition validate_ModelResponse :: "model_response \<Rightarrow> exn + model_response" where
  "validate_ModelResponse r =
     bindE (optional non_empty_id (mr_request_id r)) (\<lambda>i.
     bindE (non_empty_id (mr_model_id r)) (\<lambda>m.
     bindE (optional non_empty_id (mr_finish_reason r)) (\<lambda>f.
     bindE (non_negative (mr_latency_ms r)) (\<lambda>_.
     bindE (optional long_text (mr_text r)) (\<lambda>t.
     bindE (requireE ValidationError (t \<noteq> None \<longrightarrow> mr_has_text r)) (\<lambda>_.
       Inr (r\<lparr>mr_request_id := i, mr_model_id := m, mr_finish_reason := f, mr_text := t\<rparr>)))))))"

text \<open>A stream event is a text delta or the completed response.\<close>

datatype stream_event_type = TEXT_DELTA | COMPLETED

record stream_event =
  se_sequence :: int
  se_type :: stream_event_type
  se_text_delta :: "pystr option"
  se_response :: "model_response option"

definition validate_ModelStreamEvent :: "stream_event \<Rightarrow> exn + stream_event" where
  "validate_ModelStreamEvent e =
     bindE (positive (se_sequence e)) (\<lambda>_.
     bindE (requireE ValidationError
              (\<forall>t \<in> set_option (se_text_delta e). 1 \<le> length t \<and> length t \<le> 20000)) (\<lambda>_.
     bindE (requireE ValidationError
              (if se_type e = TEXT_DELTA then se_text_delta e \<noteq> None \<and> se_response e = None
               else se_response e \<noteq> None \<and> se_text_delta e = None)) (\<lambda>_.
       Inr e)))"

section \<open>Agent specifications\<close>

record prompt_reference =
  pr_prompt_id :: pystr
  pr_version :: pystr
  pr_content_hash :: pystr
  pr_bundle_hash :: pystr

definition validate_PromptReference :: "prompt_reference \<Rightarrow> exn + prompt_reference" where
  "validate_PromptReference p =
     bindE (non_empty_id (pr_prompt_id p)) (\<lambda>i.
     bindE (non_empty_id (pr_version p)) (\<lambda>v.
     bindE (sha256 (pr_content_hash p)) (\<lambda>_.
     bindE (sha256 (pr_bundle_hash p)) (\<lambda>_. Inr (p\<lparr>pr_prompt_id := i, pr_version := v\<rparr>)))))"

record agent_budget =
  bu_max_turns :: int
  bu_max_tool_calls :: int
  bu_max_repeated :: int
  bu_max_input :: int
  bu_max_output :: int
  bu_max_cost :: rat
  bu_input_cost :: rat
  bu_output_cost :: rat
  bu_max_observation :: int

definition validate_AgentBudget :: "agent_budget \<Rightarrow> exn + agent_budget" where
  "validate_AgentBudget b =
     (if \<not> (0 < bu_max_turns b \<and> 0 < bu_max_tool_calls b \<and> 0 < bu_max_repeated b
              \<and> 0 < bu_max_input b \<and> 0 < bu_max_output b \<and> 0 \<le> bu_max_cost b
              \<and> 0 \<le> bu_input_cost b \<and> 0 \<le> bu_output_cost b \<and> 0 < bu_max_observation b)
        then Inl ValidationError
      else if 8 < bu_max_turns b then Inl ValidationError
      else if 24 < bu_max_tool_calls b then Inl ValidationError
      else if 4 < bu_max_repeated b then Inl ValidationError
      else if 20000 < bu_max_observation b then Inl ValidationError
      else Inr b)"

text \<open>\<open>sp_output_model\<close> is the strict validation of the agent's output model.\<close>

record agent_spec =
  sp_agent_id :: pystr
  sp_model_id :: pystr
  sp_model_version :: pystr
  sp_effort :: "reasoning_effort option"
  sp_policy_version :: pystr
  sp_prompt :: prompt_reference
  sp_output_model :: "json \<Rightarrow> json option"
  sp_read_tools :: "pystr list"
  sp_required_tools :: "pystr list"
  sp_submit_tool :: pystr
  sp_budget :: agent_budget

definition validate_AgentSpec :: "agent_spec \<Rightarrow> exn + agent_spec" where
  "validate_AgentSpec s =
     bindE (non_empty_id (sp_agent_id s)) (\<lambda>a.
     bindE (non_empty_id (sp_model_id s)) (\<lambda>m.
     bindE (non_empty_id (sp_model_version s)) (\<lambda>mv.
     bindE (non_empty_id (sp_policy_version s)) (\<lambda>p.
     bindE (mapE non_empty_id (sp_read_tools s)) (\<lambda>allowed.
     bindE (mapE non_empty_id (sp_required_tools s)) (\<lambda>required.
     bindE (non_empty_id (sp_submit_tool s)) (\<lambda>submit.
     bindE (requireE ValidationError (all_unique allowed)) (\<lambda>_.
     bindE (requireE ValidationError (all_unique required)) (\<lambda>_.
     bindE (requireE ValidationError (submit \<notin> set allowed)) (\<lambda>_.
     bindE (requireE ValidationError (subset_of required allowed)) (\<lambda>_.
       Inr (s\<lparr>sp_agent_id := a, sp_model_id := m, sp_model_version := mv, sp_policy_version := p,
              sp_read_tools := allowed, sp_required_tools := required, sp_submit_tool := submit\<rparr>))))))))))))"

record run_context =
  rc_run_id :: uuid
  rc_run_version :: pystr
  rc_policy_version :: pystr
  rc_created_at :: int
  rc_deadline_at :: int
  rc_messages :: "model_message list"

definition validate_AgentRunContext :: "run_context \<Rightarrow> exn + run_context" where
  "validate_AgentRunContext c =
     bindE (non_empty_id (rc_run_version c)) (\<lambda>v.
     bindE (non_empty_id (rc_policy_version c)) (\<lambda>p.
     bindE (requireE ValidationError (rc_messages c \<noteq> [])) (\<lambda>_.
     bindE (requireE ValidationError (rc_created_at c < rc_deadline_at c)) (\<lambda>_.
       Inr (c\<lparr>rc_run_version := v, rc_policy_version := p\<rparr>)))))"

section \<open>Lifecycle events and the trajectory\<close>

datatype event_type = RUN_STARTED | SPEECH_STARTED | SPEECH_COMPLETED | SPEECH_FAILED
  | ROLE_RESOLUTION_STARTED | ROLE_RESOLUTION_COMPLETED | AGENT_STARTED | MODEL_REQUESTED
  | MODEL_COMPLETED | MODEL_FAILED | TOOL_PROPOSED | TOOL_VALIDATED | TOOL_ALLOWED | TOOL_STARTED
  | TOOL_COMPLETED | TOOL_FAILED | AGENT_OUTPUT_VALIDATED | AGENT_OUTPUT_REJECTED
  | AGGREGATION_COMPLETED | RUN_COMPLETED | RUN_FAILED

record trajectory_record =
  tr_sequence :: int
  tr_event_type :: event_type
  tr_event_hash :: pystr
  tr_model_id :: "pystr option"
  tr_model_call_id :: "pystr option"
  tr_tool_call_id :: "pystr option"
  tr_tool_name :: "pystr option"
  tr_status :: "tool_call_status option"
  tr_usage :: "model_usage option"
  tr_latency_ms :: "int option"

record agent_evidence =
  ev_run_id :: uuid
  ev_run_version :: pystr
  ev_agent_id :: pystr
  ev_model_id :: pystr
  ev_model_version :: pystr
  ev_effort :: "reasoning_effort option"
  ev_policy_version :: pystr
  ev_prompt :: prompt_reference
  ev_usage :: model_usage
  ev_cost :: rat
  ev_trajectory :: "trajectory_record list"

record agent_result =
  rs_run_id :: uuid
  rs_run_version :: pystr
  rs_agent_id :: pystr
  rs_model_id :: pystr
  rs_model_version :: pystr
  rs_effort :: "reasoning_effort option"
  rs_policy_version :: pystr
  rs_prompt :: prompt_reference
  rs_output :: json
  rs_usage :: model_usage
  rs_cost :: rat
  rs_trajectory :: "trajectory_record list"
  rs_evidence :: agent_evidence

record tool_observation =
  ob_tool_name :: pystr
  ob_hash :: pystr
  ob_size :: int
  ob_content :: pystr

definition validate_ToolObservation :: "tool_observation \<Rightarrow> exn + tool_observation" where
  "validate_ToolObservation o' =
     bindE (non_empty_id (ob_tool_name o')) (\<lambda>n.
     bindE (sha256 (ob_hash o')) (\<lambda>_.
     bindE (non_negative (ob_size o')) (\<lambda>_.
     bindE (requireE ValidationError (1 \<le> length (ob_content o') \<and> length (ob_content o') \<le> 65536)) (\<lambda>_.
       Inr (o'\<lparr>ob_tool_name := n\<rparr>)))))"

record tool_context =
  tx_run_id :: uuid
  tx_agent_id :: pystr
  tx_deadline_at :: int

section \<open>Facts\<close>

interpretation tool_call_model: validator validate_ModelToolCall
  by unfold_locales (auto simp: validate_ModelToolCall_def result_iffs field_iffs)

interpretation usage_model: validator validate_ModelUsage
  by unfold_locales (auto simp: validate_ModelUsage_def split: if_splits)

interpretation budget_model: validator validate_AgentBudget
  by unfold_locales (auto simp: validate_AgentBudget_def split: if_splits)

interpretation context_model: validator validate_AgentRunContext
  by unfold_locales (auto simp: validate_AgentRunContext_def result_iffs field_iffs)

interpretation request_model: validator validate_ModelRequest
  by unfold_locales (auto simp: validate_ModelRequest_def result_iffs field_iffs)

lemma valid_budget:
  "is_valid validate_AgentBudget b \<longleftrightarrow>
     0 < bu_max_turns b \<and> bu_max_turns b \<le> 8 \<and> 0 < bu_max_tool_calls b \<and> bu_max_tool_calls b \<le> 24
     \<and> 0 < bu_max_repeated b \<and> bu_max_repeated b \<le> 4 \<and> 0 < bu_max_input b \<and> 0 < bu_max_output b
     \<and> 0 \<le> bu_max_cost b \<and> 0 \<le> bu_input_cost b \<and> 0 \<le> bu_output_cost b
     \<and> 0 < bu_max_observation b \<and> bu_max_observation b \<le> 20000"
  by (auto simp: is_valid_iff validate_AgentBudget_def split: if_splits)

lemma valid_spec_tools:
  "is_valid validate_AgentSpec s \<Longrightarrow>
     distinct (sp_read_tools s) \<and> set (sp_required_tools s) \<subseteq> set (sp_read_tools s)
     \<and> sp_submit_tool s \<notin> set (sp_read_tools s)"
  by (cases s) (auto simp: is_valid_iff validate_AgentSpec_def bindE_Inr_iff requireE_Inr_iff)

end
