(* ===== verification/Tools.thy ===== *)
theory Tools
  imports Contracts "HOL-Library.List_Lexorder"
begin

text \<open>
  The closed registry of typed tools (\<^verbatim>\<open>agent_runtime/tools.py\<close>) and the fail-closed authoriser
  (\<^verbatim>\<open>agent_runtime/authorization.py\<close>). The pydantic models of a tool, its handler, the JSON
  codec and SHA-256 are parameters. A Python object of a model is represented by its JSON value.
\<close>

section \<open>Tool specifications\<close>

text \<open>
  What awaiting a handler under \<^verbatim>\<open>asyncio.timeout\<close> gives: a model or mapping, another object, an
  exception (a \<^verbatim>\<open>TimeoutError\<close> of its own or of the timeout included).
\<close>

datatype handler_reply = HReturns json | HOther | HRaises exn

text \<open>
  \<open>ts_input\<close> is \<^verbatim>\<open>input_model.model_validate_json(.., strict=True)\<close>, \<open>ts_output\<close> is
  \<^verbatim>\<open>output_model.model_validate(.., strict=True)\<close>, \<open>ts_schema\<close> is \<^verbatim>\<open>input_model.model_json_schema()\<close>. The
  handler gets its arguments, the context, the timeout in seconds and the number of the invocation.
\<close>

record tool_spec =
  ts_name :: pystr
  ts_description :: pystr
  ts_input :: "pystr \<Rightarrow> exn + json"
  ts_output :: "json \<Rightarrow> exn + json"
  ts_schema :: json
  ts_side_effect :: side_effect
  ts_timeout :: double
  ts_handler :: "json \<Rightarrow> tool_context \<Rightarrow> double \<Rightarrow> nat \<Rightarrow> handler_reply"

definition validate_ToolSpec :: "tool_spec \<Rightarrow> exn + tool_spec" where
  "validate_ToolSpec s =
     (if ts_name s = [] \<or> 256 < length (ts_name s) then Inl ValueError
      else if ts_description s = [] \<or> 20000 < length (ts_description s) then Inl ValueError
      else if ts_timeout s \<le> 0 then Inl ValueError
      else Inr s)"

text \<open>\<^verbatim>\<open>d[k] = v\<close> on a dict: replaced in place or appended.\<close>

definition obj_set :: "pystr \<Rightarrow> json \<Rightarrow> (pystr \<times> json) list \<Rightarrow> (pystr \<times> json) list" where
  "obj_set k v kvs =
     (if k \<in> fst ` set kvs then map (\<lambda>(k', v'). (k', if k' = k then v else v')) kvs else kvs @ [(k, v)])"

text \<open>
  The two entries written for an object with properties, whose keys are read before the recursion.
\<close>

definition strict_entries :: "(pystr \<times> json) list \<Rightarrow> (pystr \<times> json) list \<Rightarrow> (pystr \<times> json) list" where
  "strict_entries before kvs =
     (case map_of before (lit ''properties'') of
        Some (JObj ps) \<Rightarrow>
          obj_set (lit ''required'') (JList (map JStr (sort (map fst ps))))
            (obj_set (lit ''additionalProperties'') (JBool False) kvs)
      | _ \<Rightarrow> kvs)"

text \<open>
  \<^verbatim>\<open>_make_schema_strict\<close>. The entries are written after the recursion into the children here,
  before it in the source; it leaves what they hold unchanged, and an entry they replace is lost
  either way.
\<close>

fun make_schema_strict :: "json \<Rightarrow> json" where
  "make_schema_strict (JObj kvs) =
     JObj (strict_entries kvs (map (\<lambda>kv. (fst kv, make_schema_strict (snd kv))) kvs))"
| "make_schema_strict (JList js) = JList (map make_schema_strict js)"
| "make_schema_strict j = j"

definition validate_FunctionToolSchema :: "function_schema \<Rightarrow> exn + function_schema" where
  "validate_FunctionToolSchema f =
     bindE (non_empty_id (fs_name f)) (\<lambda>n.
     bindE (long_text (fs_description f)) (\<lambda>d.
     bindE (case fs_parameters f of JObj _ \<Rightarrow> Inr () | _ \<Rightarrow> Inl ValidationError) (\<lambda>_.
       Inr (f\<lparr>fs_name := n, fs_description := d\<rparr>))))"

definition spec_function_schema :: "tool_spec \<Rightarrow> exn + function_schema" where
  "spec_function_schema s =
     validate_FunctionToolSchema
       \<lparr>fs_name = ts_name s, fs_description = ts_description s, fs_parameters = make_schema_strict (ts_schema s)\<rparr>"

section \<open>The registry\<close>

type_synonym registry = "pystr \<rightharpoonup> tool_spec"

definition new_tool_registry :: "tool_spec list \<Rightarrow> exn + registry" where
  "new_tool_registry specs =
     (if all_unique (map ts_name specs) then Inr (dict_of (map (\<lambda>s. (ts_name s, s)) specs))
      else Inl ValueError)"

definition require_tool :: "registry \<Rightarrow> pystr \<Rightarrow> exn + tool_spec" where
  "require_tool reg name =
     (case reg name of Some s \<Rightarrow> Inr s | None \<Rightarrow> Inl (AgentRuntimeError FAIL_UNKNOWN_TOOL))"

definition function_schemas :: "registry \<Rightarrow> pystr list \<Rightarrow> exn + function_schema list" where
  "function_schemas reg names =
     bindE (requireE ValueError (all_unique names)) (\<lambda>_.
       mapE (\<lambda>name. bindE (require_tool reg name) spec_function_schema) names)"

record validated_call =
  vc_call :: model_tool_call
  vc_spec :: tool_spec
  vc_arguments :: json

record executed_call =
  ex_output :: json
  ex_observation :: "tool_observation option"

text \<open>
  The codec: \<^verbatim>\<open>json.loads\<close> (a \<^verbatim>\<open>JSONDecodeError\<close> is a \<^verbatim>\<open>ValueError\<close>), \<^verbatim>\<open>model_dump(mode="json")\<close>,
  \<^verbatim>\<open>json.dumps(..).encode("utf-8")\<close>, \<^verbatim>\<open>bytes.decode("utf-8")\<close>, SHA-256 and the canonical
  \<^verbatim>\<open>model_dump_json\<close> of tool arguments.
\<close>

record codec =
  co_loads :: "pystr \<Rightarrow> exn + json"
  co_dump :: "json \<Rightarrow> exn + json"
  co_encode :: "json \<Rightarrow> exn + nat list"
  co_decode :: "nat list \<Rightarrow> pystr"
  co_sha256 :: "nat list \<Rightarrow> pystr"
  co_dump_json :: "json \<Rightarrow> pystr"

definition recode :: "(exn \<Rightarrow> bool) \<Rightarrow> agent_failure_code \<Rightarrow> exn + 'a \<Rightarrow> exn + 'a" where
  "recode P code r =
     (case r of Inl e \<Rightarrow> Inl (if P e then AgentRuntimeError code else e) | Inr x \<Rightarrow> Inr x)"

definition is_decode_error :: "exn \<Rightarrow> bool" where
  "is_decode_error e \<longleftrightarrow> e = TypeError \<or> e = ValueError"

definition is_model_error :: "exn \<Rightarrow> bool" where
  "is_model_error e \<longleftrightarrow> e = TypeError \<or> e = ValidationError"

definition is_dumps_error :: "exn \<Rightarrow> bool" where
  "is_dumps_error e \<longleftrightarrow> e = TypeError \<or> is_value_error e"

fun is_object :: "json \<Rightarrow> bool" where
  "is_object (JObj _) = True"
| "is_object _ = False"

definition validate_call :: "codec \<Rightarrow> registry \<Rightarrow> model_tool_call \<Rightarrow> exn + validated_call" where
  "validate_call co reg c =
     bindE (require_tool reg (tc_name c)) (\<lambda>spec.
     bindE (recode is_decode_error FAIL_TOOL_ARGUMENTS_INVALID (co_loads co (tc_arguments c))) (\<lambda>decoded.
     bindE (requireE (AgentRuntimeError FAIL_TOOL_ARGUMENTS_INVALID) (is_object decoded)) (\<lambda>_.
     bindE (recode (\<lambda>e. e = ValidationError) FAIL_TOOL_ARGUMENTS_INVALID (ts_input spec (tc_arguments c))) (\<lambda>args.
       Inr \<lparr>vc_call = c, vc_spec = spec, vc_arguments = args\<rparr>))))"

text \<open>\<^verbatim>\<open>ToolRegistry.validate_calls\<close>, with the set of the remote call ids seen so far and after it.\<close>

definition validate_calls ::
  "codec \<Rightarrow> registry \<Rightarrow> model_tool_call list \<Rightarrow> pystr list option
     \<Rightarrow> exn + (validated_call list \<times> pystr list option)" where
  "validate_calls co reg calls seen =
     (let ids = map tc_id calls in
      if calls = [] then Inl (AgentRuntimeError FAIL_MALFORMED_PROVIDER_RESPONSE)
      else if \<not> all_unique ids \<or> (\<exists>s \<in> set_option seen. list_ex (\<lambda>i. i \<in> set s) ids)
        then Inl (AgentRuntimeError FAIL_DUPLICATE_TOOL_CALL_ID)
      else bindE (mapE (validate_call co reg) calls) (\<lambda>validated.
        Inr (validated, map_option (\<lambda>s. s @ ids) seen)))"

definition serialize_observation ::
  "codec \<Rightarrow> pystr \<Rightarrow> json \<Rightarrow> int \<Rightarrow> exn + tool_observation" where
  "serialize_observation co name out max_bytes =
     bindE (requireE ValueError (0 < max_bytes)) (\<lambda>_.
     bindE (co_dump co out) (\<lambda>dumped.
     bindE (recode is_dumps_error FAIL_TOOL_EXECUTION_FAILED
              (co_encode co (JObj [(lit ''untrusted_tool_result'', dumped)]))) (\<lambda>encoded.
     bindE (requireE (AgentRuntimeError FAIL_OBSERVATION_TOO_LARGE) (int (length encoded) \<le> max_bytes)) (\<lambda>_.
       validate_ToolObservation
         \<lparr>ob_tool_name = name, ob_hash = co_sha256 co encoded, ob_size = int (length encoded),
          ob_content = co_decode co encoded\<rparr>))))"

definition handler_result :: "handler_reply \<Rightarrow> exn + json option" where
  "handler_result r =
     (case r of
        HReturns j \<Rightarrow> Inr (Some j)
      | HOther \<Rightarrow> Inr None
      | HRaises TimeoutError \<Rightarrow> Inl (AgentRuntimeError FAIL_TOOL_TIMEOUT)
      | HRaises (AgentRuntimeError c) \<Rightarrow> Inl (AgentRuntimeError c)
      | HRaises _ \<Rightarrow> Inl (AgentRuntimeError FAIL_TOOL_EXECUTION_FAILED))"

definition execute_tool ::
  "codec \<Rightarrow> validated_call \<Rightarrow> tool_context \<Rightarrow> double \<Rightarrow> int \<Rightarrow> bool \<Rightarrow> nat \<Rightarrow> exn + executed_call" where
  "execute_tool co call ctx timeout max_bytes include n =
     (let spec = vc_spec call in
      bindE (handler_result (ts_handler spec (vc_arguments call) ctx timeout n)) (\<lambda>candidate.
      bindE (recode is_model_error FAIL_TOOL_EXECUTION_FAILED
               (case candidate of Some j \<Rightarrow> ts_output spec j | None \<Rightarrow> Inl TypeError)) (\<lambda>out.
      bindE (if include then bindE (serialize_observation co (ts_name spec) out max_bytes) (\<lambda>ob. Inr (Some ob))
             else Inr None) (\<lambda>ob.
        Inr \<lparr>ex_output = out, ex_observation = ob\<rparr>))))"

section \<open>Authorisation\<close>

definition submit_positions :: "agent_spec \<Rightarrow> validated_call list \<Rightarrow> nat list" where
  "submit_positions spec calls =
     filter (\<lambda>i. ts_name (vc_spec (calls ! i)) = sp_submit_tool spec) [0..<length calls]"

text \<open>The loop of \<^verbatim>\<open>authorize\<close> over the calls, from a position on.\<close>

fun authorize_calls ::
  "agent_spec \<Rightarrow> pystr list \<Rightarrow> nat option \<Rightarrow> nat \<Rightarrow> validated_call list \<Rightarrow> exn + unit" where
  "authorize_calls spec retrieved terminal i [] = Inr ()"
| "authorize_calls spec retrieved terminal i (c # cs) =
     (if ts_name (vc_spec c) = sp_submit_tool spec then
        if ts_side_effect (vc_spec c) \<noteq> TERMINAL_SUBMIT
          then Inl (AgentRuntimeError FAIL_TERMINAL_SUBMIT_INVALID)
        else if Some i \<noteq> terminal then Inl (AgentRuntimeError FAIL_POST_TERMINAL_TOOL_CALL)
        else if \<not> subset_of (sp_required_tools spec) retrieved
          then Inl (AgentRuntimeError FAIL_REQUIRED_RETRIEVAL_MISSING)
        else authorize_calls spec retrieved terminal (Suc i) cs
      else if ts_side_effect (vc_spec c) \<noteq> READ_ONLY \<or> ts_name (vc_spec c) \<notin> set (sp_read_tools spec)
        then Inl (AgentRuntimeError FAIL_TOOL_NOT_ALLOWED)
      else authorize_calls spec retrieved terminal (Suc i) cs)"

definition authorize ::
  "agent_spec \<Rightarrow> validated_call list \<Rightarrow> pystr list \<Rightarrow> bool \<Rightarrow> exn + nat option" where
  "authorize spec calls retrieved terminal_submitted =
     (if terminal_submitted then Inl (AgentRuntimeError FAIL_POST_TERMINAL_TOOL_CALL)
      else
        let positions = submit_positions spec calls in
        if 1 < length positions then Inl (AgentRuntimeError FAIL_POST_TERMINAL_TOOL_CALL)
        else
          let terminal = (if positions = [] then None else Some (hd positions)) in
          if terminal \<noteq> None \<and> terminal \<noteq> Some (length calls - 1)
            then Inl (AgentRuntimeError FAIL_POST_TERMINAL_TOOL_CALL)
          else bindE (authorize_calls spec retrieved terminal 0 calls) (\<lambda>_. Inr terminal))"

section \<open>Facts\<close>

lemma recode_Inr_iff [result_iffs]: "recode P code r = Inr x \<longleftrightarrow> r = Inr x"
  by (auto simp: recode_def split: sum.splits)

lemma require_tool_Inr_iff [result_iffs]: "require_tool reg n = Inr s \<longleftrightarrow> reg n = Some s"
  by (auto simp: require_tool_def split: option.splits)

text \<open>Whoever looks a tool up gets the tool of that name.\<close>

definition registry_ok :: "registry \<Rightarrow> bool" where
  "registry_ok reg \<longleftrightarrow> (\<forall>n s. reg n = Some s \<longrightarrow> ts_name s = n)"

lemma new_tool_registry_ok: "new_tool_registry specs = Inr reg \<Longrightarrow> registry_ok reg"
  by (auto simp: new_tool_registry_def registry_ok_def dict_of_def split: if_splits dest!: map_of_SomeD)

lemma new_tool_registry_lookup:
  "new_tool_registry specs = Inr reg \<Longrightarrow> reg n = List.find (\<lambda>s. ts_name s = n) specs"
proof -
  assume "new_tool_registry specs = Inr reg"
  then have d: "distinct (map ts_name specs)" and r: "reg = dict_of (map (\<lambda>s. (ts_name s, s)) specs)"
    by (auto simp: new_tool_registry_def split: if_splits)
  have "reg = map_of (map (\<lambda>s. (ts_name s, s)) specs)"
    using d by (simp add: r dict_of_distinct comp_def)
  moreover have "map_of (map (\<lambda>s. (ts_name s, s)) ss) n = List.find (\<lambda>s. ts_name s = n) ss" for ss
    by (induction ss) auto
  ultimately show ?thesis by simp
qed

lemma validate_call_Inr_iff [result_iffs]:
  "validate_call co reg c = Inr v \<longleftrightarrow>
     (\<exists>spec args j. reg (tc_name c) = Some spec \<and> co_loads co (tc_arguments c) = Inr j \<and> is_object j
        \<and> ts_input spec (tc_arguments c) = Inr args \<and> v = \<lparr>vc_call = c, vc_spec = spec, vc_arguments = args\<rparr>)"
  by (auto simp: validate_call_def result_iffs)

lemma validate_calls_Inr_iff:
  "validate_calls co reg calls seen = Inr (vs, seen') \<longleftrightarrow>
     calls \<noteq> [] \<and> distinct (map tc_id calls)
     \<and> (\<forall>s. seen = Some s \<longrightarrow> set (map tc_id calls) \<inter> set s = {})
     \<and> list_all2 (\<lambda>c v. validate_call co reg c = Inr v) calls vs
     \<and> seen' = map_option (\<lambda>s. s @ map tc_id calls) seen"
  by (auto simp: validate_calls_def Let_def mapE_Inr_iff bindE_Inr_iff list_ex_iff split: if_splits)

lemma map_of_obj_set: "map_of (obj_set k v kvs) = (map_of kvs)(k \<mapsto> v)"
proof
  fix x
  have other: "map_of (map (\<lambda>(k', v'). (k', if k' = k then v else v')) l) x = map_of l x" if "x \<noteq> k" for l
    using that by (induction l) auto
  have same: "map_of (map (\<lambda>(k', v'). (k', if k' = k then v else v')) l) k = Some v" if "k \<in> fst ` set l" for l
    using that by (induction l) auto
  show "map_of (obj_set k v kvs) x = ((map_of kvs)(k \<mapsto> v)) x"
    using other [of kvs] same [of kvs]
    by (cases "x = k") (auto simp: obj_set_def map_add_def map_of_eq_None_iff [symmetric] split: option.splits)
qed

lemma make_schema_strict_entries:
  assumes "map_of kvs (lit ''properties'') = Some (JObj ps)"
  shows "\<exists>out. make_schema_strict (JObj kvs) = JObj out
    \<and> map_of out (lit ''additionalProperties'') = Some (JBool False)
    \<and> map_of out (lit ''required'') = Some (JList (map JStr (sort (map fst ps))))
    \<and> (\<forall>k. k \<noteq> lit ''additionalProperties'' \<and> k \<noteq> lit ''required''
         \<longrightarrow> map_of out k = map_option make_schema_strict (map_of kvs k))"
proof -
  have m: "map_of (map (\<lambda>kv. (fst kv, f (snd kv))) l) k = map_option f (map_of l k)" for f l and k :: pystr
    by (induction l) auto
  show ?thesis using assms by (simp add: strict_entries_def map_of_obj_set m)
qed

section \<open>The authoriser against its declarative reading\<close>

definition read_permitted :: "agent_spec \<Rightarrow> validated_call \<Rightarrow> bool" where
  "read_permitted spec c \<longleftrightarrow>
     ts_side_effect (vc_spec c) = READ_ONLY \<and> ts_name (vc_spec c) \<in> set (sp_read_tools spec)"

definition submit_permitted :: "agent_spec \<Rightarrow> pystr list \<Rightarrow> validated_call \<Rightarrow> bool" where
  "submit_permitted spec retrieved c \<longleftrightarrow>
     ts_side_effect (vc_spec c) = TERMINAL_SUBMIT \<and> ts_name (vc_spec c) = sp_submit_tool spec
     \<and> set (sp_required_tools spec) \<subseteq> set retrieved"

definition permitted :: "agent_spec \<Rightarrow> pystr list \<Rightarrow> validated_call list \<Rightarrow> nat option \<Rightarrow> bool" where
  "permitted spec retrieved calls terminal \<longleftrightarrow>
     (case terminal of
        None \<Rightarrow> list_all (read_permitted spec) calls
      | Some k \<Rightarrow> calls \<noteq> [] \<and> k = length calls - 1 \<and> list_all (read_permitted spec) (butlast calls)
                  \<and> submit_permitted spec retrieved (last calls))"

text \<open>One round of the loop lets a call at a position through.\<close>

definition call_passes :: "agent_spec \<Rightarrow> pystr list \<Rightarrow> nat option \<Rightarrow> nat \<Rightarrow> validated_call \<Rightarrow> bool" where
  "call_passes spec retrieved terminal i c \<longleftrightarrow>
     (if ts_name (vc_spec c) = sp_submit_tool spec
      then submit_permitted spec retrieved c \<and> terminal = Some i
      else read_permitted spec c)"

lemma authorize_calls_Cons:
  "authorize_calls spec retrieved terminal i (c # cs) = Inr () \<longleftrightarrow>
     call_passes spec retrieved terminal i c \<and> authorize_calls spec retrieved terminal (Suc i) cs = Inr ()"
  by (auto simp: call_passes_def submit_permitted_def read_permitted_def)

lemma authorize_calls_Inr_iff:
  "authorize_calls spec retrieved terminal i cs = Inr () \<longleftrightarrow>
     (\<forall>k < length cs. call_passes spec retrieved terminal (i + k) (cs ! k))"
proof (induction cs arbitrary: i)
  case (Cons c cs)
  show ?case
    unfolding authorize_calls_Cons Cons.IH by (simp add: All_less_Suc2)
qed simp

lemma submit_positions_snoc:
  "submit_positions spec (cs @ [c]) =
     submit_positions spec cs @ (if ts_name (vc_spec c) = sp_submit_tool spec then [length cs] else [])"
  by (auto simp: submit_positions_def nth_append intro!: filter_cong)

lemma submit_positions_Nil:
  "submit_positions spec cs = [] \<longleftrightarrow> (\<forall>k < length cs. ts_name (vc_spec (cs ! k)) \<noteq> sp_submit_tool spec)"
  by (auto simp: submit_positions_def filter_empty_conv)

lemma submit_positions_bound: "x \<in> set (submit_positions spec cs) \<Longrightarrow> x < length cs"
  by (simp add: submit_positions_def)

lemma authorize_Inr_iff:
  assumes "sp_submit_tool spec \<notin> set (sp_read_tools spec)" and "calls = cs @ [c]"
  shows "authorize spec calls retrieved False = Inr terminal \<longleftrightarrow> permitted spec retrieved calls terminal"
proof (cases "submit_positions spec cs = []")
  case True
  then show ?thesis using assms True [unfolded submit_positions_Nil]
    by (auto simp: authorize_def Let_def assms(2) submit_positions_snoc True bindE_Inr_iff
        authorize_calls_Inr_iff permitted_def list_all_length All_less_Suc nth_append call_passes_def
        submit_permitted_def read_permitted_def split: option.splits)
next
  case False
  then obtain x xs where p: "submit_positions spec cs = x # xs" by (cases "submit_positions spec cs") auto
  with submit_positions_bound [of x spec cs] have "x < length cs" by simp
  then have "authorize spec calls retrieved False \<noteq> Inr terminal"
    by (simp add: authorize_def Let_def assms(2) submit_positions_snoc p)
  moreover from False obtain k where "k < length cs" "ts_name (vc_spec (cs ! k)) = sp_submit_tool spec"
    by (auto simp: submit_positions_Nil)
  then have "\<not> list_all (read_permitted spec) cs"
    using assms(1) by (auto simp: list_all_length read_permitted_def)
  then have "\<not> permitted spec retrieved calls terminal"
    by (auto simp: permitted_def assms(2) split: option.splits)
  ultimately show ?thesis by simp
qed

lemma authorize_permitted:
  "is_valid validate_AgentSpec spec \<Longrightarrow>
     authorize spec calls retrieved submitted = Inr terminal \<longleftrightarrow> \<not> submitted \<and> permitted spec retrieved calls terminal"
proof (cases "calls = []")
  case True
  then show ?thesis
    by (auto simp: authorize_def submit_positions_def permitted_def split: option.splits)
next
  case False
  then obtain cs c where c: "calls = cs @ [c]" by (metis rev_exhaust)
  assume "is_valid validate_AgentSpec spec"
  then show ?thesis
    using authorize_Inr_iff [OF _ c, of spec retrieved terminal] valid_spec_tools [of spec]
    by (cases submitted) (auto simp: authorize_def)
qed

section \<open>Executing a tool\<close>

text \<open>
  What the runtime relies on: \<^verbatim>\<open>model_dump\<close> of a validated output does not raise,
  \<^verbatim>\<open>json.dumps(..).encode\<close> raises type and value errors only and encodes at least one byte,
  decoding gives at most one character per byte, SHA-256 gives 64 hexadecimal digits, and strict
  validation of a Python object raises a validation error or a type error.
\<close>

definition codec_ok :: "codec \<Rightarrow> bool" where
  "codec_ok co \<longleftrightarrow>
     (\<forall>j. is_ok (co_dump co j))
     \<and> (\<forall>j e. co_encode co j = Inl e \<longrightarrow> is_dumps_error e)
     \<and> (\<forall>j b. co_encode co j = Inr b \<longrightarrow> 1 \<le> length (co_decode co b) \<and> length (co_decode co b) \<le> length b)
     \<and> (\<forall>b. is_sha256 (co_sha256 co b))"

definition tool_ok :: "tool_spec \<Rightarrow> bool" where
  "tool_ok s \<longleftrightarrow> is_id (ts_name s) \<and> (\<forall>j e. ts_output s j = Inl e \<longrightarrow> is_model_error e)"

definition is_agent_error :: "exn \<Rightarrow> bool" where
  "is_agent_error e = (case e of AgentRuntimeError _ \<Rightarrow> True | _ \<Rightarrow> False)"

lemma is_agent_error_simps [simp]: "is_agent_error (AgentRuntimeError c)"
  by (simp add: is_agent_error_def)

definition observation_fits :: "pystr \<Rightarrow> int \<Rightarrow> tool_observation \<Rightarrow> bool" where
  "observation_fits name max_bytes ob \<longleftrightarrow>
     ob_tool_name ob = name \<and> ob_size ob \<le> max_bytes \<and> ob_content ob \<noteq> []
     \<and> int (length (ob_content ob)) \<le> ob_size ob \<and> is_sha256 (ob_hash ob)"

lemma handler_result_errors: "handler_result r = Inl e \<Longrightarrow> is_agent_error e"
  by (auto simp: handler_result_def split: handler_reply.splits exn.splits)

lemma recode_errors:
  "recode P code r = Inl e \<Longrightarrow> (\<And>x. r = Inl x \<Longrightarrow> P x) \<Longrightarrow> is_agent_error e"
  by (auto simp: recode_def split: sum.splits)

lemma serialize_observation_ok:
  assumes "codec_ok co" and "is_id name" and "0 < max_bytes" and "max_bytes \<le> 65536"
  shows "case serialize_observation co name out max_bytes of
      Inl e \<Rightarrow> is_agent_error e | Inr ob \<Rightarrow> observation_fits name max_bytes ob"
proof -
  from assms(1) obtain dumped where d: "co_dump co out = Inr dumped"
    by (metis codec_ok_def is_ok_iff)
  define doc where "doc = JObj [(lit ''untrusted_tool_result'', dumped)]"
  show ?thesis
  proof (cases "co_encode co doc")
    case (Inl e)
    with assms(1) have "is_dumps_error e" unfolding codec_ok_def by blast
    then show ?thesis using assms(3) Inl
      by (simp add: serialize_observation_def d doc_def [symmetric] recode_def requireE_def)
  next
    case (Inr b)
    with assms(1) have "1 \<le> length (co_decode co b)" "length (co_decode co b) \<le> length b" "is_sha256 (co_sha256 co b)"
      unfolding codec_ok_def by blast+
    then show ?thesis using assms(2-4) Inr
      by (auto simp: serialize_observation_def d doc_def [symmetric] recode_def requireE_def
          validate_ToolObservation_def non_negative_def observation_fits_def is_ok_iff)
  qed
qed

section \<open>Properties\<close>

text \<open>
  Property C23. The authoriser lets a batch of calls through exactly when no submission was made
  before and either every call is a declared read-only tool, or only the last call is the
  terminal submit, made after the required retrieval tools completed in an earlier turn.
\<close>

theorem authorize_iff_permitted:
  assumes "is_valid validate_AgentSpec spec"
  shows "authorize spec calls retrieved submitted = Inr terminal \<longleftrightarrow>
    \<not> submitted \<and> permitted spec retrieved calls terminal"
  using assms by (rule authorize_permitted)

definition demo_budget :: agent_budget where
  "demo_budget = \<lparr>bu_max_turns = 2, bu_max_tool_calls = 4, bu_max_repeated = 1, bu_max_input = 1000,
     bu_max_output = 1000, bu_max_cost = 1, bu_input_cost = 0, bu_output_cost = 0, bu_max_observation = 100\<rparr>"

definition demo_spec :: agent_spec where
  "demo_spec = \<lparr>sp_agent_id = lit ''quality'', sp_model_id = lit ''m'', sp_model_version = lit ''1'',
     sp_effort = None, sp_policy_version = lit ''p1'',
     sp_prompt = \<lparr>pr_prompt_id = lit ''p'', pr_version = lit ''1'', pr_content_hash = replicate 64 48,
       pr_bundle_hash = replicate 64 49\<rparr>,
     sp_output_model = Some, sp_read_tools = [lit ''get''], sp_required_tools = [lit ''get''],
     sp_submit_tool = lit ''submit'', sp_budget = demo_budget\<rparr>"

definition demo_tool :: "string \<Rightarrow> side_effect \<Rightarrow> tool_spec" where
  "demo_tool name eff = \<lparr>ts_name = lit name, ts_description = lit ''d'', ts_input = (\<lambda>s. Inr (JStr s)),
     ts_output = (\<lambda>j. Inr j), ts_schema = JObj [], ts_side_effect = eff, ts_timeout = 5,
     ts_handler = (\<lambda>args ctx t n. HReturns args)\<rparr>"

definition demo_codec :: codec where
  "demo_codec = \<lparr>co_loads = (\<lambda>s. Inr (JObj [])), co_dump = Inr, co_encode = (\<lambda>j. Inr [123, 125]),
     co_decode = (\<lambda>b. b), co_sha256 = (\<lambda>b. replicate 64 48), co_dump_json = (\<lambda>j. [])\<rparr>"

definition demo_tool_call :: "string \<Rightarrow> string \<Rightarrow> model_tool_call" where
  "demo_tool_call i name = \<lparr>tc_id = lit i, tc_name = lit name, tc_arguments = lit ''{}''\<rparr>"

definition demo_validated :: "string \<Rightarrow> side_effect \<Rightarrow> validated_call" where
  "demo_validated name eff = \<lparr>vc_call = demo_tool_call ''a'' name, vc_spec = demo_tool name eff, vc_arguments = JObj []\<rparr>"

lemma authorize_iff_permitted_witness:
  "authorize demo_spec [demo_validated ''get'' READ_ONLY, demo_validated ''submit'' TERMINAL_SUBMIT]
       [lit ''get''] False = Inr (Some 1)
   \<and> authorize demo_spec [demo_validated ''submit'' TERMINAL_SUBMIT] [] False \<noteq> Inr (Some 0)"
proof -
  have v: "is_valid validate_AgentSpec demo_spec"
    by (simp add: is_valid_iff validate_AgentSpec_def demo_spec_def non_empty_id_def constrained_str_def lit_def
        strip_by_def is_white_def requireE_def)
  show ?thesis
    unfolding authorize_iff_permitted [OF v]
    by (simp add: permitted_def read_permitted_def submit_permitted_def demo_validated_def demo_tool_def demo_spec_def)
qed

text \<open>
  Property C24. Executing a tool never lets a foreign exception out: whatever the handler does, the
  result is a failure code of the agent runtime or an output that the tool's output model
  validated, with an observation within the byte limit of the budget when one is asked for.
\<close>

theorem execute_tool_contained:
  assumes "codec_ok co" and "tool_ok (vc_spec call)" and "0 < max_bytes" and "max_bytes \<le> 20000"
  shows "case execute_tool co call ctx timeout max_bytes include n of
      Inl e \<Rightarrow> is_agent_error e
    | Inr ex \<Rightarrow> (\<exists>j. ts_output (vc_spec call) j = Inr (ex_output ex))
        \<and> (if include then \<exists>ob. ex_observation ex = Some ob \<and> observation_fits (ts_name (vc_spec call)) max_bytes ob
           else ex_observation ex = None)"
proof (cases "handler_result (ts_handler (vc_spec call) (vc_arguments call) ctx timeout n)")
  case (Inl e)
  then show ?thesis by (simp add: execute_tool_def Let_def handler_result_errors)
next
  case (Inr candidate)
  define out where "out = (case candidate of Some j \<Rightarrow> ts_output (vc_spec call) j | None \<Rightarrow> Inl TypeError)"
  have E: "execute_tool co call ctx timeout max_bytes include n =
      bindE (recode is_model_error FAIL_TOOL_EXECUTION_FAILED out) (\<lambda>out.
      bindE (if include then bindE (serialize_observation co (ts_name (vc_spec call)) out max_bytes) (\<lambda>ob. Inr (Some ob))
             else Inr None) (\<lambda>ob. Inr \<lparr>ex_output = out, ex_observation = ob\<rparr>))"
    by (simp add: execute_tool_def Let_def Inr out_def)
  show ?thesis
  proof (cases out)
    case (Inl e)
    then have "is_model_error e" using assms(2)
      by (auto simp: out_def tool_ok_def is_model_error_def split: option.splits)
    then show ?thesis by (simp add: E Inl recode_def)
  next
    case (Inr j)
    then have "\<exists>j'. ts_output (vc_spec call) j' = Inr j" by (auto simp: out_def split: option.splits)
    moreover have "is_id (ts_name (vc_spec call))" using assms(2) by (simp add: tool_ok_def)
    ultimately show ?thesis
      using serialize_observation_ok [OF assms(1) _ assms(3), of "ts_name (vc_spec call)" j] assms(4)
      by (cases "serialize_observation co (ts_name (vc_spec call)) j max_bytes") (auto simp: E Inr recode_def)
  qed
qed

lemma execute_tool_contained_witness:
  "\<exists>ex. execute_tool demo_codec (demo_validated ''get'' READ_ONLY) \<lparr>tx_run_id = 1, tx_agent_id = lit ''a'', tx_deadline_at = 9\<rparr>
       5 100 True 0 = Inr ex \<and> (\<exists>ob. ex_observation ex = Some ob \<and> ob_size ob \<le> 100)"
proof -
  define r where "r = execute_tool demo_codec (demo_validated ''get'' READ_ONLY)
    \<lparr>tx_run_id = 1, tx_agent_id = lit ''a'', tx_deadline_at = 9\<rparr> 5 100 True 0"
  have "codec_ok demo_codec"
    by (simp add: codec_ok_def demo_codec_def is_dumps_error_def sha256_def is_hex_lower_def list_all_iff)
  moreover have "tool_ok (vc_spec (demo_validated ''get'' READ_ONLY))"
    by (simp add: tool_ok_def demo_validated_def demo_tool_def is_text_def lit_def strip_by_def is_white_def)
  ultimately have c: "case r of Inl e \<Rightarrow> is_agent_error e
      | Inr ex \<Rightarrow> (\<exists>j. ts_output (vc_spec (demo_validated ''get'' READ_ONLY)) j = Inr (ex_output ex))
        \<and> (if True then \<exists>ob. ex_observation ex = Some ob
             \<and> observation_fits (ts_name (vc_spec (demo_validated ''get'' READ_ONLY))) 100 ob
           else ex_observation ex = None)"
    unfolding r_def by (rule execute_tool_contained) simp_all
  have "is_ok r" unfolding r_def by code_simp
  then obtain ex where "r = Inr ex" by (auto simp: is_ok_iff)
  with c show ?thesis by (auto simp: r_def observation_fits_def)
qed
end
