(* ===== verification/Retry.thy ===== *)
theory Retry
  imports Contracts
begin

text \<open>
  The circuit breaker and the resilient model client (\<^verbatim>\<open>agent_runtime/retry.py\<close>). Clock readings,
  random numbers, the provider's replies and what other tasks do to the shared breaker while a
  call is suspended are inputs, one record per attempt of the retry loop. Times of the breaker
  and delays are doubles; \<^verbatim>\<open>datetime\<close> values are microseconds.
\<close>

section \<open>The circuit breaker\<close>

datatype circuit_state = CLOSED | OPEN | HALF_OPEN

record breaker_policy =
  bp_threshold :: int
  bp_recovery :: double

definition validate_CircuitBreakerPolicy :: "breaker_policy \<Rightarrow> exn + breaker_policy" where
  "validate_CircuitBreakerPolicy p =
     (if 0 < bp_threshold p \<and> 0 < bp_recovery p then Inr p else Inl ValidationError)"

record breaker =
  cb_state :: circuit_state
  cb_failures :: int
  cb_opened_at :: "double option"
  cb_probe :: bool

definition new_breaker :: breaker where
  "new_breaker = \<lparr>cb_state = CLOSED, cb_failures = 0, cb_opened_at = None, cb_probe = False\<rparr>"

definition circuit_open_error :: exn where
  "circuit_open_error = AgentRuntimeError FAIL_CIRCUIT_OPEN"

text \<open>The second half of \<^verbatim>\<open>before_call\<close>: take the probe lease when half open.\<close>

definition take_probe :: "breaker \<Rightarrow> (exn + unit) \<times> breaker" where
  "take_probe b =
     (if cb_state b = HALF_OPEN then
        if cb_probe b then (Inl circuit_open_error, b) else (Inr (), b\<lparr>cb_probe := True\<rparr>)
      else (Inr (), b))"

definition before_call :: "breaker_policy \<Rightarrow> double \<Rightarrow> breaker \<Rightarrow> (exn + unit) \<times> breaker" where
  "before_call p now b =
     (if cb_state b = OPEN then
        case cb_opened_at b of
          None \<Rightarrow> (Inl AssertionError, b)
        | Some t \<Rightarrow>
            if dbl_sub now t < bp_recovery p then (Inl circuit_open_error, b)
            else take_probe (b\<lparr>cb_state := HALF_OPEN\<rparr>)
      else take_probe b)"

definition record_success :: "breaker \<Rightarrow> breaker" where
  "record_success b = b\<lparr>cb_state := CLOSED, cb_failures := 0, cb_opened_at := None, cb_probe := False\<rparr>"

definition open_circuit :: "double \<Rightarrow> breaker \<Rightarrow> breaker" where
  "open_circuit now b = b\<lparr>cb_state := OPEN, cb_opened_at := Some now, cb_failures := 0\<rparr>"

definition record_failure :: "breaker_policy \<Rightarrow> double \<Rightarrow> breaker \<Rightarrow> breaker" where
  "record_failure p now b =
     (let b1 = b\<lparr>cb_probe := False\<rparr> in
      if cb_state b1 = HALF_OPEN then open_circuit now b1
      else let b2 = b1\<lparr>cb_failures := cb_failures b1 + 1\<rparr>
           in if bp_threshold p \<le> cb_failures b2 then open_circuit now b2 else b2)"

definition record_aborted :: "breaker \<Rightarrow> breaker" where
  "record_aborted b = (if cb_state b = HALF_OPEN then b\<lparr>cb_probe := False\<rparr> else b)"

lemmas breaker_ops = before_call_def take_probe_def record_success_def record_failure_def
  record_aborted_def open_circuit_def Let_def

section \<open>Retry policy\<close>

record retry_policy =
  rp_max_attempts :: int
  rp_base_delay :: double
  rp_max_delay :: double
  rp_max_retry_after :: double

definition validate_RetryPolicy :: "retry_policy \<Rightarrow> exn + retry_policy" where
  "validate_RetryPolicy p =
     (if \<not> (0 < rp_max_attempts p \<and> 0 < rp_base_delay p \<and> 0 < rp_max_delay p \<and> 0 < rp_max_retry_after p)
        then Inl ValidationError
      else if 3 < rp_max_attempts p then Inl ValidationError
      else if rp_max_delay p < rp_base_delay p then Inl ValidationError
      else Inr p)"

definition is_retryable :: "agent_failure_code \<Rightarrow> bool" where
  "is_retryable c \<longleftrightarrow> c \<in> {FAIL_PROVIDER_TRANSPORT, FAIL_PROVIDER_TIMEOUT, FAIL_PROVIDER_TOOL_USE_FAILED,
     FAIL_PROVIDER_RATE_LIMITED, FAIL_PROVIDER_SERVER}"

text \<open>\<open>retry_after\<close> is the error's attribute when it is a number.\<close>

definition retry_delay :: "double option \<Rightarrow> nat \<Rightarrow> retry_policy \<Rightarrow> double \<Rightarrow> double" where
  "retry_delay retry_after attempt p random =
     (case retry_after of
        Some r \<Rightarrow> if 0 \<le> r then min r (rp_max_retry_after p) else
          dbl_mul (min (dbl_mul (rp_base_delay p) (2 ^ attempt)) (rp_max_delay p))
            (dbl_add (1 / 2) (dbl_mul (1 / 2) (min (max random 0) 1)))
      | None \<Rightarrow>
          dbl_mul (min (dbl_mul (rp_base_delay p) (2 ^ attempt)) (rp_max_delay p))
            (dbl_add (1 / 2) (dbl_mul (1 / 2) (min (max random 0) 1))))"

definition deadline_error :: exn where
  "deadline_error = AgentRuntimeError FAIL_DEADLINE_EXCEEDED"

definition remaining_seconds :: "int \<Rightarrow> int \<Rightarrow> exn + double" where
  "remaining_seconds deadline now =
     (let r = dbl (of_int (deadline - now) / 1000000)
      in if r \<le> 0 then Inl deadline_error else Inr r)"

section \<open>The retry loop of complete\<close>

text \<open>What the provider does in one attempt; \<open>Raises\<close> is any other exception or a cancellation.\<close>

datatype 'r reply = Reply 'r | Timeout | Error agent_failure_code "double option" | Raises exn

text \<open>The wait between two attempts.\<close>

datatype sleep_end = Woke | Expired | Interrupted exn

record retry_wait =
  wa_random :: double
  wa_now_delay :: int
  wa_now_sleep :: int
  wa_sleep :: sleep_end

record 'r attempt =
  at_now_call :: int
  at_reply :: "'r reply"
  at_clock_failure :: double
  at_clock_admit :: double
  at_wait :: retry_wait
  at_others_call :: "breaker \<Rightarrow> breaker"
  at_others_sleep :: "breaker \<Rightarrow> breaker"

datatype call_log = Called nat | Slept double

record 'r outcome =
  oc_result :: "exn + 'r"
  oc_breaker :: breaker
  oc_log :: "call_log list"

definition finish :: "exn + 'r \<Rightarrow> breaker \<Rightarrow> call_log list \<Rightarrow> 'r outcome" where
  "finish r b l = \<lparr>oc_result = r, oc_breaker = b, oc_log = l\<rparr>"

definition wait_for_retry ::
  "retry_policy \<Rightarrow> int \<Rightarrow> retry_wait \<Rightarrow> double option \<Rightarrow> nat \<Rightarrow> exn + double" where
  "wait_for_retry rp deadline w retry_after attempt =
     (let delay = retry_delay retry_after attempt rp (wa_random w) in
      bindE (remaining_seconds deadline (wa_now_delay w)) (\<lambda>left.
      if left \<le> delay then Inl deadline_error
      else bindE (remaining_seconds deadline (wa_now_sleep w)) (\<lambda>_.
           case wa_sleep w of Woke \<Rightarrow> Inr delay | Expired \<Rightarrow> Inl deadline_error
             | Interrupted e \<Rightarrow> Inl e)))"

fun complete_loop ::
  "retry_policy \<Rightarrow> breaker_policy \<Rightarrow> int \<Rightarrow> (nat \<Rightarrow> 'r attempt) \<Rightarrow> nat list \<Rightarrow> breaker \<Rightarrow> call_log list
     \<Rightarrow> 'r outcome"
and complete_error ::
  "retry_policy \<Rightarrow> breaker_policy \<Rightarrow> int \<Rightarrow> (nat \<Rightarrow> 'r attempt) \<Rightarrow> nat \<Rightarrow> nat list \<Rightarrow> breaker \<Rightarrow> call_log list
     \<Rightarrow> agent_failure_code \<Rightarrow> double option \<Rightarrow> 'r outcome" where
  "complete_loop rp bp deadline env [] b lg = finish (Inl AssertionError) b lg"
| "complete_loop rp bp deadline env (a # as) b lg =
     (case remaining_seconds deadline (at_now_call (env a)) of
        Inl e \<Rightarrow> finish (Inl e) b lg
      | Inr _ \<Rightarrow>
          let b1 = at_others_call (env a) b; log1 = lg @ [Called a] in
          (case at_reply (env a) of
             Reply r \<Rightarrow> finish (Inr r) (record_success b1) log1
           | Raises e \<Rightarrow> finish (Inl e) b1 log1
           | Timeout \<Rightarrow> complete_error rp bp deadline env a as b1 log1 FAIL_PROVIDER_TIMEOUT None
           | Error c ra \<Rightarrow> complete_error rp bp deadline env a as b1 log1 c ra))"
| "complete_error rp bp deadline env a as b lg c ra =
     (if \<not> is_retryable c then finish (Inl (AgentRuntimeError c)) b lg
      else let b1 = record_failure bp (at_clock_failure (env a)) b in
      if as = [] then finish (Inl (AgentRuntimeError c)) b1 lg
      else case before_call bp (at_clock_admit (env a)) b1 of
             (Inl e, b2) \<Rightarrow> finish (Inl e) b2 lg
           | (Inr _, b2) \<Rightarrow>
               (case wait_for_retry rp deadline (at_wait (env a)) ra a of
                  Inl e \<Rightarrow> finish (Inl e) b2 lg
                | Inr d \<Rightarrow>
                    complete_loop rp bp deadline env as (at_others_sleep (env a) b2) (lg @ [Slept d])))"

text \<open>
  The semaphore: \<open>ca_acquired\<close> tells whether a permit was free before the deadline. It is
  released on every way out, so a call leaves the number of permits as it was.
\<close>

record client =
  cl_retry :: retry_policy
  cl_breaker_policy :: breaker_policy
  cl_breaker :: breaker
  cl_permits :: int

record 'r call =
  ca_deadline :: int
  ca_now :: int
  ca_acquired :: bool
  ca_clock :: double
  ca_attempts :: "nat \<Rightarrow> 'r attempt"

definition complete_admitted :: "client \<Rightarrow> 'r call \<Rightarrow> 'r outcome" where
  "complete_admitted c call =
     (case before_call (cl_breaker_policy c) (ca_clock call) (cl_breaker c) of
        (Inl e, b) \<Rightarrow> finish (Inl e) b []
      | (Inr _, b) \<Rightarrow>
          complete_loop (cl_retry c) (cl_breaker_policy c) (ca_deadline call) (ca_attempts call)
            [0..<nat (rp_max_attempts (cl_retry c))] b [])"

definition acquire_permit :: "client \<Rightarrow> 'r call \<Rightarrow> exn + client" where
  "acquire_permit c call =
     bindE (remaining_seconds (ca_deadline call) (ca_now call)) (\<lambda>_.
       if ca_acquired call then Inr (c\<lparr>cl_permits := cl_permits c - 1\<rparr>) else Inl deadline_error)"

definition release_permit :: "client \<Rightarrow> client" where
  "release_permit c = c\<lparr>cl_permits := cl_permits c + 1\<rparr>"

definition complete_call :: "client \<Rightarrow> 'r call \<Rightarrow> (exn + 'r) \<times> client \<times> call_log list" where
  "complete_call c call =
     (case acquire_permit c call of
        Inl e \<Rightarrow> (Inl e, c, [])
      | Inr c1 \<Rightarrow>
          let oc = complete_admitted c1 call
          in (oc_result oc, release_permit (c1\<lparr>cl_breaker := oc_breaker oc\<rparr>), oc_log oc))"

section \<open>Streaming\<close>

text \<open>
  One attempt of \<^verbatim>\<open>_stream\<close>: the events the provider's iterator yields and how it ends.
  \<open>Interrupt\<close> is a cancellation or the consumer closing the generator.
\<close>

datatype stream_end = Ends | Fails agent_failure_code "double option" | Breaks | Interrupt exn

record stream_attempt =
  sa_clock :: double
  sa_events :: "stream_event list"
  sa_end :: stream_end
  sa_clock_failure :: double
  sa_clock_admit :: double
  sa_wait :: retry_wait
  sa_others_call :: "breaker \<Rightarrow> breaker"
  sa_others_sleep :: "breaker \<Rightarrow> breaker"

record stream_outcome =
  so_delivered :: "stream_event list"
  so_result :: "exn + stream_event"
  so_breaker :: breaker
  so_log :: "call_log list"

definition stream_finish ::
  "stream_event list \<Rightarrow> exn + stream_event \<Rightarrow> breaker \<Rightarrow> call_log list \<Rightarrow> stream_outcome" where
  "stream_finish d r b l = \<lparr>so_delivered = d, so_result = r, so_breaker = b, so_log = l\<rparr>"

text \<open>The last completed event, and the events passed on.\<close>

definition completed_event :: "stream_event list \<Rightarrow> stream_event option" where
  "completed_event es = (case rev (filter (\<lambda>e. se_type e = COMPLETED) es) of [] \<Rightarrow> None | e # _ \<Rightarrow> Some e)"

definition passed_on :: "stream_event list \<Rightarrow> stream_event list" where
  "passed_on es = filter (\<lambda>e. se_type e \<noteq> COMPLETED) es"

fun stream_loop ::
  "retry_policy \<Rightarrow> breaker_policy \<Rightarrow> int \<Rightarrow> (nat \<Rightarrow> stream_attempt) \<Rightarrow> nat list \<Rightarrow> breaker
     \<Rightarrow> call_log list \<Rightarrow> stream_outcome"
and stream_error ::
  "retry_policy \<Rightarrow> breaker_policy \<Rightarrow> int \<Rightarrow> (nat \<Rightarrow> stream_attempt) \<Rightarrow> nat \<Rightarrow> nat list \<Rightarrow> breaker
     \<Rightarrow> call_log list \<Rightarrow> stream_event list \<Rightarrow> agent_failure_code \<Rightarrow> double option \<Rightarrow> stream_outcome" where
  "stream_loop rp bp deadline env [] b lg = stream_finish [] (Inl AssertionError) b lg"
| "stream_loop rp bp deadline env (a # as) b lg =
     (case before_call bp (sa_clock (env a)) b of
        (Inl (AgentRuntimeError c), b1) \<Rightarrow> stream_finish [] (Inl (AgentRuntimeError c)) b1 lg
      | (Inl _, b1) \<Rightarrow> stream_finish [] (Inl (AgentRuntimeError FAIL_MALFORMED_PROVIDER_RESPONSE)) b1 lg
      | (Inr _, b1) \<Rightarrow>
          let b2 = sa_others_call (env a) b1; es = sa_events (env a); lg1 = lg @ [Called a] in
          (case sa_end (env a) of
             Ends \<Rightarrow>
               (case completed_event es of
                  Some e \<Rightarrow> stream_finish (passed_on es) (Inr e) (record_success b2) lg1
                | None \<Rightarrow>
                    stream_error rp bp deadline env a as b2 lg1 es FAIL_MALFORMED_PROVIDER_RESPONSE None)
           | Fails c ra \<Rightarrow> stream_error rp bp deadline env a as b2 lg1 es c ra
           | Breaks \<Rightarrow>
               stream_finish (passed_on es) (Inl (AgentRuntimeError FAIL_MALFORMED_PROVIDER_RESPONSE))
                 (record_failure bp (sa_clock_failure (env a)) b2) lg1
           | Interrupt e \<Rightarrow> stream_finish (passed_on es) (Inl e) (record_aborted b2) lg1))"
| "stream_error rp bp deadline env a as b lg es c ra =
     (let b1 = if c \<noteq> FAIL_CIRCUIT_OPEN then record_failure bp (sa_clock_failure (env a)) b else b in
      if es \<noteq> [] \<or> \<not> is_retryable c \<or> as = []
        then stream_finish (passed_on es) (Inl (AgentRuntimeError c)) b1 lg
      else case before_call bp (sa_clock_admit (env a)) b1 of
             (Inl e, b2) \<Rightarrow> stream_finish [] (Inl e) b2 lg
           | (Inr _, b2) \<Rightarrow>
               let b3 = record_aborted b2 in
               (case wait_for_retry rp deadline (sa_wait (env a)) ra a of
                  Inl e \<Rightarrow> stream_finish [] (Inl e) b3 lg
                | Inr d \<Rightarrow>
                    stream_loop rp bp deadline env as (sa_others_sleep (env a) b3) (lg @ [Slept d])))"

section \<open>Invariant of the breaker\<close>

definition wf_breaker :: "breaker_policy \<Rightarrow> breaker \<Rightarrow> bool" where
  "wf_breaker p b \<longleftrightarrow>
     0 \<le> cb_failures b \<and> cb_failures b < bp_threshold p
     \<and> (cb_state b = OPEN \<longrightarrow> cb_opened_at b \<noteq> None) \<and> (cb_probe b \<longrightarrow> cb_state b = HALF_OPEN)"

text \<open>Everything a task may do to the shared breaker, in any order and at any time.\<close>

inductive breaker_step :: "breaker_policy \<Rightarrow> breaker \<Rightarrow> breaker \<Rightarrow> bool" for p where
  admit: "breaker_step p b (snd (before_call p now b))"
| success: "breaker_step p b (record_success b)"
| failure: "breaker_step p b (record_failure p now b)"
| aborted: "breaker_step p b (record_aborted b)"

inductive breaker_reachable :: "breaker_policy \<Rightarrow> breaker \<Rightarrow> bool" for p where
  init: "breaker_reachable p new_breaker"
| step: "breaker_reachable p b \<Longrightarrow> breaker_step p b b' \<Longrightarrow> breaker_reachable p b'"

inductive_cases breaker_step_cases: "breaker_step p b b'"

lemma reachable_failure: "breaker_reachable p b \<Longrightarrow> breaker_reachable p (record_failure p now b)"
  by (rule breaker_reachable.step [OF _ breaker_step.failure])

lemma wf_new_breaker: "0 < bp_threshold p \<Longrightarrow> wf_breaker p new_breaker"
  by (simp add: wf_breaker_def new_breaker_def)

lemma wf_before_call: "wf_breaker p b \<Longrightarrow> wf_breaker p (snd (before_call p now b))"
  by (auto simp: wf_breaker_def breaker_ops split: circuit_state.splits option.splits)

lemma wf_record_success: "0 < bp_threshold p \<Longrightarrow> wf_breaker p (record_success b)"
  by (simp add: wf_breaker_def breaker_ops)

lemma wf_record_failure: "wf_breaker p b \<Longrightarrow> wf_breaker p (record_failure p now b)"
  by (auto simp: wf_breaker_def breaker_ops split: circuit_state.splits)

lemma wf_record_aborted: "wf_breaker p b \<Longrightarrow> wf_breaker p (record_aborted b)"
  by (auto simp: wf_breaker_def breaker_ops split: circuit_state.splits)

lemmas wf_breaker_ops = wf_before_call wf_record_success wf_record_failure wf_record_aborted

lemma reachable_wf: "0 < bp_threshold p \<Longrightarrow> breaker_reachable p b \<Longrightarrow> wf_breaker p b"
  by (rotate_tac, induction rule: breaker_reachable.induct)
    (auto elim!: breaker_step_cases simp: wf_new_breaker wf_breaker_ops)

section \<open>Admission\<close>

lemma before_call_states:
  "wf_breaker p b \<Longrightarrow> before_call p now b =
     (case cb_state b of
        CLOSED \<Rightarrow> (Inr (), b)
      | OPEN \<Rightarrow> if dbl_sub now (the (cb_opened_at b)) < bp_recovery p then (Inl circuit_open_error, b)
          else (Inr (), b\<lparr>cb_state := HALF_OPEN, cb_probe := True\<rparr>)
      | HALF_OPEN \<Rightarrow> if cb_probe b then (Inl circuit_open_error, b) else (Inr (), b\<lparr>cb_probe := True\<rparr>))"
  by (auto simp: wf_breaker_def breaker_ops split: circuit_state.splits option.splits)

lemma held_probe_rejects:
  "cb_state b = HALF_OPEN \<Longrightarrow> cb_probe b \<Longrightarrow> before_call p now b = (Inl circuit_open_error, b)"
  by (simp add: breaker_ops)

text \<open>
  Property C15. In every state the breaker can reach, whatever the order of calls, successes,
  failures and aborts of concurrent tasks: a closed circuit admits every call; an open one
  rejects until the recovery time has passed and then admits one probe; while the probe is held
  every other call is rejected and changes nothing.
\<close>

theorem breaker_admission:
  assumes "0 < bp_threshold p" and "breaker_reachable p b"
  shows "0 \<le> cb_failures b \<and> cb_failures b < bp_threshold p
    \<and> (cb_state b = CLOSED \<longrightarrow> before_call p now b = (Inr (), b))
    \<and> (cb_state b = OPEN \<longrightarrow> (\<exists>t. cb_opened_at b = Some t
         \<and> before_call p now b =
             (if dbl_sub now t < bp_recovery p then (Inl circuit_open_error, b)
              else (Inr (), b\<lparr>cb_state := HALF_OPEN, cb_probe := True\<rparr>))))
    \<and> (cb_state b = HALF_OPEN \<and> cb_probe b \<longrightarrow> before_call p now b = (Inl circuit_open_error, b))
    \<and> (cb_state b = HALF_OPEN \<and> \<not> cb_probe b \<longrightarrow> before_call p now b = (Inr (), b\<lparr>cb_probe := True\<rparr>))"
  using reachable_wf [OF assms] before_call_states [OF reachable_wf [OF assms], of now]
  by (auto simp: wf_breaker_def)

definition default_breaker_policy :: breaker_policy where
  "default_breaker_policy = \<lparr>bp_threshold = 3, bp_recovery = 10\<rparr>"

lemma breaker_admission_witness:
  "\<exists>t. cb_opened_at (record_failure default_breaker_policy 2
      (record_failure default_breaker_policy 1 (record_failure default_breaker_policy 0 new_breaker))) = Some t"
proof -
  have "breaker_reachable default_breaker_policy (record_failure default_breaker_policy 2
      (record_failure default_breaker_policy 1 (record_failure default_breaker_policy 0 new_breaker)))"
    by (intro reachable_failure breaker_reachable.init)
  moreover have "cb_state (record_failure default_breaker_policy 2
      (record_failure default_breaker_policy 1 (record_failure default_breaker_policy 0 new_breaker))) = OPEN"
    by code_simp
  moreover have "0 < bp_threshold default_breaker_policy" by (simp add: default_breaker_policy_def)
  ultimately show ?thesis using breaker_admission by blast
qed

text \<open>
  Property C16. The circuit opens exactly at the threshold: from a closed circuit without recorded
  failures, \<open>n\<close> failures in a row leave it closed when \<open>n\<close> is below the threshold, and the
  threshold-th failure opens it at the clock reading of that failure.
\<close>

theorem breaker_opens_at_threshold:
  assumes "cb_state b = CLOSED" "cb_failures b = 0" and "int (length ts) < bp_threshold p"
  shows "cb_state (foldl (\<lambda>b t. record_failure p t b) b ts) = CLOSED
    \<and> (int (length ts) + 1 = bp_threshold p \<longrightarrow>
        cb_state (foldl (\<lambda>b t. record_failure p t b) b (ts @ [t])) = OPEN
        \<and> cb_opened_at (foldl (\<lambda>b t. record_failure p t b) b (ts @ [t])) = Some t)"
proof -
  have "cb_state (foldl (\<lambda>b t. record_failure p t b) b ts) = CLOSED
      \<and> cb_failures (foldl (\<lambda>b t. record_failure p t b) b ts) = int (length ts)"
    using assms by (induction ts rule: rev_induct) (auto simp: breaker_ops)
  then show ?thesis by (auto simp: breaker_ops)
qed

lemma breaker_opens_at_threshold_witness:
  "cb_state (foldl (\<lambda>b t. record_failure default_breaker_policy t b) new_breaker [1, 2, 3]) = OPEN"
  using breaker_opens_at_threshold [of new_breaker "[1, 2]" default_breaker_policy 3]
  by (simp add: new_breaker_def default_breaker_policy_def)

section \<open>Delays\<close>

definition exact_retry_policy :: "retry_policy \<Rightarrow> bool" where
  "exact_retry_policy p \<longleftrightarrow> is_valid validate_RetryPolicy p \<and> dbl (rp_max_delay p) = rp_max_delay p"

lemma dbl_half [simp]: "dbl (1 / 2) = 1 / 2"
  using dbl_exact [of 1 "- 1"] by (simp add: power_int_def)

lemma jitter_bounds:
  "1 / 2 \<le> dbl_add (1 / 2) (dbl_mul (1 / 2) (min (max r 0) 1))"
  "dbl_add (1 / 2) (dbl_mul (1 / 2) (min (max r 0) 1)) \<le> 1"
proof -
  define z where "z = dbl_mul (1 / 2) (min (max r 0) 1)"
  have "dbl 0 \<le> z" unfolding z_def dbl_mul_def by (rule dbl_mono) simp
  then have z0: "0 \<le> z" by simp
  have "z \<le> dbl (1 / 2)" unfolding z_def dbl_mul_def by (rule dbl_mono) simp
  then have z1: "z \<le> 1 / 2" by simp
  have "dbl (1 / 2) \<le> dbl_add (1 / 2) z" unfolding dbl_add_def by (rule dbl_mono) (use z0 in simp)
  then show "1 / 2 \<le> dbl_add (1 / 2) (dbl_mul (1 / 2) (min (max r 0) 1))" by (simp add: z_def)
  have "dbl_add (1 / 2) z \<le> dbl 1" unfolding dbl_add_def by (rule dbl_mono) (use z1 in simp)
  then show "dbl_add (1 / 2) (dbl_mul (1 / 2) (min (max r 0) 1)) \<le> 1" by (simp add: z_def)
qed

lemma backoff_bounds:
  fixes n :: nat
  assumes "exact_retry_policy p"
  defines "x \<equiv> min (dbl_mul (rp_base_delay p) (2 ^ n)) (rp_max_delay p)"
  shows "0 \<le> x" "dbl x = x" "x \<le> rp_max_delay p"
  using assms
  by (auto simp: exact_retry_policy_def is_valid_iff validate_RetryPolicy_def min_def dbl_mul_def dbl_idem
      split: if_splits intro!: dbl_nonneg)

lemma retry_delay_bounds:
  assumes "exact_retry_policy p"
  shows "0 \<le> retry_delay ra n p r" "retry_delay ra n p r \<le> max (rp_max_delay p) (rp_max_retry_after p)"
proof -
  have pos: "0 < rp_max_retry_after p"
    using assms by (auto simp: exact_retry_policy_def is_valid_iff validate_RetryPolicy_def split: if_splits)
  define x where "x = min (dbl_mul (rp_base_delay p) (2 ^ n)) (rp_max_delay p)"
  define y where "y = dbl_add (1 / 2) (dbl_mul (1 / 2) (min (max r 0) 1))"
  note B = backoff_bounds [OF assms, of n, folded x_def]
  note J = dbl_mul_bounds [OF B(2,1), of y] jitter_bounds [of r, folded y_def]
  have xy: "0 \<le> dbl_mul x y" "dbl_mul x y \<le> rp_max_delay p"
    using J B by (auto simp: y_def intro: order_trans)
  have eq: "retry_delay ra n p r =
      (case ra of Some q \<Rightarrow> if 0 \<le> q then min q (rp_max_retry_after p) else dbl_mul x y | None \<Rightarrow> dbl_mul x y)"
    by (cases ra) (simp_all add: retry_delay_def x_def y_def)
  show "0 \<le> retry_delay ra n p r" unfolding eq using xy pos by (auto split: option.splits)
  show "retry_delay ra n p r \<le> max (rp_max_delay p) (rp_max_retry_after p)"
    unfolding eq using xy by (auto split: option.splits)
qed

section \<open>The retry loop is bounded\<close>

definition called :: "call_log list \<Rightarrow> nat list" where
  "called lg = concat (map (\<lambda>x. case x of Called a \<Rightarrow> [a] | Slept d \<Rightarrow> []) lg)"

lemma called_simps [simp]:
  "called [] = []" "called (x @ y) = called x @ called y" "called [Called a] = [a]" "called [Slept d] = []"
  by (simp_all add: called_def)

fun retryable_reply :: "'r reply \<Rightarrow> bool" where
  "retryable_reply Timeout = True"
| "retryable_reply (Error c ra) = is_retryable c"
| "retryable_reply _ = False"

definition retried_only_retryable :: "(nat \<Rightarrow> 'r attempt) \<Rightarrow> nat list \<Rightarrow> bool" where
  "retried_only_retryable env ns \<longleftrightarrow> list_all (\<lambda>a. retryable_reply (at_reply (env a))) (butlast ns)"

definition delays_ok :: "retry_policy \<Rightarrow> call_log list \<Rightarrow> bool" where
  "delays_ok rp lg \<longleftrightarrow>
     list_all (\<lambda>x. case x of Called _ \<Rightarrow> True
       | Slept d \<Rightarrow> 0 \<le> d \<and> d \<le> max (rp_max_delay rp) (rp_max_retry_after rp)) lg"

lemma delays_ok_simps [simp]:
  "delays_ok rp []" "delays_ok rp (x @ y) \<longleftrightarrow> delays_ok rp x \<and> delays_ok rp y"
  "delays_ok rp (Called a # y) \<longleftrightarrow> delays_ok rp y"
  by (auto simp: delays_ok_def)

lemma wait_delay:
  "exact_retry_policy rp \<Longrightarrow> wait_for_retry rp deadline w ra a = Inr d \<Longrightarrow> delays_ok rp [Slept d]"
  using retry_delay_bounds [of rp ra a "wa_random w"]
  by (auto simp: wait_for_retry_def Let_def result_iffs delays_ok_def split: if_splits sleep_end.splits)

declare complete_error.simps [simp del] stream_error.simps [simp del]

lemma complete_loop_delays:
  "exact_retry_policy rp \<Longrightarrow> delays_ok rp lg \<Longrightarrow>
     delays_ok rp (oc_log (complete_loop rp bp deadline env ns b lg))"
  "exact_retry_policy rp \<Longrightarrow> delays_ok rp lg \<Longrightarrow>
     delays_ok rp (oc_log (complete_error rp bp deadline env a ns b lg c ra))"
proof (induction rp bp deadline env ns b lg and rp bp deadline env a ns b lg c ra
      rule: complete_loop_complete_error.induct)
  case (2 rp bp deadline env a as b lg)
  then show ?case by (auto simp: finish_def Let_def split: sum.splits reply.splits)
next
  case (3 rp bp deadline env a as b lg c ra)
  then show ?case
    unfolding complete_error.simps [of rp bp deadline env a as b lg c ra]
    by (auto simp: finish_def Let_def wait_delay split: sum.splits prod.splits)
qed (simp add: finish_def)

lemma complete_loop_calls:
  "\<exists>k \<le> length ns. called (oc_log (complete_loop rp bp deadline env ns b lg)) = called lg @ take k ns
     \<and> retried_only_retryable env (take k ns)"
  "\<exists>k \<le> length ns. called (oc_log (complete_error rp bp deadline env a ns b lg c ra)) = called lg @ take k ns
     \<and> retried_only_retryable env (take k ns) \<and> (0 < k \<longrightarrow> is_retryable c)"
proof (induction rp bp deadline env ns b lg and rp bp deadline env a ns b lg c ra
      rule: complete_loop_complete_error.induct)
  case (1 rp bp deadline env b lg)
  then show ?case by (simp add: finish_def retried_only_retryable_def)
next
  case (2 rp bp deadline env a as b lg)
  have one: "\<exists>k \<le> length (a # as). called lg @ [a] = called lg @ take k (a # as)
      \<and> retried_only_retryable env (take k (a # as))"
    by (intro exI [of _ 1]) (simp add: retried_only_retryable_def)
  have zero: "\<exists>k \<le> length (a # as). called lg = called lg @ take k (a # as)
      \<and> retried_only_retryable env (take k (a # as))"
    by (intro exI [of _ 0]) (simp add: retried_only_retryable_def)
  have more: "\<exists>k' \<le> length (a # as). xs = called lg @ take k' (a # as)
      \<and> retried_only_retryable env (take k' (a # as))"
    if "k \<le> length as" "xs = called (lg @ [Called a]) @ take k as" "retried_only_retryable env (take k as)"
      "0 < k \<longrightarrow> retryable_reply (at_reply (env a))" for k xs
    using that by (intro exI [of _ "Suc k"]) (cases k; auto simp: retried_only_retryable_def)
  show ?case
  proof (cases "remaining_seconds deadline (at_now_call (env a))")
    case (Inl e)
    then show ?thesis using zero by (simp add: finish_def)
  next
    case (Inr x)
    show ?thesis
    proof (cases "at_reply (env a)")
      case (Reply r)
      then show ?thesis using Inr one by (simp add: finish_def Let_def)
    next
      case (Raises e)
      then show ?thesis using Inr one by (simp add: finish_def Let_def)
    next
      case Timeout
      define lg1 where "lg1 = lg @ [Called a]"
      from "2.IH"(1) [OF Inr refl refl Timeout] obtain k where k: "k \<le> length as"
        "called (oc_log (complete_loop rp bp deadline env (a # as) b lg)) = called lg1 @ take k as"
        "retried_only_retryable env (take k as)"
        using Inr Timeout by (auto simp: Let_def lg1_def)
      show ?thesis by (rule more [OF k(1) k(2) [unfolded lg1_def] k(3)]) (simp add: Timeout)
    next
      case (Error c ra)
      define lg1 where "lg1 = lg @ [Called a]"
      from "2.IH"(2) [OF Inr refl refl Error] obtain k where k: "k \<le> length as"
        "called (oc_log (complete_loop rp bp deadline env (a # as) b lg)) = called lg1 @ take k as"
        "retried_only_retryable env (take k as)" "0 < k \<longrightarrow> is_retryable c"
        using Inr Error by (auto simp: Let_def lg1_def)
      show ?thesis by (rule more [OF k(1) k(2) [unfolded lg1_def] k(3)]) (use k(4) in \<open>simp add: Error\<close>)
    qed
  qed
next
  case (3 rp bp deadline env a as b lg c ra)
  have zero: "\<exists>k \<le> length as. called lg = called lg @ take k as
      \<and> retried_only_retryable env (take k as) \<and> (0 < k \<longrightarrow> is_retryable c)"
    by (intro exI [of _ 0]) (simp add: retried_only_retryable_def)
  show ?case
    unfolding complete_error.simps [of rp bp deadline env a as b lg c ra]
    using 3 zero by (auto simp: finish_def Let_def split: sum.splits prod.splits)
qed

lemma complete_loop_success:
  "oc_result (complete_loop rp bp deadline env ns b lg) = Inr r \<Longrightarrow>
     cb_state (oc_breaker (complete_loop rp bp deadline env ns b lg)) = CLOSED
     \<and> cb_failures (oc_breaker (complete_loop rp bp deadline env ns b lg)) = 0
     \<and> (\<exists>lg0 a. oc_log (complete_loop rp bp deadline env ns b lg) = lg0 @ [Called a] \<and> at_reply (env a) = Reply r)"
  "oc_result (complete_error rp bp deadline env a ns b lg c ra) = Inr r \<Longrightarrow>
     cb_state (oc_breaker (complete_error rp bp deadline env a ns b lg c ra)) = CLOSED
     \<and> cb_failures (oc_breaker (complete_error rp bp deadline env a ns b lg c ra)) = 0
     \<and> (\<exists>lg0 a'. oc_log (complete_error rp bp deadline env a ns b lg c ra) = lg0 @ [Called a'] \<and> at_reply (env a') = Reply r)"
proof (induction rp bp deadline env ns b lg and rp bp deadline env a ns b lg c ra
      rule: complete_loop_complete_error.induct)
  case (2 rp bp deadline env a as b lg)
  then show ?case
    by (auto simp: finish_def Let_def record_success_def split: sum.splits reply.splits)
next
  case (3 rp bp deadline env a as b lg c ra)
  then show ?case
    unfolding complete_error.simps [of rp bp deadline env a as b lg c ra]
    by (auto simp: finish_def Let_def split: sum.splits prod.splits if_splits)
qed (simp add: finish_def)

text \<open>
  Property C17. A call to the model is bounded and releases its permit: at most three attempts, in
  order, each retry after a retryable failure and after a wait of at most the configured delays;
  a returned response is the reply of the last attempt and leaves the circuit closed without
  recorded failures.
\<close>

theorem complete_call_bounded:
  assumes "exact_retry_policy (cl_retry c)" and "complete_call c call = (r, c', lg)"
  shows "cl_permits c' = cl_permits c \<and> length (called lg) \<le> 3
    \<and> called lg = [0..<length (called lg)]
    \<and> retried_only_retryable (ca_attempts call) (called lg) \<and> delays_ok (cl_retry c) lg
    \<and> (\<forall>x. r = Inr x \<longrightarrow> cb_state (cl_breaker c') = CLOSED \<and> cb_failures (cl_breaker c') = 0
         \<and> called lg \<noteq> [] \<and> at_reply (ca_attempts call (last (called lg))) = Reply x)"
proof (cases "acquire_permit c call")
  case (Inl e)
  then show ?thesis using assms(2) by (auto simp: complete_call_def retried_only_retryable_def)
next
  case (Inr c1)
  then have c1: "c1 = c\<lparr>cl_permits := cl_permits c - 1\<rparr>"
    by (auto simp: acquire_permit_def result_iffs split: if_splits)
  have max: "nat (rp_max_attempts (cl_retry c)) \<le> 3"
    using assms(1) by (auto simp: exact_retry_policy_def is_valid_iff validate_RetryPolicy_def split: if_splits)
  show ?thesis
  proof (cases "before_call (cl_breaker_policy c) (ca_clock call) (cl_breaker c)")
    case (Pair adm b)
    show ?thesis
    proof (cases adm)
      case (Inl e)
      then show ?thesis using assms(2) Inr Pair
        by (auto simp: complete_call_def complete_admitted_def c1 finish_def release_permit_def Let_def
            retried_only_retryable_def)
    next
      case (Inr u)
      define oc where "oc = complete_loop (cl_retry c) (cl_breaker_policy c) (ca_deadline call)
        (ca_attempts call) [0..<nat (rp_max_attempts (cl_retry c))] b []"
      have res: "r = oc_result oc" "lg = oc_log oc" "cl_breaker c' = oc_breaker oc" "cl_permits c' = cl_permits c"
        using assms(2) \<open>acquire_permit c call = Inr c1\<close> Pair Inr
        by (auto simp: complete_call_def complete_admitted_def c1 release_permit_def Let_def oc_def)
      obtain k where k: "k \<le> nat (rp_max_attempts (cl_retry c))" "called lg = [0..<k]"
        "retried_only_retryable (ca_attempts call) (called lg)"
        using complete_loop_calls(1) [of "[0..<nat (rp_max_attempts (cl_retry c))]" "cl_retry c"
            "cl_breaker_policy c" "ca_deadline call" "ca_attempts call" b "[]", folded oc_def]
        by (auto simp: res min_def)
      have "delays_ok (cl_retry c) lg"
        unfolding res oc_def by (rule complete_loop_delays(1) [OF assms(1)]) simp
      moreover have "cb_state (cl_breaker c') = CLOSED \<and> cb_failures (cl_breaker c') = 0
          \<and> called lg \<noteq> [] \<and> at_reply (ca_attempts call (last (called lg))) = Reply x" if "r = Inr x" for x
        using complete_loop_success(1) [of "cl_retry c" "cl_breaker_policy c" "ca_deadline call"
            "ca_attempts call" "[0..<nat (rp_max_attempts (cl_retry c))]" b "[]" x, folded oc_def] that
        by (auto simp: res)
      moreover have "length (called lg) \<le> 3" "called lg = [0..<length (called lg)]" using k max by simp_all
      ultimately show ?thesis using k(3) res(4) by blast
    qed
  qed
qed

section \<open>The probe lease\<close>

definition alone :: "(nat \<Rightarrow> 'r attempt) \<Rightarrow> bool" where
  "alone env \<longleftrightarrow> (\<forall>a. at_others_call (env a) = (\<lambda>b. b) \<and> at_others_sleep (env a) = (\<lambda>b. b))"

text \<open>
  Property C18. A half-open probe that ends in an error that is not retryable is never released:
  once the recovery time of an open circuit has passed, a single call whose provider reply is
  such an error leaves the breaker half open with the lease taken, and from then on every call,
  at any time, is rejected without reaching the provider and leaves the breaker as it is.
\<close>

theorem complete_probe_lease_leak:
  assumes "cb_state (cl_breaker c) = OPEN" "cb_opened_at (cl_breaker c) = Some t"
    and "\<not> cb_probe (cl_breaker c)" and "\<not> dbl_sub (ca_clock call) t < bp_recovery (cl_breaker_policy c)"
    and "is_ok (acquire_permit c call)" and "0 < rp_max_attempts (cl_retry c)"
    and "is_ok (remaining_seconds (ca_deadline call) (at_now_call (ca_attempts call 0)))"
    and "at_others_call (ca_attempts call 0) = (\<lambda>b. b)"
    and "at_reply (ca_attempts call 0) = Error code ra" and "\<not> is_retryable code"
  shows "\<exists>c'. complete_call c call = (Inl (AgentRuntimeError code), c', [Called 0])
    \<and> (\<forall>later :: 'r call list.
         snd (foldl (\<lambda>(lgs, cl) k. case complete_call cl k of (r, cl', lg) \<Rightarrow> (lgs @ [(r, lg)], cl')) ([], c') later) = c'
         \<and> (\<forall>k \<in> set later. complete_call c' k = (Inl circuit_open_error, c', [])
              \<or> complete_call c' k = (Inl deadline_error, c', [])))"
proof -
  obtain c1 where c1: "acquire_permit c call = Inr c1" using assms(5) by (auto simp: is_ok_iff)
  then have c1': "c1 = c\<lparr>cl_permits := cl_permits c - 1\<rparr>"
    by (auto simp: acquire_permit_def result_iffs split: if_splits)
  define b where "b = (cl_breaker c)\<lparr>cb_state := HALF_OPEN, cb_probe := True\<rparr>"
  obtain m where m: "nat (rp_max_attempts (cl_retry c)) = Suc m" using assms(6) by (cases "nat (rp_max_attempts (cl_retry c))") auto
  have admit: "before_call (cl_breaker_policy c) (ca_clock call) (cl_breaker c) = (Inr (), b)"
    using assms(1-4) by (simp add: before_call_def take_probe_def b_def)
  obtain rem where rem: "remaining_seconds (ca_deadline call) (at_now_call (ca_attempts call 0)) = Inr rem"
    using assms(7) by (auto simp: is_ok_iff)
  have loop: "complete_loop (cl_retry c) (cl_breaker_policy c) (ca_deadline call) (ca_attempts call)
      [0..<Suc m] b [] = finish (Inl (AgentRuntimeError code)) b [Called 0]"
    unfolding upt_conv_Cons [OF zero_less_Suc]
    by (simp add: rem assms(8-10) complete_error.simps Let_def)
  define c' where "c' = c\<lparr>cl_breaker := b\<rparr>"
  have first: "complete_call c call = (Inl (AgentRuntimeError code), c', [Called 0])"
    using admit loop m
    by (simp add: complete_call_def c1 c1' complete_admitted_def Let_def finish_def release_permit_def c'_def)
  have stuck: "complete_call c' k = (Inl circuit_open_error, c', []) \<or> complete_call c' k = (Inl deadline_error, c', [])"
    for k :: "'r call"
  proof (cases "acquire_permit c' k")
    case (Inl e)
    then have "e = deadline_error"
      by (auto simp: acquire_permit_def result_iffs remaining_seconds_def Let_def split: if_splits)
    then show ?thesis using Inl by (simp add: complete_call_def)
  next
    case (Inr c2)
    then have "c2 = c'\<lparr>cl_permits := cl_permits c' - 1\<rparr>"
      by (auto simp: acquire_permit_def result_iffs split: if_splits)
    then show ?thesis using Inr held_probe_rejects [of b]
      by (simp add: complete_call_def complete_admitted_def Let_def finish_def release_permit_def c'_def b_def)
  qed
  have "snd (foldl (\<lambda>(lgs, cl) k. case complete_call cl k of (r, cl', lg) \<Rightarrow> (lgs @ [(r, lg)], cl')) (x, c') later) = c'"
    for later :: "'r call list" and x
  proof (induction later arbitrary: x)
    case (Cons k later)
    then show ?case using stuck [of k] by (auto simp: split_beta)
  qed simp
  with first stuck show ?thesis by blast
qed

definition demo_client :: client where
  "demo_client = \<lparr>cl_retry = \<lparr>rp_max_attempts = 3, rp_base_delay = 1 / 4, rp_max_delay = 2, rp_max_retry_after = 5\<rparr>,
     cl_breaker_policy = default_breaker_policy,
     cl_breaker = \<lparr>cb_state = OPEN, cb_failures = 0, cb_opened_at = Some 100, cb_probe = False\<rparr>, cl_permits = 1\<rparr>"

definition demo_attempt :: "nat reply \<Rightarrow> nat attempt" where
  "demo_attempt r = \<lparr>at_now_call = 0, at_reply = r, at_clock_failure = 120, at_clock_admit = 120,
     at_wait = \<lparr>wa_random = 1 / 2, wa_now_delay = 0, wa_now_sleep = 0, wa_sleep = Woke\<rparr>,
     at_others_call = (\<lambda>b. b), at_others_sleep = (\<lambda>b. b)\<rparr>"

definition demo_call :: "nat reply \<Rightarrow> nat call" where
  "demo_call r = \<lparr>ca_deadline = 30000000, ca_now = 0, ca_acquired = True, ca_clock = 120,
     ca_attempts = (\<lambda>_. demo_attempt r)\<rparr>"

lemma demo_remaining: "is_ok (remaining_seconds 30000000 0)"
  by code_simp

lemma complete_probe_lease_leak_witness:
  "\<exists>c'. complete_call demo_client (demo_call (Error FAIL_PROVIDER_AUTHENTICATION None))
       = (Inl (AgentRuntimeError FAIL_PROVIDER_AUTHENTICATION), c', [Called 0])
     \<and> complete_call c' (demo_call (Reply 1)) \<in> {(Inl circuit_open_error, c', []), (Inl deadline_error, c', [])}"
proof -
  have "\<not> dbl_sub 120 100 < 10" by code_simp
  then have "\<exists>c'. complete_call demo_client (demo_call (Error FAIL_PROVIDER_AUTHENTICATION None))
       = (Inl (AgentRuntimeError FAIL_PROVIDER_AUTHENTICATION), c', [Called 0])
     \<and> (\<forall>later :: nat call list.
         snd (foldl (\<lambda>(lgs, cl) k. case complete_call cl k of (r, cl', lg) \<Rightarrow> (lgs @ [(r, lg)], cl')) ([], c') later) = c'
         \<and> (\<forall>k \<in> set later. complete_call c' k = (Inl circuit_open_error, c', [])
              \<or> complete_call c' k = (Inl deadline_error, c', [])))"
    using demo_remaining
    by (intro complete_probe_lease_leak [where t = 100 and ra = None])
      (simp_all add: demo_client_def demo_call_def demo_attempt_def default_breaker_policy_def
        acquire_permit_def is_retryable_def is_ok_iff bindE_Inr_iff)
  then obtain c' where first: "complete_call demo_client (demo_call (Error FAIL_PROVIDER_AUTHENTICATION None))
       = (Inl (AgentRuntimeError FAIL_PROVIDER_AUTHENTICATION), c', [Called 0])"
    and later: "\<forall>k \<in> set [demo_call (Reply 1)]. complete_call c' k = (Inl circuit_open_error, c', [])
              \<or> complete_call c' k = (Inl deadline_error, c', [])"
    by blast
  then show ?thesis by auto
qed

lemma complete_call_bounded_witness:
  "length (called (snd (snd (complete_call demo_client (demo_call Timeout))))) \<le> 3"
proof -
  obtain r c' lg where e: "complete_call demo_client (demo_call Timeout) = (r, c', lg)"
    by (metis prod_cases3)
  have "dbl 2 = 2" by code_simp
  then have "exact_retry_policy (cl_retry demo_client)"
    by (simp add: exact_retry_policy_def is_valid_iff validate_RetryPolicy_def demo_client_def)
  from complete_call_bounded [OF this e] show ?thesis by (simp add: e)
qed

section \<open>Streaming releases the lease and never replays\<close>

definition delivered_by :: "(nat \<Rightarrow> stream_attempt) \<Rightarrow> nat list \<Rightarrow> stream_event list" where
  "delivered_by env ks = (if ks = [] then [] else passed_on (sa_events (env (last ks))))"

definition silent_before :: "(nat \<Rightarrow> stream_attempt) \<Rightarrow> nat list \<Rightarrow> bool" where
  "silent_before env ks \<longleftrightarrow> list_all (\<lambda>a. sa_events (env a) = []) (butlast ks)"

lemma passed_on_nil [simp]: "passed_on [] = []"
  by (simp add: passed_on_def)

lemma stream_loop_calls:
  "\<exists>k \<le> length ns. called (so_log (stream_loop rp bp deadline env ns b lg)) = called lg @ take k ns
     \<and> silent_before env (take k ns)
     \<and> so_delivered (stream_loop rp bp deadline env ns b lg) = delivered_by env (take k ns)"
  "es = sa_events (env a) \<Longrightarrow>
     \<exists>k \<le> length ns. called (so_log (stream_error rp bp deadline env a ns b lg es c ra)) = called lg @ take k ns
     \<and> silent_before env (a # take k ns)
     \<and> so_delivered (stream_error rp bp deadline env a ns b lg es c ra) = delivered_by env (a # take k ns)"
proof (induction rp bp deadline env ns b lg and rp bp deadline env a ns b lg es c ra
      rule: stream_loop_stream_error.induct)
  case (1 rp bp deadline env b lg)
  then show ?case by (simp add: stream_finish_def silent_before_def delivered_by_def)
next
  case (2 rp bp deadline env a as b lg)
  obtain adm b1 where bc: "before_call bp (sa_clock (env a)) b = (adm, b1)" by (cases "before_call bp (sa_clock (env a)) b")
  have zero: "\<exists>k \<le> length (a # as). called lg = called lg @ take k (a # as)
      \<and> silent_before env (take k (a # as)) \<and> [] = delivered_by env (take k (a # as))"
    by (intro exI [of _ 0]) (simp add: silent_before_def delivered_by_def)
  have one: "\<exists>k \<le> length (a # as). called lg @ [a] = called lg @ take k (a # as)
      \<and> silent_before env (take k (a # as)) \<and> passed_on (sa_events (env a)) = delivered_by env (take k (a # as))"
    by (intro exI [of _ 1]) (simp add: silent_before_def delivered_by_def)
  have more: "\<exists>k' \<le> length (a # as). xs = called lg @ take k' (a # as)
      \<and> silent_before env (take k' (a # as)) \<and> d = delivered_by env (take k' (a # as))"
    if "\<exists>k \<le> length as. xs = called (lg @ [Called a]) @ take k as \<and> silent_before env (a # take k as)
      \<and> d = delivered_by env (a # take k as)" for xs d
  proof -
    from that obtain k where k: "k \<le> length as" "xs = called (lg @ [Called a]) @ take k as"
      "silent_before env (a # take k as)" "d = delivered_by env (a # take k as)" by blast
    then show ?thesis by (intro exI [of _ "Suc k"]) simp
  qed
  show ?case
  proof (cases adm)
    case (Inl e)
    then show ?thesis using zero bc by (cases e) (simp_all add: stream_finish_def)
  next
    case (Inr u)
    note bc' = bc [unfolded Inr]
    show ?thesis
    proof (cases "sa_end (env a)")
      case Ends
      show ?thesis
      proof (cases "completed_event (sa_events (env a))")
        case None
        have "stream_loop rp bp deadline env (a # as) b lg =
            stream_error rp bp deadline env a as (sa_others_call (env a) b1) (lg @ [Called a])
              (sa_events (env a)) FAIL_MALFORMED_PROVIDER_RESPONSE None"
          using bc' Ends None by (simp add: Let_def)
        with "2.IH"(1) [OF bc'[symmetric] refl refl refl refl Ends None refl] show ?thesis
          by (simp only: more)
      next
        case (Some e)
        then show ?thesis using one bc' Ends by (simp add: stream_finish_def Let_def)
      qed
    next
      case (Fails c ra)
      have "stream_loop rp bp deadline env (a # as) b lg =
          stream_error rp bp deadline env a as (sa_others_call (env a) b1) (lg @ [Called a]) (sa_events (env a)) c ra"
        using bc' Fails by (simp add: Let_def)
      with "2.IH"(2) [OF bc'[symmetric] refl refl refl refl Fails refl] show ?thesis by (simp only: more)
    next
      case Breaks
      then show ?thesis using one bc' by (simp add: stream_finish_def Let_def)
    next
      case (Interrupt e)
      then show ?thesis using one bc' by (simp add: stream_finish_def Let_def)
    qed
  qed
next
  case (3 rp bp deadline env a as b lg es c ra)
  have zero: "\<exists>k \<le> length as. called lg = called lg @ take k as
      \<and> silent_before env (a # take k as) \<and> passed_on es = delivered_by env (a # take k as)"
    by (intro exI [of _ 0]) (simp add: silent_before_def delivered_by_def 3)
  have more: "\<exists>k' \<le> length as. xs = called lg @ take k' as
      \<and> silent_before env (a # take k' as) \<and> d = delivered_by env (a # take k' as)"
    if "es = []" "as \<noteq> []" "\<exists>k \<le> length as. xs = called (lg @ [Slept y]) @ take k as \<and> silent_before env (take k as)
      \<and> d = delivered_by env (take k as)" for xs d y
  proof -
    from that(3) obtain k where k: "k \<le> length as" "xs = called (lg @ [Slept y]) @ take k as"
      "silent_before env (take k as)" "d = delivered_by env (take k as)" by blast
    then show ?thesis
      using that(1) 3(2) by (intro exI [of _ k]) (auto simp: silent_before_def delivered_by_def)
  qed
  show ?case
  proof (cases "es \<noteq> [] \<or> \<not> is_retryable c \<or> as = []")
    case True
    then show ?thesis using zero
      unfolding stream_error.simps [of rp bp deadline env a as b lg es c ra]
      by (simp add: stream_finish_def Let_def)
  next
    case False
    then have es: "es = []" "as \<noteq> []" by auto
    define b1 where "b1 = (if c \<noteq> FAIL_CIRCUIT_OPEN then record_failure bp (sa_clock_failure (env a)) b else b)"
    obtain adm b2 where bc: "before_call bp (sa_clock_admit (env a)) b1 = (adm, b2)"
      by (cases "before_call bp (sa_clock_admit (env a)) b1")
    show ?thesis
    proof (cases adm)
      case (Inl e)
      then show ?thesis using zero False bc es
        unfolding stream_error.simps [of rp bp deadline env a as b lg es c ra] b1_def [symmetric] Let_def
        by (simp add: stream_finish_def)
    next
      case (Inr u)
      show ?thesis
      proof (cases "wait_for_retry rp deadline (sa_wait (env a)) ra a")
        case (Inl e)
        then show ?thesis using zero False bc es \<open>adm = Inr u\<close>
          unfolding stream_error.simps [of rp bp deadline env a as b lg es c ra] b1_def [symmetric] Let_def
          by (simp add: stream_finish_def)
      next
        case w: (Inr y)
        have "stream_error rp bp deadline env a as b lg es c ra =
            stream_loop rp bp deadline env as (sa_others_sleep (env a) (record_aborted b2)) (lg @ [Slept y])"
          using False bc Inr w
          unfolding stream_error.simps [of rp bp deadline env a as b lg es c ra] b1_def [symmetric] Let_def
          by simp
        with "3.IH" [OF b1_def False bc [symmetric] Inr refl w] show ?thesis
          using more [OF es] by simp
      qed
    qed
  qed
qed

text \<open>No other task uses the breaker during the stream.\<close>

definition stream_alone :: "(nat \<Rightarrow> stream_attempt) \<Rightarrow> bool" where
  "stream_alone env \<longleftrightarrow> (\<forall>a. sa_others_call (env a) = (\<lambda>b. b) \<and> sa_others_sleep (env a) = (\<lambda>b. b))"

text \<open>
  The ending after which nothing gives the lease back: the provider itself raises \<^verbatim>\<open>CIRCUIT_OPEN\<close>, which the
  handler takes for a rejection by its own breaker, while the attempt was the probe of a half-open circuit.
\<close>

definition ends_circuit_open :: "stream_attempt \<Rightarrow> bool" where
  "ends_circuit_open x \<longleftrightarrow> (\<exists>ra. sa_end x = Fails FAIL_CIRCUIT_OPEN ra)"

definition probe_ends_circuit_open :: "(nat \<Rightarrow> stream_attempt) \<Rightarrow> stream_outcome \<Rightarrow> bool" where
  "probe_ends_circuit_open env out \<longleftrightarrow> called (so_log out) \<noteq> []
     \<and> ends_circuit_open (env (last (called (so_log out)))) \<and> cb_state (so_breaker out) = HALF_OPEN"

lemma probe_released:
  "\<not> cb_probe (record_success b)" "\<not> cb_probe (record_failure p now b)"
  "wf_breaker p b \<Longrightarrow> \<not> cb_probe (record_aborted b)"
  by (auto simp: breaker_ops wf_breaker_def)

lemma rejected_unchanged: "before_call p now b = (Inl e, b') \<Longrightarrow> wf_breaker p b \<Longrightarrow> b' = b \<and> e = circuit_open_error"
  by (auto simp: before_call_states split: circuit_state.splits if_splits)

lemma admitted_probe: "wf_breaker p b \<Longrightarrow> before_call p now b = (Inr u, b') \<Longrightarrow> cb_probe b' \<longleftrightarrow> cb_state b' = HALF_OPEN"
  by (auto simp: before_call_states wf_breaker_def split: circuit_state.splits if_splits)

lemma stream_loop_releases:
  "0 < bp_threshold bp \<Longrightarrow> stream_alone env \<Longrightarrow> wf_breaker bp b \<Longrightarrow> \<not> cb_probe b \<Longrightarrow>
     called lg = [] \<or> \<not> ends_circuit_open (env (last (called lg))) \<Longrightarrow>
     wf_breaker bp (so_breaker (stream_loop rp bp deadline env ns b lg))
     \<and> (cb_probe (so_breaker (stream_loop rp bp deadline env ns b lg))
        \<longleftrightarrow> probe_ends_circuit_open env (stream_loop rp bp deadline env ns b lg))"
  "0 < bp_threshold bp \<Longrightarrow> stream_alone env \<Longrightarrow> wf_breaker bp b \<Longrightarrow> called lg \<noteq> [] \<Longrightarrow> last (called lg) = a \<Longrightarrow>
     (ends_circuit_open (env a) \<longleftrightarrow> c = FAIL_CIRCUIT_OPEN) \<Longrightarrow> (cb_probe b \<longleftrightarrow> cb_state b = HALF_OPEN) \<Longrightarrow>
     wf_breaker bp (so_breaker (stream_error rp bp deadline env a ns b lg es c ra))
     \<and> (cb_probe (so_breaker (stream_error rp bp deadline env a ns b lg es c ra))
        \<longleftrightarrow> probe_ends_circuit_open env (stream_error rp bp deadline env a ns b lg es c ra))"
proof (induction rp bp deadline env ns b lg and rp bp deadline env a ns b lg es c ra
      rule: stream_loop_stream_error.induct)
  case (1 rp bp deadline env b lg)
  then show ?case by (auto simp: stream_finish_def probe_ends_circuit_open_def)
next
  case (2 rp bp deadline env a as b lg)
  obtain adm b1 where bc: "before_call bp (sa_clock (env a)) b = (adm, b1)" by (cases "before_call bp (sa_clock (env a)) b")
  have wf1: "wf_breaker bp b1" using wf_before_call [OF "2.prems"(3)] bc by (metis snd_conv)
  show ?case
  proof (cases adm)
    case (Inl e)
    then have "b1 = b \<and> e = circuit_open_error" using bc "2.prems" by (metis rejected_unchanged)
    then show ?thesis using Inl bc "2.prems"
      by (auto simp: stream_finish_def circuit_open_error_def probe_ends_circuit_open_def)
  next
    case (Inr u)
    note bc' = bc [unfolded Inr]
    have own: "sa_others_call (env a) b1 = b1" using "2.prems"(2) by (simp add: stream_alone_def)
    have probe: "cb_probe b1 \<longleftrightarrow> cb_state b1 = HALF_OPEN" by (rule admitted_probe [OF "2.prems"(3) bc'])
    show ?thesis
    proof (cases "sa_end (env a)")
      case Ends
      then have "\<not> ends_circuit_open (env a)" by (simp add: ends_circuit_open_def)
      then show ?thesis
        using bc' own "2.IH"(1) [OF bc' [symmetric] refl refl refl refl Ends _ "2.prems"(1,2)] wf1 "2.prems" probe Ends
        by (auto simp: Let_def stream_finish_def probe_released wf_breaker_ops probe_ends_circuit_open_def split: option.splits)
    next
      case (Fails c ra)
      then have "ends_circuit_open (env a) \<longleftrightarrow> c = FAIL_CIRCUIT_OPEN" by (auto simp: ends_circuit_open_def)
      then show ?thesis
        using bc' own "2.IH"(2) [OF bc' [symmetric] refl refl refl refl Fails "2.prems"(1,2)] wf1 Fails probe
        by (simp add: Let_def)
    next
      case Breaks
      then show ?thesis using bc' own wf1
        by (simp add: Let_def stream_finish_def probe_released wf_breaker_ops probe_ends_circuit_open_def ends_circuit_open_def)
    next
      case (Interrupt e)
      then show ?thesis using bc' own wf1
        by (simp add: Let_def stream_finish_def probe_released wf_breaker_ops probe_ends_circuit_open_def ends_circuit_open_def)
    qed
  qed
next
  case (3 rp bp deadline env a as b lg es c ra)
  note last = "3.prems"(4-6)
  show ?case
  proof (cases "c = FAIL_CIRCUIT_OPEN")
    case True
    then have "stream_error rp bp deadline env a as b lg es c ra = stream_finish (passed_on es) (Inl (AgentRuntimeError c)) b lg"
      unfolding stream_error.simps [of rp bp deadline env a as b lg es c ra] by (simp add: is_retryable_def)
    then show ?thesis using "3.prems" True by (simp add: stream_finish_def probe_ends_circuit_open_def)
  next
    case code: False
    define b1 where "b1 = record_failure bp (sa_clock_failure (env a)) b"
    have b1: "wf_breaker bp b1" "\<not> cb_probe b1"
      using "3.prems" by (simp_all add: b1_def wf_breaker_ops probe_released)
    have b1': "b1 = (if c \<noteq> FAIL_CIRCUIT_OPEN then record_failure bp (sa_clock_failure (env a)) b else b)"
      using code by (simp add: b1_def)
    have quiet: "\<not> ends_circuit_open (env (last (called lg)))" using last code by simp
    obtain adm b2 where bc: "before_call bp (sa_clock_admit (env a)) b1 = (adm, b2)"
      by (cases "before_call bp (sa_clock_admit (env a)) b1")
    have wf2: "wf_breaker bp b2" using wf_before_call [OF b1(1)] bc by (metis snd_conv)
    note E = stream_error.simps [of rp bp deadline env a as b lg es c ra, folded b1', unfolded Let_def]
    show ?thesis
    proof (cases "es \<noteq> [] \<or> \<not> is_retryable c \<or> as = []")
      case True
      then show ?thesis unfolding E using b1 quiet by (simp add: stream_finish_def probe_ends_circuit_open_def)
    next
      case False
      show ?thesis
      proof (cases adm)
        case (Inl e)
        then have "b2 = b1" using bc b1 by (metis rejected_unchanged)
        then show ?thesis unfolding E using False bc Inl b1 quiet by (simp add: stream_finish_def probe_ends_circuit_open_def)
      next
        case (Inr u)
        have wf3: "wf_breaker bp (record_aborted b2)" "\<not> cb_probe (record_aborted b2)"
          using wf2 by (simp_all add: wf_breaker_ops probe_released)
        show ?thesis
        proof (cases "wait_for_retry rp deadline (sa_wait (env a)) ra a")
          case (Inl e)
          then show ?thesis unfolding E using False bc \<open>adm = Inr u\<close> wf3 quiet
            by (simp add: stream_finish_def probe_ends_circuit_open_def)
        next
          case w: (Inr y)
          have own: "sa_others_sleep (env a) x = x" for x using "3.prems"(2) by (simp add: stream_alone_def)
          show ?thesis
            unfolding E using False bc Inr w own wf3 quiet
              "3.IH" [OF b1' False bc [symmetric] Inr refl w "3.prems"(1,2)]
            by simp
        qed
      qed
    qed
  qed
qed

text \<open>
  Property C19. Streaming never replays, and gives its lease back with one exception. Every attempt but the last
  called one ended before yielding anything, so the consumer sees the events of a single attempt. When no other task uses
  the breaker meanwhile, the probe is held after the stream in exactly one case: the last attempt was the probe of a
  half-open circuit and the provider itself raised \<^verbatim>\<open>CIRCUIT_OPEN\<close>; after every other ending (completion, any other
  failure, a break, a cancellation, a rejected or expired retry) it is free.
\<close>

theorem stream_no_replay_and_release:
  assumes "0 < bp_threshold bp" and "stream_alone env" and "wf_breaker bp b" and "\<not> cb_probe b"
  shows "(\<exists>k \<le> length ns. called (so_log (stream_loop rp bp deadline env ns b [])) = take k ns
      \<and> (\<forall>a \<in> set (butlast (take k ns)). sa_events (env a) = [])
      \<and> so_delivered (stream_loop rp bp deadline env ns b []) =
          (if k = 0 \<or> ns = [] then [] else passed_on (sa_events (env (ns ! (k - 1))))))
    \<and> (cb_probe (so_breaker (stream_loop rp bp deadline env ns b []))
       \<longleftrightarrow> probe_ends_circuit_open env (stream_loop rp bp deadline env ns b []))"
proof -
  obtain k where k: "k \<le> length ns" "called (so_log (stream_loop rp bp deadline env ns b [])) = take k ns"
    "silent_before env (take k ns)"
    "so_delivered (stream_loop rp bp deadline env ns b []) = delivered_by env (take k ns)"
    using stream_loop_calls(1) [of ns rp bp deadline env b "[]"] by auto
  have "delivered_by env (take k ns) = (if k = 0 \<or> ns = [] then [] else passed_on (sa_events (env (ns ! (k - 1)))))"
    using k(1) by (auto simp: delivered_by_def last_conv_nth min_def)
  then show ?thesis
    using k stream_loop_releases(1) [OF assms, of "[]"] by (auto simp: silent_before_def list_all_iff)
qed

definition demo_stream :: "agent_failure_code \<Rightarrow> nat \<Rightarrow> stream_attempt" where
  "demo_stream c a = \<lparr>sa_clock = 200, sa_events = [], sa_end = Fails c None,
     sa_clock_failure = 200, sa_clock_admit = 200,
     sa_wait = \<lparr>wa_random = 1 / 2, wa_now_delay = 0, wa_now_sleep = 0, wa_sleep = Woke\<rparr>,
     sa_others_call = (\<lambda>b. b), sa_others_sleep = (\<lambda>b. b)\<rparr>"

text \<open>The same probe with two failures of the provider: the lease is given back, and it is not.\<close>

lemma stream_no_replay_and_release_witness:
  "\<not> cb_probe (so_breaker (stream_loop (cl_retry demo_client) default_breaker_policy 30000000
       (demo_stream FAIL_PROVIDER_AUTHENTICATION) [0, 1, 2] (cl_breaker demo_client) []))
   \<and> cb_probe (so_breaker (stream_loop (cl_retry demo_client) default_breaker_policy 30000000
       (demo_stream FAIL_CIRCUIT_OPEN) [0, 1, 2] (cl_breaker demo_client) []))"
proof -
  have alone: "stream_alone (demo_stream c)" for c by (simp add: stream_alone_def demo_stream_def)
  have ready: "wf_breaker default_breaker_policy (cl_breaker demo_client)" "\<not> cb_probe (cl_breaker demo_client)"
    "0 < bp_threshold default_breaker_policy"
    by (simp_all add: wf_breaker_def demo_client_def default_breaker_policy_def)
  define out where "out c = stream_loop (cl_retry demo_client) default_breaker_policy 30000000 (demo_stream c) [0, 1, 2]
    (cl_breaker demo_client) []" for c
  have "cb_probe (so_breaker (out c)) \<longleftrightarrow> probe_ends_circuit_open (demo_stream c) (out c)" for c
    unfolding out_def using stream_no_replay_and_release [OF ready(3) alone ready(1,2)] by blast
  moreover have "called (so_log (out FAIL_CIRCUIT_OPEN)) = [0]" "cb_state (so_breaker (out FAIL_CIRCUIT_OPEN)) = HALF_OPEN"
    "called (so_log (out FAIL_PROVIDER_AUTHENTICATION)) = [0]"
    unfolding out_def by code_simp+
  ultimately show ?thesis
    unfolding out_def [symmetric] by (simp add: probe_ends_circuit_open_def ends_circuit_open_def demo_stream_def)
qed

end
