(* ===== verification/Lifecycle.thy ===== *)
theory Lifecycle
  imports Contracts "HOL-Library.List_Lexorder"
begin

text \<open>
  Lifecycle events (\<^verbatim>\<open>domain/events.py\<close>) and their recorder (\<^verbatim>\<open>agent_runtime/events.py\<close>): the
  redaction check of payload keys, the hash chain, and the event collector of the workflow
  (\<^verbatim>\<open>workflow/analysis.py\<close>), which re-records agent events into one chain per run. The SHA-256 of
  the canonical JSON document of an event, the clock, \<^verbatim>\<open>str.casefold\<close> and the sink's reaction
  are parameters.
\<close>

section \<open>Events\<close>

datatype scalar = SStr pystr | SInt int | SFloat pyfloat | SBool bool | SNone

type_synonym payload = "(pystr \<times> scalar) list"

record event_content =
  ec_run_id :: uuid
  ec_sequence :: int
  ec_type :: event_type
  ec_occurred_at :: int
  ec_component :: pystr
  ec_payload :: payload
  ec_previous_hash :: "pystr option"

record run_event =
  re_content :: event_content
  re_current_hash :: pystr

definition validate_RedactedPayload :: "payload \<Rightarrow> exn + payload" where
  "validate_RedactedPayload p =
     bindE (mapE (\<lambda>(k, v). bindE (non_empty_id k) (\<lambda>k'. Inr (k', v))) p) (\<lambda>attrs.
     bindE (requireE ValidationError (all_unique (map fst attrs))) (\<lambda>_. Inr attrs))"

definition validate_RunEvent :: "run_event \<Rightarrow> exn + run_event" where
  "validate_RunEvent e =
     (let c = re_content e in
      bindE (positive (ec_sequence c)) (\<lambda>_.
      bindE (non_empty_id (ec_component c)) (\<lambda>comp.
      bindE (optional sha256 (ec_previous_hash c)) (\<lambda>_.
      bindE (sha256 (re_current_hash e)) (\<lambda>_.
      bindE (requireE ValidationError (\<not> (ec_sequence c = 1 \<and> ec_previous_hash c \<noteq> None))) (\<lambda>_.
      bindE (requireE ValidationError (\<not> (1 < ec_sequence c \<and> ec_previous_hash c = None))) (\<lambda>_.
        Inr (e\<lparr>re_content := c\<lparr>ec_component := comp\<rparr>\<rparr>))))))))"

section \<open>Redaction\<close>

definition raw_payload_markers :: "pystr list" where
  "raw_payload_markers = map lit [''api_key'', ''argument'', ''authorization'', ''body'', ''content'',
     ''prompt'', ''response'', ''secret'', ''transcript'', ''value'']"

definition safe_suffixes :: "pystr list" where
  "safe_suffixes = map lit [''_bytes'', ''_code'', ''_hash'', ''_id'']"

fun has_prefix :: "pystr \<Rightarrow> pystr \<Rightarrow> bool" where
  "has_prefix [] s = True"
| "has_prefix (x # xs) [] = False"
| "has_prefix (x # xs) (y # ys) = (x = y \<and> has_prefix xs ys)"

fun has_infix :: "pystr \<Rightarrow> pystr \<Rightarrow> bool" where
  "has_infix m [] = has_prefix m []"
| "has_infix m (y # ys) = (has_prefix m (y # ys) \<or> has_infix m ys)"

definition has_suffix :: "pystr \<Rightarrow> pystr \<Rightarrow> bool" where
  "has_suffix m s = has_prefix (rev m) (rev s)"

definition key_is_redacted :: "(pystr \<Rightarrow> pystr) \<Rightarrow> pystr \<Rightarrow> bool" where
  "key_is_redacted casefold k \<longleftrightarrow>
     (let n = casefold k in
      \<not> (list_ex (\<lambda>m. has_infix m n) raw_payload_markers
          \<and> \<not> list_ex (\<lambda>s. has_suffix s n) safe_suffixes))"

definition validate_payload :: "(pystr \<Rightarrow> pystr) \<Rightarrow> payload \<Rightarrow> exn + unit" where
  "validate_payload casefold p =
     requireE EventRedactionError (list_all (\<lambda>kv. key_is_redacted casefold (fst kv)) p)"

section \<open>The recorder\<close>

record recorder_env =
  le_hash :: "event_content \<Rightarrow> pystr"
  le_casefold :: "pystr \<Rightarrow> pystr"
  le_now :: "nat \<Rightarrow> int"
  le_sink :: "run_event \<Rightarrow> exn option"

record recorder =
  lr_run_id :: uuid
  lr_sequence :: int
  lr_previous_hash :: "pystr option"
  lr_readings :: nat
  lr_appended :: "run_event list"

definition new_recorder :: "uuid \<Rightarrow> recorder" where
  "new_recorder run = \<lparr>lr_run_id = run, lr_sequence = 0, lr_previous_hash = None, lr_readings = 0,
     lr_appended = []\<rparr>"

definition event_of :: "recorder_env \<Rightarrow> recorder \<Rightarrow> event_type \<Rightarrow> pystr \<Rightarrow> payload \<Rightarrow> run_event" where
  "event_of env r t component attrs =
     (let c = \<lparr>ec_run_id = lr_run_id r, ec_sequence = lr_sequence r, ec_type = t,
               ec_occurred_at = le_now env (lr_readings r), ec_component = component,
               ec_payload = attrs, ec_previous_hash = lr_previous_hash r\<rparr>
      in \<lparr>re_content = c, re_current_hash = le_hash env c\<rparr>)"

text \<open>
  \<^verbatim>\<open>LifecycleRecorder.record\<close>. The sequence number is taken before the event is built and
  appended, the previous hash only after the sink has accepted the event.
\<close>

definition record_event ::
  "recorder_env \<Rightarrow> event_type \<Rightarrow> pystr \<Rightarrow> payload \<Rightarrow> recorder \<Rightarrow> (exn + run_event) \<times> recorder" where
  "record_event env t component payload r =
     (case validate_payload (le_casefold env) payload of
        Inl e \<Rightarrow> (Inl e, r)
      | Inr _ \<Rightarrow>
          let r1 = r\<lparr>lr_sequence := lr_sequence r + 1\<rparr> in
          (case validate_RedactedPayload (sort_key fst payload) of
             Inl e \<Rightarrow> (Inl e, r1)
           | Inr attrs \<Rightarrow>
               let r2 = r1\<lparr>lr_readings := lr_readings r1 + 1\<rparr> in
               (case validate_RunEvent (event_of env r1 t component attrs) of
                  Inl e \<Rightarrow> (Inl e, r2)
                | Inr event \<Rightarrow>
                    (case le_sink env event of
                       Some e \<Rightarrow> (Inl e, r2)
                     | None \<Rightarrow> (Inr event, r2\<lparr>lr_previous_hash := Some (re_current_hash event),
                                            lr_appended := lr_appended r2 @ [event]\<rparr>)))))"

section \<open>Chains\<close>

text \<open>
  A log is chained when its events are numbered from one, each carries the hash of the one before
  it, and each hash is that of its content.
\<close>

fun chained_from :: "(event_content \<Rightarrow> pystr) \<Rightarrow> int \<Rightarrow> pystr option \<Rightarrow> run_event list \<Rightarrow> bool" where
  "chained_from h n p [] = True"
| "chained_from h n p (e # es) =
     (ec_sequence (re_content e) = n \<and> ec_previous_hash (re_content e) = p
      \<and> re_current_hash e = h (re_content e)
      \<and> chained_from h (n + 1) (Some (re_current_hash e)) es)"

definition chained :: "(event_content \<Rightarrow> pystr) \<Rightarrow> run_event list \<Rightarrow> bool" where
  "chained h es = chained_from h 1 None es"

definition last_hash :: "run_event list \<Rightarrow> pystr option" where
  "last_hash es = (if es = [] then None else Some (re_current_hash (last es)))"

lemma chained_from_append:
  "chained_from h n p (xs @ ys) \<longleftrightarrow>
     chained_from h n p xs
     \<and> chained_from h (n + int (length xs)) (if xs = [] then p else last_hash xs) ys"
  by (induction xs arbitrary: n p) (auto simp: last_hash_def algebra_simps)

lemma chained_snoc:
  "chained h (es @ [e]) \<longleftrightarrow>
     chained h es \<and> ec_sequence (re_content e) = int (length es) + 1
     \<and> ec_previous_hash (re_content e) = last_hash es \<and> re_current_hash e = h (re_content e)"
  by (auto simp: chained_def chained_from_append last_hash_def)

text \<open>Recording a list of entries, stopping at the first failure.\<close>

fun record_all ::
  "(event_type \<Rightarrow> payload \<Rightarrow> 's \<Rightarrow> (exn + run_event) \<times> 's) \<Rightarrow> (event_type \<times> payload) list \<Rightarrow> 's
     \<Rightarrow> (exn + unit) \<times> 's" where
  "record_all add [] s = (Inr (), s)"
| "record_all add ((t, p) # es) s =
     (case add t p s of (Inl x, s') \<Rightarrow> (Inl x, s') | (Inr e, s') \<Rightarrow> record_all add es s')"

text \<open>
  An event log: a state that appends one event per recorded type and payload, and whose events
  stay chained. What its clients need is proved from these laws.
\<close>

locale event_log =
  fixes add :: "event_type \<Rightarrow> payload \<Rightarrow> 's \<Rightarrow> (exn + run_event) \<times> 's"
    and events :: "'s \<Rightarrow> run_event list"
    and hash :: "event_content \<Rightarrow> pystr"
    and good :: "'s \<Rightarrow> bool"
  assumes good_chained: "good s \<Longrightarrow> chained hash (events s)"
    and add_appends: "good s \<Longrightarrow> add t p s = (Inr e, s') \<Longrightarrow>
      good s' \<and> events s' = events s @ [e] \<and> ec_type (re_content e) = t"
    and add_fails: "good s \<Longrightarrow> add t p s = (Inl x, s') \<Longrightarrow> events s' = events s"
begin

lemma record_all_ok:
  "good s \<Longrightarrow> record_all add es s = (Inr u, s') \<Longrightarrow>
     good s' \<and> chained hash (events s')
     \<and> (\<exists>new. events s' = events s @ new \<and> map (\<lambda>e. ec_type (re_content e)) new = map fst es)"
proof (induction es arbitrary: s)
  case Nil
  then show ?case by (simp add: good_chained)
next
  case (Cons x es)
  obtain t p where x: "x = (t, p)" by (cases x)
  from Cons.prems(2) obtain e s1 where a: "add t p s = (Inr e, s1)" and r: "record_all add es s1 = (Inr u, s')"
    by (auto simp: x split: prod.splits sum.splits)
  note A = add_appends [OF Cons.prems(1) a]
  from Cons.IH [of s1] A r obtain new where N: "good s' \<and> chained hash (events s')"
    "events s' = events s1 @ new" "map (\<lambda>e. ec_type (re_content e)) new = map fst es" by blast
  with A show ?case by (intro conjI exI [of _ "e # new"]) (auto simp: x)
qed

lemma record_all_prefix:
  "good s \<Longrightarrow> record_all add es s = (r, s') \<Longrightarrow> \<exists>new. events s' = events s @ new \<and> chained hash (events s')"
proof (induction es arbitrary: s)
  case Nil
  then show ?case by (simp add: good_chained)
next
  case (Cons x es)
  obtain t p where x: "x = (t, p)" by (cases x)
  show ?case
  proof (cases "add t p s")
    case (Pair q s1)
    show ?thesis
    proof (cases q)
      case (Inl e)
      then show ?thesis using Cons.prems Pair add_fails [OF Cons.prems(1)] good_chained
        by (auto simp: x)
    next
      case (Inr e)
      note A = add_appends [OF Cons.prems(1) Pair [unfolded Inr]]
      moreover from Cons.prems(2) have "record_all add es s1 = (r, s')" using Pair Inr by (simp add: x)
      ultimately show ?thesis using Cons.IH [of s1] by auto
    qed
  qed
qed

end

section \<open>The recorder is an event log\<close>

text \<open>As long as the sink accepts every event, the counters and the log agree.\<close>

definition recorder_good :: "recorder_env \<Rightarrow> recorder \<Rightarrow> bool" where
  "recorder_good env r \<longleftrightarrow>
     chained (le_hash env) (lr_appended r) \<and> lr_sequence r = int (length (lr_appended r))
     \<and> lr_previous_hash r = last_hash (lr_appended r)"

lemma new_recorder_good: "recorder_good env (new_recorder run)"
  by (simp add: recorder_good_def new_recorder_def chained_def last_hash_def)

lemma record_event_Inr:
  assumes "record_event env t c p r = (Inr e, r')"
  shows "lr_appended r' = lr_appended r @ [e] \<and> lr_sequence r' = lr_sequence r + 1
    \<and> lr_previous_hash r' = Some (re_current_hash e) \<and> lr_run_id r' = lr_run_id r
    \<and> ec_sequence (re_content e) = lr_sequence r + 1
    \<and> ec_previous_hash (re_content e) = lr_previous_hash r
    \<and> ec_type (re_content e) = t \<and> ec_run_id (re_content e) = lr_run_id r
    \<and> ec_component (re_content e) = strip c
    \<and> (strip c = c \<longrightarrow> re_current_hash e = le_hash env (re_content e))
    \<and> list_all (\<lambda>kv. key_is_redacted (le_casefold env) (fst kv)) p
    \<and> le_sink env e = None \<and> validate_RunEvent e = Inr e"
  using assms
  by (auto simp: record_event_def Let_def event_of_def validate_payload_def validate_RunEvent_def result_iffs
      field_iffs split: sum.splits option.splits)

lemma recorder_good_step:
  "recorder_good env r \<Longrightarrow> strip c = c \<Longrightarrow> record_event env t c p r = (Inr e, r') \<Longrightarrow> recorder_good env r'"
  using record_event_Inr [of env t c p r e r']
  by (auto simp: recorder_good_def chained_snoc last_hash_def)

lemma record_event_Inl_appended:
  "record_event env t c p r = (Inl x, r') \<Longrightarrow> lr_appended r' = lr_appended r"
  by (auto simp: record_event_def Let_def split: sum.splits option.splits)

definition agent_component :: pystr where
  "agent_component = lit ''agent_runtime''"

lemma component_normal [simp]: "strip agent_component = agent_component"
  "strip (lit ''workflow'') = lit ''workflow''" "strip (lit ''core_agent'') = lit ''core_agent''"
  by (simp_all add: agent_component_def lit_def strip_by_def is_white_def)

interpretation agent_log: event_log "\<lambda>t. record_event env t agent_component" lr_appended
  "le_hash env" "recorder_good env" for env
proof unfold_locales
  fix r t p e r'
  assume g: "recorder_good env r" and a: "record_event env t agent_component p r = (Inr e, r')"
  show "recorder_good env r' \<and> lr_appended r' = lr_appended r @ [e] \<and> ec_type (re_content e) = t"
    using recorder_good_step [OF g component_normal(1) a] record_event_Inr [OF a] by simp
qed (auto simp: recorder_good_def record_event_Inl_appended)

section \<open>The event collector of a run\<close>

text \<open>
  \<^verbatim>\<open>_EventCollector\<close>: a recorder whose sink appends to a list and never fails; \<^verbatim>\<open>append\<close> takes an
  event of an agent's own recorder and records it again in the chain of the run.
\<close>

definition collector_env :: "recorder_env \<Rightarrow> recorder_env" where
  "collector_env env = env\<lparr>le_sink := \<lambda>_. None\<rparr>"

definition collector_record ::
  "recorder_env \<Rightarrow> event_type \<Rightarrow> payload \<Rightarrow> recorder \<Rightarrow> (exn + run_event) \<times> recorder" where
  "collector_record env t p = record_event (collector_env env) t (lit ''workflow'') p"

definition collector_append :: "recorder_env \<Rightarrow> run_event \<Rightarrow> recorder \<Rightarrow> (exn + run_event) \<times> recorder" where
  "collector_append env e =
     record_event (collector_env env) (ec_type (re_content e)) (lit ''core_agent'') (ec_payload (re_content e))"

lemma collector_hash [simp]: "le_hash (collector_env env) = le_hash env"
  by (simp add: collector_env_def)

interpretation run_log: event_log "collector_record env" lr_appended "le_hash env"
  "recorder_good (collector_env env)" for env
proof unfold_locales
  fix r t p e r'
  assume g: "recorder_good (collector_env env) r" and a: "collector_record env t p r = (Inr e, r')"
  show "recorder_good (collector_env env) r' \<and> lr_appended r' = lr_appended r @ [e] \<and> ec_type (re_content e) = t"
    using recorder_good_step [OF g component_normal(2) a [unfolded collector_record_def]]
      record_event_Inr [OF a [unfolded collector_record_def]] by simp
qed (auto simp: recorder_good_def collector_record_def record_event_Inl_appended)

lemma collector_append_good:
  "recorder_good (collector_env env) r \<Longrightarrow> collector_append env e r = (Inr e', r') \<Longrightarrow>
     recorder_good (collector_env env) r' \<and> lr_appended r' = lr_appended r @ [e']
     \<and> ec_type (re_content e') = ec_type (re_content e)"
  unfolding collector_append_def
  by (metis component_normal(3) recorder_good_step record_event_Inr)

section \<open>Properties\<close>

text \<open>
  Property C20. Recording events one after the other into a new recorder yields, when every
  record succeeds, exactly one event per entry in order, numbered from one and hash-chained, and
  no payload key with a content marker that is not a hash, id, code or byte count was let
  through.
\<close>

theorem recorded_events_chained:
  assumes "record_all (\<lambda>t. record_event env t agent_component) entries (new_recorder run) = (Inr u, r)"
  shows "chained (le_hash env) (lr_appended r)
    \<and> map (\<lambda>e. ec_type (re_content e)) (lr_appended r) = map fst entries
    \<and> (\<forall>(t, p) \<in> set entries. \<forall>(k, v) \<in> set p. key_is_redacted (le_casefold env) k)"
proof -
  have keys: "\<forall>(t, p) \<in> set entries. \<forall>(k, v) \<in> set p. key_is_redacted (le_casefold env) k"
    if "record_all (\<lambda>t. record_event env t agent_component) entries s = (Inr u, r)" for s
    using that
  proof (induction entries arbitrary: s)
    case (Cons x es)
    obtain t p where x: "x = (t, p)" by (cases x)
    from Cons.prems obtain e s1 where a: "record_event env t agent_component p s = (Inr e, s1)"
      and rest: "record_all (\<lambda>t. record_event env t agent_component) es s1 = (Inr u, r)"
      by (auto simp: x split: prod.splits sum.splits)
    from record_event_Inr [OF a] Cons.IH [OF rest] show ?case by (auto simp: x list_all_iff)
  qed simp
  show ?thesis
    using agent_log.record_all_ok [OF new_recorder_good assms] keys [OF assms]
    by (simp add: new_recorder_def)
qed

definition demo_recorder_env :: "(run_event \<Rightarrow> exn option) \<Rightarrow> recorder_env" where
  "demo_recorder_env sink = \<lparr>le_hash = (\<lambda>c. replicate 64 (if ec_sequence c = 1 then 48 else 49)),
     le_casefold = (\<lambda>s. s), le_now = int, le_sink = sink\<rparr>"

definition demo_entries :: "(event_type \<times> payload) list" where
  "demo_entries = [(AGENT_STARTED, [(lit ''prompt_bundle_hash'', SStr (lit ''ab'')), (lit ''agent_id'', SStr (lit ''quality''))]),
     (RUN_COMPLETED, [])]"

lemma recorded_events_chained_witness:
  "\<exists>r :: recorder. chained (le_hash (demo_recorder_env (\<lambda>_. None))) (lr_appended r) \<and> length (lr_appended r) = 2"
proof -
  have "is_ok (fst (record_all (\<lambda>t. record_event (demo_recorder_env (\<lambda>_. None)) t agent_component)
      demo_entries (new_recorder 5)))"
    by code_simp
  then obtain r where r: "record_all (\<lambda>t. record_event (demo_recorder_env (\<lambda>_. None)) t agent_component)
      demo_entries (new_recorder 5) = (Inr (), r)"
    by (metis is_ok_iff old.unit.exhaust prod.collapse)
  note C = recorded_events_chained [OF this]
  then have "length (lr_appended r) = length demo_entries" by (metis length_map)
  then have "length (lr_appended r) = 2" by (simp add: demo_entries_def)
  with C show ?thesis by blast
qed

text \<open>Two chained logs of the same length that end in the same hash, when the hash does not collide on them.\<close>

lemma chained_unique:
  assumes "chained h xs" and "chained h ys" and "length xs = length ys" and "last_hash xs = last_hash ys"
    and "inj_on h (re_content ` (set xs \<union> set ys))"
  shows "xs = ys"
  using assms
proof (induction xs arbitrary: ys rule: rev_induct)
  case (snoc x xs)
  from snoc.prems(3) obtain y ys' where ys: "ys = ys' @ [y]" by (cases ys rule: rev_cases) auto
  note X = snoc.prems(1) [unfolded chained_snoc] and Y = snoc.prems(2) [unfolded ys chained_snoc]
  have "re_current_hash x = re_current_hash y" using snoc.prems(4) by (simp add: ys last_hash_def)
  then have "h (re_content x) = h (re_content y)" using X Y by simp
  then have c: "re_content x = re_content y"
    by (rule inj_onD [OF snoc.prems(5)]) (simp_all add: ys)
  then have "x = y" using \<open>re_current_hash x = re_current_hash y\<close> by (cases x; cases y) simp
  moreover have "xs = ys'"
  proof (rule snoc.IH)
    show "last_hash xs = last_hash ys'" using X Y c by simp
    show "inj_on h (re_content ` (set xs \<union> set ys'))"
      by (rule inj_on_subset [OF snoc.prems(5)]) (auto simp: ys)
  qed (use X Y snoc.prems(3) ys in auto)
  ultimately show ?case by (simp add: ys)
qed simp

text \<open>What the recorder puts into the events.\<close>

definition records_entry :: "uuid \<Rightarrow> event_type \<times> payload \<Rightarrow> run_event \<Rightarrow> bool" where
  "records_entry run x e \<longleftrightarrow> ec_run_id (re_content e) = run \<and> ec_component (re_content e) = agent_component
     \<and> ec_type (re_content e) = fst x \<and> validate_RedactedPayload (sort_key fst (snd x)) = Inr (ec_payload (re_content e))"

lemma record_event_entry:
  "record_event env t agent_component p r = (Inr e, r') \<Longrightarrow> records_entry (lr_run_id r) (t, p) e"
proof -
  assume a: "record_event env t agent_component p r = (Inr e, r')"
  then have "validate_RedactedPayload (sort_key fst p) = Inr (ec_payload (re_content e))"
    by (auto simp: record_event_def Let_def event_of_def validate_RunEvent_def result_iffs split: sum.splits option.splits)
  then show ?thesis using record_event_Inr [OF a] by (simp add: records_entry_def)
qed

lemma record_all_entries:
  "record_all (\<lambda>t. record_event env t agent_component) entries r = (Inr u, r') \<Longrightarrow>
     \<exists>new. lr_appended r' = lr_appended r @ new \<and> list_all2 (records_entry (lr_run_id r)) entries new"
proof (induction entries arbitrary: r)
  case (Cons x es)
  obtain t p where x: "x = (t, p)" by (cases x)
  from Cons.prems obtain e r1 where a: "record_event env t agent_component p r = (Inr e, r1)"
    and rest: "record_all (\<lambda>t. record_event env t agent_component) es r1 = (Inr u, r')"
    by (auto simp: x split: prod.splits sum.splits)
  from Cons.IH [OF rest] obtain new where "lr_appended r' = lr_appended r1 @ new" "list_all2 (records_entry (lr_run_id r1)) es new"
    by blast
  then show ?case using record_event_Inr [OF a] record_event_entry [OF a]
    by (intro exI [of _ "e # new"]) (simp add: x)
qed simp

text \<open>
  Property C21. The log of a recorder is tamper evident: after a recording, any list of events that is chained
  and agrees with the counter and the last hash that the recorder keeps is the recorded log itself,
  unless the hash collides on their contents. So each of its events still carries the run, the component, the type
  and the normalised payload of the entry it was recorded for.
\<close>

theorem recorder_tamper_evident:
  assumes "record_all (\<lambda>t. record_event env t agent_component) entries (new_recorder run) = (Inr u, r)"
    and "chained (le_hash env) ys" "int (length ys) = lr_sequence r" "last_hash ys = lr_previous_hash r"
    and "inj_on (le_hash env) (re_content ` (set ys \<union> set (lr_appended r)))"
  shows "ys = lr_appended r \<and> list_all2 (records_entry run) entries ys"
proof -
  have good: "recorder_good env r" using agent_log.record_all_ok [OF new_recorder_good assms(1)] by blast
  then have "ys = lr_appended r"
    using assms(2-5) by (intro chained_unique [of "le_hash env"]) (auto simp: recorder_good_def)
  then show ?thesis using record_all_entries [OF assms(1)] by (simp add: new_recorder_def)
qed

definition demo_event :: run_event where
  "demo_event = (let c = \<lparr>ec_run_id = 5, ec_sequence = 1, ec_type = RUN_STARTED, ec_occurred_at = 0,
      ec_component = agent_component, ec_payload = [], ec_previous_hash = None\<rparr>
    in \<lparr>re_content = c, re_current_hash = replicate 64 48\<rparr>)"

text \<open>A log whose first event was replaced, with a hash of its new content, is found out.\<close>

definition tamper_env :: recorder_env where
  "tamper_env = (demo_recorder_env (\<lambda>_. None))\<lparr>le_hash :=
     \<lambda>c. replicate 64 (if ec_type c = AGENT_STARTED then 48 else if ec_type c = RUN_COMPLETED then 49 else 50)\<rparr>"

definition tampered :: "run_event list \<Rightarrow> run_event list" where
  "tampered es =
     (let c = (re_content (hd es))\<lparr>ec_type := RUN_STARTED\<rparr>
      in \<lparr>re_content = c, re_current_hash = le_hash tamper_env c\<rparr> # tl es)"

lemma recorder_tamper_evident_witness:
  "\<exists>r. fst (record_all (\<lambda>t. record_event tamper_env t agent_component) demo_entries (new_recorder 5)) = Inr ()
     \<and> snd (record_all (\<lambda>t. record_event tamper_env t agent_component) demo_entries (new_recorder 5)) = r
     \<and> length (lr_appended r) = 2 \<and> \<not> chained (le_hash tamper_env) (tampered (lr_appended r))"
proof -
  have "is_ok (fst (record_all (\<lambda>t. record_event tamper_env t agent_component) demo_entries (new_recorder 5)))"
    by code_simp
  then obtain r where r: "record_all (\<lambda>t. record_event tamper_env t agent_component) demo_entries (new_recorder 5) = (Inr (), r)"
    by (metis is_ok_iff old.unit.exhaust prod.collapse)
  have good: "recorder_good tamper_env r" using agent_log.record_all_ok [OF new_recorder_good r] by blast
  obtain new where "lr_appended r = new" "list_all2 (records_entry 5) demo_entries new"
    using record_all_entries [OF r] by (auto simp: new_recorder_def)
  then obtain a b where log: "lr_appended r = [a, b]" "ec_type (re_content a) = AGENT_STARTED" "ec_type (re_content b) = RUN_COMPLETED"
    by (auto simp: demo_entries_def list_all2_Cons1 records_entry_def)
  have ends: "int (length (tampered (lr_appended r))) = lr_sequence r" "last_hash (tampered (lr_appended r)) = lr_previous_hash r"
    using good by (simp_all add: recorder_good_def tampered_def log Let_def last_hash_def)
  have hash: "inj_on (le_hash tamper_env) (re_content ` (set (tampered (lr_appended r)) \<union> set (lr_appended r)))"
    using log(2,3) by (auto simp: tampered_def log(1) Let_def tamper_env_def inj_on_def)
  have "\<not> chained (le_hash tamper_env) (tampered (lr_appended r))"
  proof
    assume "chained (le_hash tamper_env) (tampered (lr_appended r))"
    from recorder_tamper_evident [OF r this ends hash] show False by (simp add: tampered_def log(1) Let_def demo_entries_def records_entry_def)
  qed
  then show ?thesis using r log(1) by simp
qed

text \<open>Each record is tried, also after failures, and every time the sink, the hash and the clock may be others.\<close>

fun record_tries :: "(recorder_env \<times> event_type \<times> payload) list \<Rightarrow> recorder \<Rightarrow> (exn + run_event) list \<times> recorder" where
  "record_tries [] r = ([], r)"
| "record_tries ((env, t, p) # tries) r =
     (case record_event env t agent_component p r of (q, r1) \<Rightarrow>
        (case record_tries tries r1 of (qs, r2) \<Rightarrow> (q # qs, r2)))"

text \<open>A sequence number was used up, but no event has been accepted.\<close>

definition stuck :: "recorder \<Rightarrow> bool" where
  "stuck r \<longleftrightarrow> 1 \<le> lr_sequence r \<and> lr_previous_hash r = None \<and> lr_appended r = []"

lemma stuck_fails: "stuck r \<Longrightarrow> record_event env t c p r = (q, r') \<Longrightarrow> \<not> is_ok q \<and> stuck r'"
proof -
  assume s: "stuck r" and q: "record_event env t c p r = (q, r')"
  have fails: "\<not> is_ok q"
  proof
    assume "is_ok q"
    then obtain e where "q = Inr e" by (auto simp: is_ok_iff)
    note E = record_event_Inr [OF q [unfolded this]]
    then have "validate_RunEvent e = Inr e" "1 < ec_sequence (re_content e)" "ec_previous_hash (re_content e) = None"
      using s by (simp_all add: stuck_def)
    then show False by (simp add: validate_RunEvent_def Let_def result_iffs)
  qed
  then obtain x where "q = Inl x" by (cases q) auto
  then have "stuck r'"
    using s q by (auto simp: record_event_def Let_def stuck_def split: sum.splits option.splits)
  with fails show ?thesis by blast
qed

lemma stuck_tries: "stuck r \<Longrightarrow> record_tries tries r = (qs, r') \<Longrightarrow> list_all (\<lambda>q. \<not> is_ok q) qs \<and> stuck r'"
proof (induction tries arbitrary: r qs)
  case (Cons x tries)
  obtain env t p where x: "x = (env, t, p)" by (cases x)
  obtain q r1 where a: "record_event env t agent_component p r = (q, r1)" by fastforce
  note A = stuck_fails [OF Cons.prems(1) a]
  from Cons.prems(2) a obtain qs' where "record_tries tries r1 = (qs', r')" "qs = q # qs'"
    by (auto simp: x split: prod.splits)
  with Cons.IH [of r1 qs'] A show ?case by simp
qed simp

text \<open>
  Property C22. A recorder whose sink refuses the very first event cannot recover: the sequence number has been
  used but no hash recorded, so every later attempt fails, however many are made, whatever they record and whatever
  the sink, the clock and the hash do then, and nothing is ever appended.
\<close>

theorem first_append_failure_is_final:
  assumes "is_ok (fst (record_event (env\<lparr>le_sink := \<lambda>_. None\<rparr>) t agent_component p (new_recorder run)))"
    and "record_event env t agent_component p (new_recorder run) = (Inl x, r)"
    and "record_tries tries r = (qs, r')"
  shows "length qs = length tries \<and> list_all (\<lambda>q. \<not> is_ok q) qs \<and> lr_appended r' = []"
proof -
  have "stuck r"
    using assms(1,2)
    by (auto simp: record_event_def Let_def new_recorder_def event_of_def stuck_def split: sum.splits option.splits)
  moreover have "length qs = length tries"
    using assms(3) by (induction tries arbitrary: r qs) (auto split: prod.splits)
  ultimately show ?thesis using stuck_tries [OF _ assms(3)] by (simp add: stuck_def)
qed

lemma first_append_failure_is_final_witness:
  "\<exists>r qs r'. record_event (demo_recorder_env (\<lambda>_. Some OtherError)) RUN_STARTED agent_component [] (new_recorder 5) = (Inl OtherError, r)
     \<and> record_tries (replicate 3 (demo_recorder_env (\<lambda>_. None), RUN_STARTED, [])) r = (qs, r') \<and> length qs = 3
     \<and> list_all (\<lambda>q. \<not> is_ok q) qs"
proof -
  have ok: "is_ok (fst (record_event ((demo_recorder_env (\<lambda>_. Some OtherError))\<lparr>le_sink := \<lambda>_. None\<rparr>)
      RUN_STARTED agent_component [] (new_recorder 5)))"
    by code_simp
  have "fst (record_event (demo_recorder_env (\<lambda>_. Some OtherError)) RUN_STARTED agent_component [] (new_recorder 5)) = Inl OtherError"
    using ok by (auto simp: record_event_def Let_def demo_recorder_env_def event_of_def new_recorder_def split: sum.splits option.splits)
  then obtain r where r: "record_event (demo_recorder_env (\<lambda>_. Some OtherError)) RUN_STARTED agent_component [] (new_recorder 5) = (Inl OtherError, r)"
    by (metis prod.collapse)
  obtain qs r' where q: "record_tries (replicate 3 (demo_recorder_env (\<lambda>_. None), RUN_STARTED, [])) r = (qs, r')" by fastforce
  from first_append_failure_is_final [OF ok r q] r q show ?thesis by auto
qed

end
