(* ===== verification/Effects.thy ===== *)
theory Effects
  imports Errors
begin

text \<open>
  Stateful code that may raise: a computation maps a state to an exception or a value, and the
  state after it, which a raise keeps. Its properties are triples with a postcondition for each
  way out; the rules of the combinators carry the proofs of the components.
\<close>

named_theorems hoare_rules "rules for triples of stateful computations"

type_synonym ('s, 'a) comp = "'s \<Rightarrow> (exn + 'a) \<times> 's"

definition returnM :: "'a \<Rightarrow> ('s, 'a) comp" where
  "returnM x s = (Inr x, s)"

definition raiseM :: "exn \<Rightarrow> ('s, 'a) comp" where
  "raiseM e s = (Inl e, s)"

definition bindM :: "('s, 'a) comp \<Rightarrow> ('a \<Rightarrow> ('s, 'b) comp) \<Rightarrow> ('s, 'b) comp" where
  "bindM m f s = (case m s of (Inl e, s') \<Rightarrow> (Inl e, s') | (Inr x, s') \<Rightarrow> f x s')"

definition liftE :: "exn + 'a \<Rightarrow> ('s, 'a) comp" where
  "liftE r s = (r, s)"

definition modifyM :: "('s \<Rightarrow> 's) \<Rightarrow> ('s, unit) comp" where
  "modifyM f s = (Inr (), f s)"

definition readM :: "('s \<Rightarrow> 'a) \<Rightarrow> ('s, 'a) comp" where
  "readM f s = (Inr (f s), s)"

definition guardM :: "exn \<Rightarrow> bool \<Rightarrow> ('s, unit) comp" where
  "guardM e b s = ((if b then Inr () else Inl e), s)"

text \<open>\<^verbatim>\<open>try: m except: handler\<close>; the handler sees the exception.\<close>

definition catchM :: "('s, 'a) comp \<Rightarrow> (exn \<Rightarrow> ('s, 'a) comp) \<Rightarrow> ('s, 'a) comp" where
  "catchM m h s = (case m s of (Inl e, s') \<Rightarrow> h e s' | (Inr x, s') \<Rightarrow> (Inr x, s'))"

fun forM :: "('a \<Rightarrow> ('s, 'b) comp) \<Rightarrow> 'a list \<Rightarrow> ('s, 'b list) comp" where
  "forM f [] = returnM []"
| "forM f (x # xs) = bindM (f x) (\<lambda>y. bindM (forM f xs) (\<lambda>ys. returnM (y # ys)))"

definition requireM :: "exn \<Rightarrow> ('s \<Rightarrow> bool) \<Rightarrow> ('s, unit) comp" where
  "requireM e P = bindM (readM P) (guardM e)"

text \<open>\<^verbatim>\<open>try: m finally: f\<close>; an exception of \<open>f\<close> replaces the outcome of \<open>m\<close>.\<close>

definition finallyM :: "('s, 'a) comp \<Rightarrow> ('s, unit) comp \<Rightarrow> ('s, 'a) comp" where
  "finallyM m f s = (case m s of (r, s') \<Rightarrow> (case f s' of (Inl e, s'') \<Rightarrow> (Inl e, s'') | (Inr u, s'') \<Rightarrow> (r, s'')))"

section \<open>Triples\<close>

definition hoare ::
  "('s \<Rightarrow> bool) \<Rightarrow> ('s, 'a) comp \<Rightarrow> ('a \<Rightarrow> 's \<Rightarrow> bool) \<Rightarrow> (exn \<Rightarrow> 's \<Rightarrow> bool) \<Rightarrow> bool" where
  "hoare P m Q E \<longleftrightarrow>
     (\<forall>s. P s \<longrightarrow> (\<forall>x s'. m s = (Inr x, s') \<longrightarrow> Q x s') \<and> (\<forall>e s'. m s = (Inl e, s') \<longrightarrow> E e s'))"

lemma hoareI:
  "(\<And>s x s'. P s \<Longrightarrow> m s = (Inr x, s') \<Longrightarrow> Q x s') \<Longrightarrow> (\<And>s e s'. P s \<Longrightarrow> m s = (Inl e, s') \<Longrightarrow> E e s')
     \<Longrightarrow> hoare P m Q E"
  by (auto simp: hoare_def)

lemma hoare_ok: "hoare P m Q E \<Longrightarrow> P s \<Longrightarrow> m s = (Inr x, s') \<Longrightarrow> Q x s'"
  by (simp add: hoare_def)

lemma hoare_fail: "hoare P m Q E \<Longrightarrow> P s \<Longrightarrow> m s = (Inl e, s') \<Longrightarrow> E e s'"
  by (simp add: hoare_def)

lemma hoare_weaken:
  "hoare P m Q E \<Longrightarrow> (\<And>s. P' s \<Longrightarrow> P s) \<Longrightarrow> (\<And>x s. Q x s \<Longrightarrow> Q' x s) \<Longrightarrow> (\<And>e s. E e s \<Longrightarrow> E' e s)
     \<Longrightarrow> hoare P' m Q' E'"
  unfolding hoare_def by blast

lemma hoare_return [hoare_rules]: "(\<And>s. P s \<Longrightarrow> Q x s) \<Longrightarrow> hoare P (returnM x) Q E"
  by (simp add: hoare_def returnM_def)

lemma hoare_raise [hoare_rules]: "(\<And>s. P s \<Longrightarrow> E e s) \<Longrightarrow> hoare P (raiseM e) Q E"
  by (simp add: hoare_def raiseM_def)

lemma hoare_bind: "hoare P m R E \<Longrightarrow> (\<And>x. hoare (R x) (f x) Q E) \<Longrightarrow> hoare P (bindM m f) Q E"
  unfolding hoare_def bindM_def by (simp split: prod.splits sum.splits) blast

lemma hoare_lift: "(\<And>s x. P s \<Longrightarrow> r = Inr x \<Longrightarrow> Q x s) \<Longrightarrow> (\<And>s e. P s \<Longrightarrow> r = Inl e \<Longrightarrow> E e s)
     \<Longrightarrow> hoare P (liftE r) Q E"
  by (auto simp: hoare_def liftE_def split: sum.splits)

lemma hoare_modify: "(\<And>s. P s \<Longrightarrow> Q () (f s)) \<Longrightarrow> hoare P (modifyM f) Q E"
  by (simp add: hoare_def modifyM_def)

lemma hoare_read: "(\<And>s. P s \<Longrightarrow> Q (f s) s) \<Longrightarrow> hoare P (readM f) Q E"
  by (simp add: hoare_def readM_def)

lemma hoare_guard: "(\<And>s. P s \<Longrightarrow> b \<Longrightarrow> Q () s) \<Longrightarrow> (\<And>s. P s \<Longrightarrow> \<not> b \<Longrightarrow> E e s) \<Longrightarrow> hoare P (guardM e b) Q E"
  by (simp add: hoare_def guardM_def)

lemma hoare_catch: "hoare P m Q R \<Longrightarrow> (\<And>e. hoare (R e) (h e) Q E) \<Longrightarrow> hoare P (catchM m h) Q E"
  unfolding hoare_def catchM_def by (simp split: prod.splits sum.splits) blast

lemma hoare_pre: "hoare P m Q E \<Longrightarrow> (\<And>s. P' s \<Longrightarrow> P s) \<Longrightarrow> hoare P' m Q E"
  by (erule hoare_weaken)

lemma hoare_assume: "(b \<Longrightarrow> hoare P m Q E) \<Longrightarrow> hoare (\<lambda>s. b \<and> P s) m Q E"
  by (auto simp: hoare_def)

lemma hoare_conj:
  "hoare P m Q E \<Longrightarrow> hoare P' m Q' E' \<Longrightarrow>
     hoare (\<lambda>s. P s \<and> P' s) m (\<lambda>x s. Q x s \<and> Q' x s) (\<lambda>e s. E e s \<and> E' e s)"
  unfolding hoare_def by blast

text \<open>A computation keeps a predicate on every way out.\<close>

definition keeps :: "('s \<Rightarrow> bool) \<Rightarrow> ('s, 'a) comp \<Rightarrow> bool" where
  "keeps I m \<longleftrightarrow> hoare I m (\<lambda>_. I) (\<lambda>_. I)"

lemma keepsD: "keeps I m \<Longrightarrow> I s \<Longrightarrow> m s = (r, s') \<Longrightarrow> I s'"
  unfolding keeps_def by (cases r) (auto dest: hoare_ok hoare_fail)

lemma keepsI: "(\<And>s r s'. I s \<Longrightarrow> m s = (r, s') \<Longrightarrow> I s') \<Longrightarrow> keeps I m"
  unfolding keeps_def by (rule hoareI) blast+

lemma keeps_return [hoare_rules]: "keeps I (returnM x)"
  by (simp add: keeps_def hoare_return)

lemma keeps_raise [hoare_rules]: "keeps I (raiseM e)"
  by (simp add: keeps_def hoare_raise)

lemma keeps_lift [hoare_rules]: "keeps I (liftE r)"
  by (auto simp: keeps_def intro!: hoare_lift)

lemma keeps_guard [hoare_rules]: "keeps I (guardM e b)"
  by (auto simp: keeps_def intro!: hoare_guard)

lemma keeps_read [hoare_rules]: "keeps I (readM f)"
  by (auto simp: keeps_def intro!: hoare_read)

lemma keeps_modify: "(\<And>s. I s \<Longrightarrow> I (f s)) \<Longrightarrow> keeps I (modifyM f)"
  by (auto simp: keeps_def intro!: hoare_modify)

lemma keeps_bind [hoare_rules]: "keeps I m \<Longrightarrow> (\<And>x. keeps I (f x)) \<Longrightarrow> keeps I (bindM m f)"
  unfolding keeps_def by (rule hoare_bind)

lemma keeps_bind_lift: "(\<And>x. r = Inr x \<Longrightarrow> keeps I (f x)) \<Longrightarrow> keeps I (bindM (liftE r) f)"
  by (cases r; rule keepsI; auto simp: bindM_def liftE_def elim: keepsD)

lemma keeps_bind_guard: "(b \<Longrightarrow> keeps I (f ())) \<Longrightarrow> keeps I (bindM (guardM e b) f)"
  by (cases b; rule keepsI; auto simp: bindM_def guardM_def elim: keepsD)

lemma keeps_then: "keeps I m \<Longrightarrow> (\<And>x. hoare I (f x) Q (\<lambda>_. I)) \<Longrightarrow> hoare I (bindM m f) Q (\<lambda>_. I)"
  unfolding keeps_def by (rule hoare_bind)

lemma keeps_catch [hoare_rules]: "keeps I m \<Longrightarrow> (\<And>e. keeps I (h e)) \<Longrightarrow> keeps I (catchM m h)"
  unfolding keeps_def by (rule hoare_catch)

lemma keeps_forM: "(\<And>x. x \<in> set xs \<Longrightarrow> keeps I (f x)) \<Longrightarrow> keeps I (forM f xs)"
  by (induction xs) (auto intro!: hoare_rules)

lemma keeps_if [hoare_rules]: "(b \<Longrightarrow> keeps I m) \<Longrightarrow> (\<not> b \<Longrightarrow> keeps I n) \<Longrightarrow> keeps I (if b then m else n)"
  by simp
lemma keeps_case_prod [hoare_rules]:
  "(\<And>a b. x = (a, b) \<Longrightarrow> keeps I (f a b)) \<Longrightarrow> keeps I (case x of (a, b) \<Rightarrow> f a b)"
  by (cases x) simp

lemma keeps_case_option [hoare_rules]:
  "(x = None \<Longrightarrow> keeps I m) \<Longrightarrow> (\<And>a. x = Some a \<Longrightarrow> keeps I (f a)) \<Longrightarrow>
     keeps I (case x of None \<Rightarrow> m | Some a \<Rightarrow> f a)"
  by (cases x) simp_all

lemma hoare_if: "(b \<Longrightarrow> hoare P m Q E) \<Longrightarrow> (\<not> b \<Longrightarrow> hoare P n Q E) \<Longrightarrow> hoare P (if b then m else n) Q E"
  by simp

lemma hoare_keeps: "keeps P m \<Longrightarrow> hoare P m (\<lambda>_. P) (\<lambda>_. P)"
  by (simp add: keeps_def)

lemma keeps_conj: "keeps P m \<Longrightarrow> keeps Q m \<Longrightarrow> keeps (\<lambda>s. P s \<and> Q s) m"
  unfolding keeps_def hoare_def by blast

lemma keeps_require [hoare_rules]: "keeps P (requireM e b)"
  unfolding requireM_def by (intro hoare_rules)

lemma keeps_finally: "keeps P m \<Longrightarrow> keeps P f \<Longrightarrow> keeps P (finallyM m f)"
  by (rule keepsI) (auto simp: finallyM_def dest: keepsD split: prod.splits sum.splits)

lemma hoare_finally:
  assumes m: "hoare P m (\<lambda>x s. I s \<and> C x s) (\<lambda>_. I)" and f: "keeps I f" "\<And>x. keeps (C x) f"
  shows "hoare P (finallyM m f) (\<lambda>x s. I s \<and> C x s) (\<lambda>_. I)"
proof (rule hoareI)
  fix s x s'
  assume "P s" "finallyM m f s = (Inr x, s')"
  then obtain u s1 where run: "m s = (Inr x, s1)" "f s1 = (Inr u, s')"
    by (auto simp: finallyM_def split: prod.splits sum.splits)
  have "I s1 \<and> C x s1" by (rule hoare_ok [OF m \<open>P s\<close> run(1)])
  then show "I s' \<and> C x s'" using keepsD [OF f(1) _ run(2)] keepsD [OF f(2) _ run(2)] by blast
next
  fix s e s'
  assume "P s" "finallyM m f s = (Inl e, s')"
  then obtain r r' s1 where run: "m s = (r, s1)" "f s1 = (r', s')"
    by (auto simp: finallyM_def split: prod.splits sum.splits)
  then have "I s1" using hoare_ok [OF m \<open>P s\<close>] hoare_fail [OF m \<open>P s\<close>] by (cases r) auto
  then show "I s'" using keepsD [OF f(1)] run by blast
qed

lemma keeps_let [hoare_rules]: "(\<And>x. keeps P (f x)) \<Longrightarrow> keeps P (let x = v in f x)"
  by simp

lemma bindM_step: "m s = (Inr x, s') \<Longrightarrow> bindM m f s = f x s'"
  by (simp add: bindM_def)

lemma bindM_lift: "bindM (liftE (Inr x)) f s = f x s"
  by (simp add: bindM_def liftE_def)

lemma bindM_Inr_iff:
  "bindM m f s = (Inr y, s'') \<longleftrightarrow> (\<exists>x s'. m s = (Inr x, s') \<and> f x s' = (Inr y, s''))"
  by (auto simp: bindM_def split: prod.splits sum.splits)

lemma guardM_Inr_iff: "guardM e b s = (Inr u, s') \<longleftrightarrow> b \<and> s' = s"
  by (auto simp: guardM_def)

lemma liftE_Inr_iff: "liftE r s = (Inr x, s') \<longleftrightarrow> r = Inr x \<and> s' = s"
  by (auto simp: liftE_def)

lemma returnM_Inr_iff: "returnM x s = (Inr y, s') \<longleftrightarrow> y = x \<and> s' = s"
  by (auto simp: returnM_def)

lemma raiseM_Inr_iff: "raiseM e s = (Inr y, s') \<longleftrightarrow> False"
  by (simp add: raiseM_def)

lemma readM_Inr_iff: "readM f s = (Inr y, s') \<longleftrightarrow> y = f s \<and> s' = s"
  by (auto simp: readM_def)

lemma modifyM_Inr_iff: "modifyM f s = (Inr u, s') \<longleftrightarrow> s' = f s"
  by (auto simp: modifyM_def)

lemmas comp_iffs = bindM_Inr_iff guardM_Inr_iff liftE_Inr_iff returnM_Inr_iff raiseM_Inr_iff
  readM_Inr_iff modifyM_Inr_iff

end
