(* ===== verification/Runtime.thy ===== *)
theory Runtime
  imports Tools Retry Lifecycle Effects
begin

text \<open>
  The bounded agent runtime (\<^verbatim>\<open>agent_runtime/runtime.py\<close>): the loop of model turns and tool calls
  that ends in one terminal submit. The model client, the tools, the clock, the event sink and the
  interleaving of the concurrent read-only calls are parameters; telemetry is left out.
\<close>

section \<open>Environment and state\<close>

text \<open>
  \<open>en_model\<close> is awaiting \<^verbatim>\<open>model_client.complete\<close> under the remaining time for the given call
  number. \<open>en_schedule\<close> is the order in which the tasks of a turn advance, \<open>en_late\<close> the steps that
  still happen after a task has failed and before the others are cancelled.
\<close>

record runtime_env =
  en_codec :: codec
  en_registry :: registry
  en_recorder :: recorder_env
  en_now :: "nat \<Rightarrow> int"
  en_model :: "model_request \<Rightarrow> double \<Rightarrow> nat \<Rightarrow> exn + model_response"
  en_schedule :: "nat \<Rightarrow> nat list"
  en_late :: "nat \<Rightarrow> nat list"

text \<open>
  The recorder, the trajectory, the clock readings and the model calls made so far; \<open>st_executed\<close>
  lists the names of the tools whose handlers were started, in order.
\<close>

record run_state =
  st_recorder :: recorder
  st_trajectory :: "trajectory_record list"
  st_readings :: nat
  st_model_calls :: nat
  st_executed :: "pystr list"

type_synonym 'a run = "(run_state, 'a) comp"

definition new_run_state :: "uuid \<Rightarrow> run_state" where
  "new_run_state run = \<lparr>st_recorder = new_recorder run, st_trajectory = [], st_readings = 0,
     st_model_calls = 0, st_executed = []\<rparr>"

fun dec_digits :: "nat \<Rightarrow> pystr" where
  "dec_digits n = (if n < 10 then [48 + n] else dec_digits (n div 10) @ [48 + n mod 10])"

declare dec_digits.simps [simp del]

section \<open>Recording\<close>

definition validate_TrajectoryRecord :: "trajectory_record \<Rightarrow> exn + trajectory_record" where
  "validate_TrajectoryRecord t =
     bindE (positive (tr_sequence t)) (\<lambda>_.
     bindE (sha256 (tr_event_hash t)) (\<lambda>_.
     bindE (optional non_empty_id (tr_model_id t)) (\<lambda>m.
     bindE (optional non_empty_id (tr_model_call_id t)) (\<lambda>mc.
     bindE (optional non_empty_id (tr_tool_call_id t)) (\<lambda>tc.
     bindE (optional non_empty_id (tr_tool_name t)) (\<lambda>tn.
     bindE (optional non_negative (tr_latency_ms t)) (\<lambda>_.
       Inr (t\<lparr>tr_model_id := m, tr_model_call_id := mc, tr_tool_call_id := tc, tr_tool_name := tn\<rparr>))))))))"

definition trajectory_of :: "run_event \<Rightarrow> trajectory_record" where
  "trajectory_of e = \<lparr>tr_sequence = ec_sequence (re_content e), tr_event_type = ec_type (re_content e),
     tr_event_hash = re_current_hash e, tr_model_id = None, tr_model_call_id = None,
     tr_tool_call_id = None, tr_tool_name = None, tr_status = None, tr_usage = None, tr_latency_ms = None\<rparr>"

text \<open>The closure \<^verbatim>\<open>record\<close> of \<^verbatim>\<open>run\<close>; its keyword arguments are the update of the entry.\<close>

definition recordM ::
  "runtime_env \<Rightarrow> event_type \<Rightarrow> payload \<Rightarrow> (trajectory_record \<Rightarrow> trajectory_record) \<Rightarrow> run_event run" where
  "recordM env t p fill s =
     (case record_event (en_recorder env) t agent_component p (st_recorder s) of
        (Inl e, r) \<Rightarrow> (Inl e, s\<lparr>st_recorder := r\<rparr>)
      | (Inr ev, r) \<Rightarrow>
          (case validate_TrajectoryRecord (fill (trajectory_of ev)) of
             Inl e \<Rightarrow> (Inl e, s\<lparr>st_recorder := r\<rparr>)
           | Inr entry \<Rightarrow> (Inr ev, s\<lparr>st_recorder := r, st_trajectory := st_trajectory s @ [entry]\<rparr>)))"

definition require_remaining :: "runtime_env \<Rightarrow> int \<Rightarrow> double run" where
  "require_remaining env deadline s =
     (remaining_seconds deadline (en_now env (st_readings s)), s\<lparr>st_readings := st_readings s + 1\<rparr>)"

definition failure_payload :: "agent_failure_code \<Rightarrow> payload" where
  "failure_payload c = [(lit ''failure_code'', SStr (failure_code_value c))]"

section \<open>Calling the model\<close>

definition call_model :: "runtime_env \<Rightarrow> model_request \<Rightarrow> double \<Rightarrow> model_response run" where
  "call_model env req timeout s =
     (en_model env req timeout (st_model_calls s), s\<lparr>st_model_calls := st_model_calls s + 1\<rparr>)"

definition record_model_failure ::
  "runtime_env \<Rightarrow> agent_failure_code \<Rightarrow> pystr \<Rightarrow> pystr \<Rightarrow> model_response run" where
  "record_model_failure env c model_id call_id =
     bindM (recordM env MODEL_FAILED
              (failure_payload c @ [(lit ''model_id'', SStr model_id), (lit ''model_call_id'', SStr call_id)])
              (\<lambda>t. t\<lparr>tr_model_id := Some model_id, tr_model_call_id := Some call_id\<rparr>))
       (\<lambda>_. raiseM (AgentRuntimeError c))"

definition complete_model ::
  "runtime_env \<Rightarrow> model_request \<Rightarrow> int \<Rightarrow> pystr \<Rightarrow> pystr \<Rightarrow> model_response run" where
  "complete_model env req deadline model_id call_id =
     catchM (bindM (require_remaining env deadline) (call_model env req))
       (\<lambda>e. case e of
          TimeoutError \<Rightarrow> record_model_failure env FAIL_DEADLINE_EXCEEDED model_id call_id
        | AgentRuntimeError c \<Rightarrow> record_model_failure env c model_id call_id
        | _ \<Rightarrow> raiseM e)"

text \<open>The variables of the turn loop.\<close>

record loop_state =
  lp_messages :: "model_message list"
  lp_retrieved :: "pystr list"
  lp_input :: int
  lp_output :: int
  lp_submitted :: bool
  lp_seen :: "pystr list"
  lp_count :: int
  lp_repeated :: "pystr \<Rightarrow> int"

definition new_loop_state :: "run_context \<Rightarrow> loop_state" where
  "new_loop_state ctx = \<lparr>lp_messages = rc_messages ctx, lp_retrieved = [], lp_input = 0, lp_output = 0,
     lp_submitted = False, lp_seen = [], lp_count = 0, lp_repeated = (\<lambda>_. 0)\<rparr>"

definition model_call_id :: "nat \<Rightarrow> pystr" where
  "model_call_id turn = lit ''model-'' @ dec_digits (turn + 1)"

definition turn_request :: "runtime_env \<Rightarrow> agent_spec \<Rightarrow> loop_state \<Rightarrow> exn + model_request" where
  "turn_request env spec lp =
     bindE (function_schemas (en_registry env) (sp_read_tools spec @ [sp_submit_tool spec])) (\<lambda>tools.
       validate_ModelRequest
         \<lparr>mq_model_id = sp_model_id spec, mq_effort = sp_effort spec, mq_messages = lp_messages lp,
          mq_tools = tools, mq_tool_choice = CHOICE_AUTO,
          mq_max_output_tokens = bu_max_output (sp_budget spec) - lp_output lp, mq_temperature = 0\<rparr>)"

definition ask_model ::
  "runtime_env \<Rightarrow> agent_spec \<Rightarrow> run_context \<Rightarrow> nat \<Rightarrow> loop_state \<Rightarrow> model_response run" where
  "ask_model env spec ctx turn lp =
     bindM (guardM (AgentRuntimeError FAIL_BUDGET_EXCEEDED) (0 < bu_max_output (sp_budget spec) - lp_output lp)) (\<lambda>_.
     bindM (require_remaining env (rc_deadline_at ctx)) (\<lambda>_.
     bindM (liftE (turn_request env spec lp)) (\<lambda>req.
     bindM (recordM env MODEL_REQUESTED
              [(lit ''turn'', SInt (int turn + 1)), (lit ''model_id'', SStr (sp_model_id spec)),
               (lit ''model_call_id'', SStr (model_call_id turn))]
              (\<lambda>t. t\<lparr>tr_model_id := Some (sp_model_id spec), tr_model_call_id := Some (model_call_id turn)\<rparr>)) (\<lambda>_.
     bindM (complete_model env req (rc_deadline_at ctx) (sp_model_id spec) (model_call_id turn)) (\<lambda>response.
     bindM (guardM (AgentRuntimeError FAIL_MODEL_MISMATCH) (mr_model_id response = sp_model_id spec)) (\<lambda>_.
       returnM response))))))"

definition run_cost :: "model_usage \<Rightarrow> agent_spec \<Rightarrow> rat" where
  "run_cost u spec =
     dec_add (dec_mul (of_int (us_input u)) (bu_input_cost (sp_budget spec)))
       (dec_mul (of_int (us_output u)) (bu_output_cost (sp_budget spec)))"

definition within_budget :: "agent_spec \<Rightarrow> model_usage \<Rightarrow> bool" where
  "within_budget spec u \<longleftrightarrow>
     \<not> (us_input u > bu_max_input (sp_budget spec) \<or> us_output u > bu_max_output (sp_budget spec)
        \<or> run_cost u spec > bu_max_cost (sp_budget spec))"

text \<open>The accounting of a response and the checks up to the tool calls.\<close>

definition account_usage ::
  "runtime_env \<Rightarrow> agent_spec \<Rightarrow> nat \<Rightarrow> model_response \<Rightarrow> loop_state \<Rightarrow> (model_usage \<times> loop_state) run" where
  "account_usage env spec turn response lp =
     (let ti = lp_input lp + us_input (mr_usage response);
          to' = lp_output lp + us_output (mr_usage response)
      in bindM (liftE (validate_ModelUsage \<lparr>us_input = ti, us_output = to', us_total = ti + to'\<rparr>)) (\<lambda>usage.
         bindM (recordM env MODEL_COMPLETED
                  [(lit ''turn'', SInt (int turn + 1)), (lit ''model_id'', SStr (mr_model_id response)),
                   (lit ''model_call_id'', SStr (model_call_id turn)),
                   (lit ''input_tokens'', SInt (us_input (mr_usage response))),
                   (lit ''output_tokens'', SInt (us_output (mr_usage response))),
                   (lit ''latency_ms'', SInt (mr_latency_ms response))]
                  (\<lambda>t. t\<lparr>tr_model_id := Some (mr_model_id response), tr_model_call_id := Some (model_call_id turn),
                         tr_usage := Some (mr_usage response), tr_latency_ms := Some (mr_latency_ms response)\<rparr>)) (\<lambda>_.
         bindM (guardM (AgentRuntimeError FAIL_BUDGET_EXCEEDED) (within_budget spec usage)) (\<lambda>_.
         bindM (guardM (AgentRuntimeError FAIL_TEXT_COMPLETION_REJECTED)
                  (\<not> (mr_has_text response \<and> mr_tool_calls response = []))) (\<lambda>_.
         bindM (guardM (AgentRuntimeError FAIL_MALFORMED_PROVIDER_RESPONSE) (mr_tool_calls response \<noteq> [])) (\<lambda>_.
           returnM (usage, lp\<lparr>lp_input := ti, lp_output := to'\<rparr>)))))))"

section \<open>Proposing and authorising tool calls\<close>

definition tool_signature :: "codec \<Rightarrow> validated_call \<Rightarrow> pystr" where
  "tool_signature co v = ts_name (vc_spec v) @ [10] @ co_dump_json co (vc_arguments v)"

fun count_repeats ::
  "codec \<Rightarrow> int \<Rightarrow> validated_call list \<Rightarrow> (pystr \<Rightarrow> int) \<Rightarrow> exn + (pystr \<Rightarrow> int)" where
  "count_repeats co limit [] rep = Inr rep"
| "count_repeats co limit (v # vs) rep =
     (let g = tool_signature co v; rep' = rep(g := rep g + 1)
      in if limit < rep' g then Inl (AgentRuntimeError FAIL_TOOL_LOOP_GUARD)
         else count_repeats co limit vs rep')"

definition tool_call_ids :: "nat \<Rightarrow> nat \<Rightarrow> pystr list" where
  "tool_call_ids turn n =
     map (\<lambda>i. lit ''tool-'' @ dec_digits (turn + 1) @ lit ''-'' @ dec_digits (i + 1)) [0..<n]"

definition call_payload :: "pystr \<Rightarrow> pystr \<Rightarrow> payload" where
  "call_payload call_id name = [(lit ''tool_call_id'', SStr call_id), (lit ''tool_name'', SStr name)]"

definition record_call ::
  "runtime_env \<Rightarrow> event_type \<Rightarrow> tool_call_status option \<Rightarrow> payload \<Rightarrow> validated_call \<Rightarrow> pystr \<Rightarrow> run_event run" where
  "record_call env t status extra v call_id =
     recordM env t (call_payload call_id (ts_name (vc_spec v)) @ extra)
       (\<lambda>e. e\<lparr>tr_tool_call_id := Some call_id, tr_tool_name := Some (ts_name (vc_spec v)), tr_status := status\<rparr>)"

definition propose_calls ::
  "runtime_env \<Rightarrow> agent_spec \<Rightarrow> nat \<Rightarrow> model_response \<Rightarrow> loop_state \<Rightarrow> (validated_call list \<times> loop_state) run" where
  "propose_calls env spec turn response lp =
     bindM (liftE (validate_calls (en_codec env) (en_registry env) (mr_tool_calls response) (Some (lp_seen lp)))) (\<lambda>(vs, seen).
     let count = lp_count lp + int (length vs) in
     bindM (guardM (AgentRuntimeError FAIL_TOOL_LOOP_GUARD) (\<not> count > bu_max_tool_calls (sp_budget spec))) (\<lambda>_.
     bindM (liftE (count_repeats (en_codec env) (bu_max_repeated (sp_budget spec)) vs (lp_repeated lp))) (\<lambda>rep.
     bindM (forM (\<lambda>(v, i). bindM (record_call env TOOL_PROPOSED (Some PROPOSED) [] v i) (\<lambda>_.
              record_call env TOOL_VALIDATED (Some VALIDATED) [] v i))
              (zip vs (tool_call_ids turn (length vs)))) (\<lambda>_.
       returnM (vs, lp\<lparr>lp_seen := the seen, lp_count := count, lp_repeated := rep\<rparr>)))))"

definition allow_calls ::
  "runtime_env \<Rightarrow> agent_spec \<Rightarrow> nat \<Rightarrow> validated_call list \<Rightarrow> loop_state \<Rightarrow> nat option run" where
  "allow_calls env spec turn vs lp =
     bindM (liftE (authorize spec vs (lp_retrieved lp) (lp_submitted lp))) (\<lambda>terminal.
     bindM (forM (\<lambda>(v, i). record_call env TOOL_ALLOWED (Some ALLOWED) [] v i)
              (zip vs (tool_call_ids turn (length vs)))) (\<lambda>_.
       returnM terminal))"

section \<open>Executing tools\<close>

definition start_tool :: "runtime_env \<Rightarrow> validated_call \<Rightarrow> pystr \<Rightarrow> run_event run" where
  "start_tool env v call_id = record_call env TOOL_STARTED None [] v call_id"

definition run_handler ::
  "runtime_env \<Rightarrow> agent_spec \<Rightarrow> run_context \<Rightarrow> validated_call \<Rightarrow> bool \<Rightarrow> double \<Rightarrow> executed_call run" where
  "run_handler env spec ctx v include remaining s =
     (execute_tool (en_codec env) v
        \<lparr>tx_run_id = rc_run_id ctx, tx_agent_id = sp_agent_id spec, tx_deadline_at = rc_deadline_at ctx\<rparr>
        (min (ts_timeout (vc_spec v)) remaining) (bu_max_observation (sp_budget spec)) include
        (length (st_executed s)),
      s\<lparr>st_executed := st_executed s @ [ts_name (vc_spec v)]\<rparr>)"

definition observation_payload :: "tool_observation option \<Rightarrow> payload" where
  "observation_payload ob =
     (case ob of None \<Rightarrow> []
      | Some b \<Rightarrow> [(lit ''observation_hash'', SStr (ob_hash b)), (lit ''observation_bytes'', SInt (ob_size b))])"

definition finish_tool ::
  "runtime_env \<Rightarrow> agent_spec \<Rightarrow> run_context \<Rightarrow> validated_call \<Rightarrow> pystr \<Rightarrow> bool \<Rightarrow> executed_call run" where
  "finish_tool env spec ctx v call_id include =
     bindM (catchM (bindM (require_remaining env (rc_deadline_at ctx)) (run_handler env spec ctx v include))
       (\<lambda>e. case e of
          AgentRuntimeError c \<Rightarrow>
            bindM (record_call env TOOL_FAILED (Some CALL_FAILED) [] v call_id) (\<lambda>_. raiseM e)
        | _ \<Rightarrow> raiseM e)) (\<lambda>executed.
     bindM (record_call env TOOL_COMPLETED (Some CALL_COMPLETED) (observation_payload (ex_observation executed)) v call_id) (\<lambda>_.
       returnM executed))"

text \<open>\<^verbatim>\<open>_execute_tool\<close>: the start and the rest, between which other tasks may run.\<close>

definition execute_toolM ::
  "runtime_env \<Rightarrow> agent_spec \<Rightarrow> run_context \<Rightarrow> validated_call \<Rightarrow> pystr \<Rightarrow> bool \<Rightarrow> executed_call run" where
  "execute_toolM env spec ctx v call_id include =
     bindM (start_tool env v call_id) (\<lambda>_. finish_tool env spec ctx v call_id include)"

datatype task = TReady | TRunning | TDone "exn + executed_call"

type_synonym job = "validated_call \<times> pystr"

text \<open>One task of the turn advances by one step.\<close>

definition step_task ::
  "runtime_env \<Rightarrow> agent_spec \<Rightarrow> run_context \<Rightarrow> job list \<Rightarrow> nat \<Rightarrow> task list \<times> run_state \<Rightarrow> task list \<times> run_state" where
  "step_task env spec ctx jobs i c =
     (let (tasks, s) = c in
      if \<not> i < length tasks then c
      else case tasks ! i of
        TReady \<Rightarrow>
          (case start_tool env (fst (jobs ! i)) (snd (jobs ! i)) s of
             (Inl e, s') \<Rightarrow> (tasks[i := TDone (Inl e)], s')
           | (Inr _, s') \<Rightarrow> (tasks[i := TRunning], s'))
      | TRunning \<Rightarrow>
          (case finish_tool env spec ctx (fst (jobs ! i)) (snd (jobs ! i)) True s of
             (r, s') \<Rightarrow> (tasks[i := TDone r], s'))
      | TDone _ \<Rightarrow> c)"

definition task_failure :: "nat \<Rightarrow> task list \<Rightarrow> exn option" where
  "task_failure i tasks =
     (if i < length tasks then (case tasks ! i of TDone (Inl e) \<Rightarrow> Some e | _ \<Rightarrow> None) else None)"

text \<open>Steps in the given order, up to the first failure of a task.\<close>

fun run_tasks ::
  "(nat \<Rightarrow> task list \<times> run_state \<Rightarrow> task list \<times> run_state) \<Rightarrow> nat list \<Rightarrow> task list \<times> run_state
     \<Rightarrow> exn option \<times> task list \<times> run_state" where
  "run_tasks step [] c = (None, c)"
| "run_tasks step (i # is) c =
     (let c' = step i c in
      case task_failure i (fst c') of Some e \<Rightarrow> (Some e, c') | None \<Rightarrow> run_tasks step is c')"

definition task_result :: "task \<Rightarrow> exn + executed_call" where
  "task_result t = (case t of TDone r \<Rightarrow> r | _ \<Rightarrow> Inl RuntimeError)"

text \<open>
  \<^verbatim>\<open>_execute_read_calls\<close>: the tasks run concurrently, in the order of the schedule, which ends with
  two rounds over all tasks, so that every task is done when none failed. At the first failure
  the others are cancelled, after the late steps.
\<close>

definition full_schedule :: "nat list \<Rightarrow> nat \<Rightarrow> nat list" where
  "full_schedule order n = order @ [0..<n] @ [0..<n]"

definition execute_read_calls ::
  "runtime_env \<Rightarrow> agent_spec \<Rightarrow> run_context \<Rightarrow> nat \<Rightarrow> job list \<Rightarrow> executed_call list run" where
  "execute_read_calls env spec ctx turn jobs s =
     (let step = step_task env spec ctx jobs in
      case run_tasks step (full_schedule (en_schedule env turn) (length jobs)) (replicate (length jobs) TReady, s) of
        (Some e, c) \<Rightarrow> (Inl e, snd (fold step (en_late env turn) c))
      | (None, tasks, s') \<Rightarrow> (mapE task_result tasks, s'))"

section \<open>A turn\<close>

definition plain_message :: "message_role \<Rightarrow> model_message" where
  "plain_message role = \<lparr>ms_role = role, ms_content = None, ms_tool_call_id = None, ms_tool_calls = []\<rparr>"

text \<open>The results of the read calls enter the conversation in the order of the calls.\<close>

fun absorb_results ::
  "agent_spec \<Rightarrow> (validated_call \<times> executed_call) list \<Rightarrow> loop_state \<Rightarrow> exn + loop_state" where
  "absorb_results spec [] lp = Inr lp"
| "absorb_results spec ((v, x) # rest) lp =
     (let lp1 = (if ts_name (vc_spec v) \<in> set (sp_required_tools spec)
                 then lp\<lparr>lp_retrieved := lp_retrieved lp @ [ts_name (vc_spec v)]\<rparr> else lp)
      in case ex_observation x of
           None \<Rightarrow> Inl (AgentRuntimeError FAIL_UNEXPECTED_RUNTIME_FAILURE)
         | Some ob \<Rightarrow>
             bindE (validate_ModelMessage ((plain_message TOOL)\<lparr>ms_content := Some (ob_content ob),
                      ms_tool_call_id := Some (tc_id (vc_call v))\<rparr>)) (\<lambda>m.
               absorb_results spec rest (lp1\<lparr>lp_messages := lp_messages lp1 @ [m]\<rparr>)))"

definition validate_terminal_output :: "agent_spec \<Rightarrow> json \<Rightarrow> exn + json" where
  "validate_terminal_output spec out =
     (case sp_output_model spec out of
        None \<Rightarrow> Inl (AgentRuntimeError FAIL_TERMINAL_SUBMIT_INVALID) | Some out' \<Rightarrow> Inr out')"

definition agent_result_of ::
  "agent_spec \<Rightarrow> run_context \<Rightarrow> json \<Rightarrow> model_usage \<Rightarrow> rat \<Rightarrow> trajectory_record list \<Rightarrow> exn + agent_result" where
  "agent_result_of spec ctx out usage cost trajectory =
     bindE (non_negative cost) (\<lambda>_.
       let evidence = \<lparr>ev_run_id = rc_run_id ctx, ev_run_version = rc_run_version ctx,
             ev_agent_id = sp_agent_id spec, ev_model_id = sp_model_id spec,
             ev_model_version = sp_model_version spec, ev_effort = sp_effort spec,
             ev_policy_version = sp_policy_version spec, ev_prompt = sp_prompt spec, ev_usage = usage,
             ev_cost = cost, ev_trajectory = trajectory\<rparr>
       in Inr \<lparr>rs_run_id = rc_run_id ctx, rs_run_version = rc_run_version ctx,
             rs_agent_id = sp_agent_id spec, rs_model_id = sp_model_id spec,
             rs_model_version = sp_model_version spec, rs_effort = sp_effort spec,
             rs_policy_version = sp_policy_version spec, rs_prompt = sp_prompt spec, rs_output = out,
             rs_usage = usage, rs_cost = cost, rs_trajectory = trajectory, rs_evidence = evidence\<rparr>)"

definition submit_terminal ::
  "runtime_env \<Rightarrow> agent_spec \<Rightarrow> run_context \<Rightarrow> model_usage \<Rightarrow> job \<Rightarrow> agent_result run" where
  "submit_terminal env spec ctx usage job =
     bindM (execute_toolM env spec ctx (fst job) (snd job) False) (\<lambda>executed.
     bindM (liftE (validate_terminal_output spec (ex_output executed))) (\<lambda>out.
     bindM (recordM env AGENT_OUTPUT_VALIDATED
              [(lit ''agent_id'', SStr (sp_agent_id spec)),
               (lit ''terminal_tool'', SStr (ts_name (vc_spec (fst job))))]
              (\<lambda>t. t\<lparr>tr_tool_call_id := Some (snd job), tr_tool_name := Some (ts_name (vc_spec (fst job)))\<rparr>)) (\<lambda>_.
     bindM (recordM env RUN_COMPLETED
              [(lit ''agent_id'', SStr (sp_agent_id spec)), (lit ''model_id'', SStr (sp_model_id spec))]
              (\<lambda>t. t\<lparr>tr_model_id := Some (sp_model_id spec)\<rparr>)) (\<lambda>_.
     bindM (readM st_trajectory) (\<lambda>trajectory.
       liftE (agent_result_of spec ctx out usage (run_cost usage spec) trajectory))))))"

datatype turn_end = Continues loop_state | Completes agent_result

definition read_jobs :: "nat option \<Rightarrow> job list \<Rightarrow> job list" where
  "read_jobs terminal jobs =
     map (\<lambda>i. jobs ! i) (filter (\<lambda>i. terminal \<noteq> Some i) [0..<length jobs])"

text \<open>From the authorised calls to the end of the turn.\<close>

definition perform_calls ::
  "runtime_env \<Rightarrow> agent_spec \<Rightarrow> run_context \<Rightarrow> nat \<Rightarrow> model_response \<Rightarrow> model_usage
     \<Rightarrow> validated_call list \<Rightarrow> nat option \<Rightarrow> loop_state \<Rightarrow> turn_end run" where
  "perform_calls env spec ctx turn response usage vs terminal lp =
     (let jobs = zip vs (tool_call_ids turn (length vs)); reads = read_jobs terminal jobs in
      bindM (liftE (validate_ModelMessage ((plain_message ASSISTANT)\<lparr>ms_tool_calls := mr_tool_calls response\<rparr>))) (\<lambda>m.
      bindM (execute_read_calls env spec ctx turn reads) (\<lambda>results.
      bindM (liftE (absorb_results spec (zip (map fst reads) results)
               (lp\<lparr>lp_messages := lp_messages lp @ [m]\<rparr>))) (\<lambda>lp'.
        case terminal of
          None \<Rightarrow> returnM (Continues lp')
        | Some k \<Rightarrow> bindM (submit_terminal env spec ctx usage (jobs ! k)) (\<lambda>r. returnM (Completes r))))))"

definition run_turn ::
  "runtime_env \<Rightarrow> agent_spec \<Rightarrow> run_context \<Rightarrow> nat \<Rightarrow> loop_state \<Rightarrow> turn_end run" where
  "run_turn env spec ctx turn lp =
     bindM (ask_model env spec ctx turn lp) (\<lambda>response.
     bindM (account_usage env spec turn response lp) (\<lambda>(usage, lp1).
     bindM (propose_calls env spec turn response lp1) (\<lambda>(vs, lp2).
     bindM (allow_calls env spec turn vs lp2) (\<lambda>terminal.
       perform_calls env spec ctx turn response usage vs terminal lp2))))"

section \<open>The run\<close>

text \<open>\<^verbatim>\<open>for turn in range(max_turns)\<close>, with the number of turns that are left, and what follows the loop.\<close>

fun run_turns ::
  "runtime_env \<Rightarrow> agent_spec \<Rightarrow> run_context \<Rightarrow> nat \<Rightarrow> nat \<Rightarrow> loop_state \<Rightarrow> agent_result run" where
  "run_turns env spec ctx turn 0 lp =
     raiseM (AgentRuntimeError
       (if \<not> subset_of (sp_required_tools spec) (lp_retrieved lp) then FAIL_REQUIRED_RETRIEVAL_MISSING
        else FAIL_TERMINAL_SUBMIT_MISSING))"
| "run_turns env spec ctx turn (Suc left) lp =
     bindM (run_turn env spec ctx turn lp) (\<lambda>r.
       case r of Completes result \<Rightarrow> returnM result
       | Continues lp' \<Rightarrow> run_turns env spec ctx (Suc turn) left lp')"

definition run_body :: "runtime_env \<Rightarrow> agent_spec \<Rightarrow> run_context \<Rightarrow> agent_result run" where
  "run_body env spec ctx =
     bindM (guardM (AgentRuntimeError FAIL_POLICY_VERSION_MISMATCH) (rc_policy_version ctx = sp_policy_version spec)) (\<lambda>_.
     bindM (require_remaining env (rc_deadline_at ctx)) (\<lambda>_.
     bindM (liftE (require_tool (en_registry env) (sp_submit_tool spec))) (\<lambda>terminal.
     bindM (guardM (AgentRuntimeError FAIL_TERMINAL_SUBMIT_INVALID) (ts_side_effect terminal = TERMINAL_SUBMIT)) (\<lambda>_.
     bindM (recordM env AGENT_STARTED
              [(lit ''agent_id'', SStr (sp_agent_id spec)), (lit ''model_id'', SStr (sp_model_id spec)),
               (lit ''model_version'', SStr (sp_model_version spec)),
               (lit ''policy_version'', SStr (sp_policy_version spec)),
               (lit ''prompt_bundle_hash'', SStr (pr_bundle_hash (sp_prompt spec)))]
              (\<lambda>t. t\<lparr>tr_model_id := Some (sp_model_id spec)\<rparr>)) (\<lambda>_.
       run_turns env spec ctx 0 (nat (bu_max_turns (sp_budget spec))) (new_loop_state ctx))))))"

definition failure_code_of :: "exn \<Rightarrow> agent_failure_code" where
  "failure_code_of e = (case e of AgentRuntimeError c \<Rightarrow> c | _ \<Rightarrow> FAIL_UNEXPECTED_RUNTIME_FAILURE)"

definition run_agent :: "runtime_env \<Rightarrow> agent_spec \<Rightarrow> run_context \<Rightarrow> (exn + agent_result) \<times> run_state" where
  "run_agent env spec ctx =
     catchM (run_body env spec ctx)
       (\<lambda>e. let c = failure_code_of e in
          bindM (recordM env AGENT_OUTPUT_REJECTED (failure_payload c) id) (\<lambda>_.
          bindM (recordM env RUN_FAILED (failure_payload c) id) (\<lambda>_.
            raiseM (AgentRuntimeError c))))
       (new_run_state (rc_run_id ctx))"

section \<open>Invariants of a run\<close>

text \<open>The keys of the payloads that the runtime records.\<close>

definition safe_keys :: "pystr list" where
  "safe_keys = map lit [''failure_code'', ''agent_id'', ''model_id'', ''model_version'', ''policy_version'',
     ''prompt_bundle_hash'', ''turn'', ''model_call_id'', ''input_tokens'', ''output_tokens'', ''latency_ms'',
     ''tool_call_id'', ''tool_name'', ''observation_hash'', ''observation_bytes'', ''terminal_tool'']"

definition payload_ok :: "payload \<Rightarrow> bool" where
  "payload_ok p \<longleftrightarrow> distinct (map fst p) \<and> set (map fst p) \<subseteq> set safe_keys"

lemma payload_ok_simps [simp]:
  "payload_ok (failure_payload c)"
  "payload_ok (failure_payload c @ [(lit ''model_id'', a), (lit ''model_call_id'', b)])"
  "payload_ok [(lit ''turn'', t), (lit ''model_id'', a), (lit ''model_call_id'', b)]"
  "payload_ok [(lit ''turn'', t), (lit ''model_id'', a), (lit ''model_call_id'', b), (lit ''input_tokens'', i),
     (lit ''output_tokens'', j), (lit ''latency_ms'', l)]"
  "payload_ok (call_payload c' n @ observation_payload ob)"
  "payload_ok (call_payload c' n)"
  "payload_ok [(lit ''agent_id'', a), (lit ''terminal_tool'', b)]"
  "payload_ok [(lit ''agent_id'', a), (lit ''model_id'', b)]"
  "payload_ok [(lit ''agent_id'', a), (lit ''model_id'', b), (lit ''model_version'', v),
     (lit ''policy_version'', p'), (lit ''prompt_bundle_hash'', h)]"
  by (auto simp: payload_ok_def safe_keys_def failure_payload_def call_payload_def observation_payload_def
      split: option.split)

text \<open>An update of an entry that leaves its token usage alone.\<close>

definition quiet :: "(trajectory_record \<Rightarrow> trajectory_record) \<Rightarrow> bool" where
  "quiet fill \<longleftrightarrow> (\<forall>x. tr_usage (fill x) = tr_usage x)"

declare quiet_def [simp]

text \<open>A predicate that recording an event of the agent without token usage and reading the clock keep.\<close>

locale quiet_invariant =
  fixes env :: runtime_env and I :: "run_state \<Rightarrow> bool"
  assumes keeps_record: "t \<noteq> RUN_COMPLETED \<Longrightarrow> t \<noteq> RUN_FAILED \<Longrightarrow> payload_ok p \<Longrightarrow> quiet fill \<Longrightarrow> keeps I (recordM env t p fill)"
    and keeps_clock: "keeps I (require_remaining env deadline)"
begin

lemma keeps_record_call:
  "t \<noteq> RUN_COMPLETED \<Longrightarrow> t \<noteq> RUN_FAILED \<Longrightarrow> extra \<in> insert [] (range observation_payload) \<Longrightarrow>
     keeps I (record_call env t status extra v call_id)"
  unfolding record_call_def by (rule keeps_record) auto

lemma keeps_propose: "keeps I (propose_calls env spec turn response lp)"
  unfolding propose_calls_def Let_def by (intro hoare_rules keeps_forM keeps_record_call) simp_all

lemma keeps_allow: "keeps I (allow_calls env spec turn vs lp)"
  unfolding allow_calls_def by (intro hoare_rules keeps_forM keeps_record_call) simp_all

lemma keeps_start: "keeps I (start_tool env v call_id)"
  unfolding start_tool_def by (intro keeps_record_call) simp_all

end

text \<open>\<dots> that recording the usage of a response keeps, too.\<close>

locale record_invariant = quiet_invariant +
  assumes keeps_usage: "payload_ok p \<Longrightarrow> keeps I (recordM env MODEL_COMPLETED p fill)"
begin

lemma keeps_account: "keeps I (account_usage env spec turn response lp)"
  unfolding account_usage_def Let_def by (intro hoare_rules keeps_usage) simp_all

end

text \<open>\<dots> that calling the model keeps, too.\<close>

locale model_invariant = record_invariant +
  assumes keeps_model: "keeps I (call_model env req timeout)"
begin

lemma keeps_record_model_failure: "keeps I (record_model_failure env c model_id call_id)"
  unfolding record_model_failure_def by (intro hoare_rules keeps_record) simp_all

lemma keeps_complete_model: "keeps I (complete_model env req deadline model_id call_id)"
  unfolding complete_model_def
  by (intro keeps_catch keeps_bind keeps_clock keeps_model)
    (simp split: exn.split add: keeps_record_model_failure keeps_raise)

lemma keeps_ask: "keeps I (ask_model env spec ctx turn lp)"
  unfolding ask_model_def by (intro hoare_rules keeps_record keeps_clock keeps_complete_model) simp_all

end

text \<open>\<dots> that running a handler keeps, instead.\<close>

locale handler_invariant = quiet_invariant +
  assumes keeps_handler: "keeps I (run_handler env spec ctx v include remaining)"
begin

lemma keeps_finish: "keeps I (finish_tool env spec ctx v call_id include)"
  unfolding finish_tool_def
proof (intro keeps_bind keeps_catch keeps_clock keeps_handler keeps_record_call keeps_return)
  fix e
  have "keeps I (bindM (record_call env TOOL_FAILED (Some CALL_FAILED) [] v call_id) (\<lambda>_. raiseM e'))" for e'
    by (intro hoare_rules keeps_record_call) simp_all
  then show "keeps I (case e of AgentRuntimeError c \<Rightarrow>
      bindM (record_call env TOOL_FAILED (Some CALL_FAILED) [] v call_id) (\<lambda>_. raiseM e) | _ \<Rightarrow> raiseM e)"
    by (cases e; simp add: keeps_raise)
qed simp_all

lemma keeps_execute: "keeps I (execute_toolM env spec ctx v call_id include)"
  unfolding execute_toolM_def by (intro keeps_bind keeps_start keeps_finish)

lemma step_task_keeps: "I (snd c) \<Longrightarrow> I (snd (step_task env spec ctx jobs i c))"
  by (auto simp: step_task_def split: prod.splits task.splits sum.splits
      dest: keepsD [OF keeps_start] keepsD [OF keeps_finish])

lemma run_tasks_keeps: "I (snd c) \<Longrightarrow> I (snd (snd (run_tasks (step_task env spec ctx jobs) is c)))"
  by (induction "is" arbitrary: c) (auto simp: Let_def step_task_keeps split: option.split)

lemma late_steps_keep: "I (snd c) \<Longrightarrow> I (snd (fold (step_task env spec ctx jobs) is c))"
  by (induction "is" arbitrary: c) (auto simp: step_task_keeps)

lemma keeps_reads: "keeps I (execute_read_calls env spec ctx turn jobs)"
proof (rule keepsI)
  fix s r s'
  assume i: "I s" and e: "execute_read_calls env spec ctx turn jobs s = (r, s')"
  obtain x tasks s1 where t: "run_tasks (step_task env spec ctx jobs)
      (full_schedule (en_schedule env turn) (length jobs)) (replicate (length jobs) TReady, s) = (x, tasks, s1)"
    by (metis prod_cases3)
  have "I s1"
    using run_tasks_keeps [of "(replicate (length jobs) TReady, s)" spec ctx jobs
        "full_schedule (en_schedule env turn) (length jobs)"] i t by simp
  then show "I s'" using e t late_steps_keep [of "(tasks, s1)"]
    by (auto simp: execute_read_calls_def Let_def split: option.splits)
qed

end

locale run_invariant = model_invariant + handler_invariant

section \<open>The tools a run executes\<close>

lemma recordM_frame: "recordM env t p fill s = (r, s') \<Longrightarrow>
    st_executed s' = st_executed s \<and> st_model_calls s' = st_model_calls s \<and> st_readings s' = st_readings s"
  by (auto simp: recordM_def split: prod.splits sum.splits)

interpretation executed: model_invariant env "\<lambda>s. Q (st_executed s)" for env Q
proof unfold_locales
  show "keeps (\<lambda>s. Q (st_executed s)) (recordM env t p fill)" for t p fill
    by (rule keepsI) (auto dest: recordM_frame)
qed (auto intro!: keepsI simp: require_remaining_def call_model_def dest: recordM_frame)

interpretation model_calls: handler_invariant env "\<lambda>s. Q (st_model_calls s)" for env Q
proof unfold_locales
  show "keeps (\<lambda>s. Q (st_model_calls s)) (recordM env t p fill)" for t p fill
    by (rule keepsI) (auto dest: recordM_frame)
qed (auto intro!: keepsI simp: require_remaining_def run_handler_def)

interpretation model_calls: record_invariant env "\<lambda>s. Q (st_model_calls s)" for env Q
  by unfold_locales (rule keepsI, auto dest: recordM_frame)

text \<open>Only the phases that ask the model and run a handler change the counts.\<close>

definition frame :: "pystr list \<Rightarrow> nat \<Rightarrow> run_state \<Rightarrow> bool" where
  "frame names k s \<longleftrightarrow> st_executed s = names \<and> st_model_calls s = k"

lemma complete_model_calls:
  "complete_model env req deadline m i s = (r, s') \<Longrightarrow> st_model_calls s' \<le> Suc (st_model_calls s)"
proof -
  have rem: "require_remaining env d s = (q, s1) \<Longrightarrow> st_model_calls s1 = st_model_calls s" for d s q s1
    by (auto simp: require_remaining_def)
  have attempt: "bindM (require_remaining env deadline) (call_model env req) s = (q, s1) \<Longrightarrow>
      st_model_calls s1 \<le> Suc (st_model_calls s)" for q s1
    by (auto simp: bindM_def call_model_def split: prod.splits sum.splits dest!: rem)
  have fail: "record_model_failure env c m i s1 = (q, s2) \<Longrightarrow> st_model_calls s2 = st_model_calls s1" for c s1 q s2
    by (auto simp: record_model_failure_def bindM_def raiseM_def split: prod.splits sum.splits dest!: recordM_frame)
  assume "complete_model env req deadline m i s = (r, s')"
  then show ?thesis
    by (auto simp: complete_model_def catchM_def raiseM_def split: prod.splits sum.splits exn.splits
        dest!: attempt fail)
qed

lemma ask_model_frame:
  "hoare (frame names k) (ask_model env spec ctx turn lp)
     (\<lambda>_ s. st_executed s = names \<and> st_model_calls s \<le> Suc k) (\<lambda>_ s. st_executed s = names \<and> st_model_calls s \<le> Suc k)"
proof -
  have e: "ask_model env spec ctx turn lp s = (r, s') \<Longrightarrow> st_executed s' = st_executed s" for s r s'
    using keepsD [OF executed.keeps_ask [of "\<lambda>x. x = st_executed s"]] by blast
  have rem: "require_remaining env d s = (q, s1) \<Longrightarrow> st_model_calls s1 = st_model_calls s" for d s q s1
    by (auto simp: require_remaining_def)
  have m: "ask_model env spec ctx turn lp s = (r, s') \<Longrightarrow> st_model_calls s' \<le> Suc (st_model_calls s)" for s r s'
    by (auto simp: ask_model_def bindM_def guardM_def liftE_def returnM_def split: prod.splits sum.splits if_splits
        dest!: rem recordM_frame complete_model_calls)
  show ?thesis by (rule hoareI) (auto simp: frame_def dest: e m)
qed

text \<open>What the tasks of a turn have executed so far.\<close>

definition is_done :: "task \<Rightarrow> bool" where
  "is_done t = (case t of TDone _ \<Rightarrow> True | _ \<Rightarrow> False)"

definition job_name :: "job \<Rightarrow> pystr" where
  "job_name j = ts_name (vc_spec (fst j))"

definition tasks_inv :: "pystr list \<Rightarrow> nat \<Rightarrow> job list \<Rightarrow> task list \<times> run_state \<Rightarrow> bool" where
  "tasks_inv names k jobs c \<longleftrightarrow>
     length (fst c) = length jobs \<and> st_model_calls (snd c) = k
     \<and> (\<exists>new. st_executed (snd c) = names @ new \<and> set new \<subseteq> set (map job_name jobs)
          \<and> length new \<le> card {i. i < length jobs \<and> is_done (fst c ! i)}
          \<and> (\<forall>i x. i < length jobs \<and> fst c ! i = TDone (Inr x) \<longrightarrow> job_name (jobs ! i) \<in> set new))"

lemma tasks_inv_start: "frame names k s \<Longrightarrow> tasks_inv names k jobs (replicate (length jobs) TReady, s)"
  by (auto simp: tasks_inv_def frame_def)

lemma start_tool_frame: "start_tool env v i s = (r, s') \<Longrightarrow>
    st_executed s' = st_executed s \<and> st_model_calls s' = st_model_calls s"
  using keepsD [OF executed.keeps_start [of "\<lambda>x. x = st_executed s"]]
    keepsD [OF model_calls.keeps_start [of "\<lambda>x. x = st_model_calls s"]] by blast

lemma finish_tool_frame:
  assumes "finish_tool env spec ctx v i include s = (r, s')"
  shows "st_model_calls s' = st_model_calls s
    \<and> (st_executed s' = st_executed s \<and> (\<exists>e. r = Inl e) \<or> st_executed s' = st_executed s @ [ts_name (vc_spec v)])"
proof
  show "st_model_calls s' = st_model_calls s"
    using keepsD [OF model_calls.keeps_finish [of "\<lambda>x. x = st_model_calls s"] _ assms] by blast
  have rec: "record_call env t st ex v i s = (q, s1) \<Longrightarrow> st_executed s1 = st_executed s" for t st ex s q s1
    by (auto simp: record_call_def dest!: recordM_frame)
  have attempt: "bindM (require_remaining env d) (run_handler env spec ctx v include) s = (q, s1) \<Longrightarrow>
      st_executed s1 = st_executed s \<and> (\<exists>e. q = Inl e) \<or> st_executed s1 = st_executed s @ [ts_name (vc_spec v)]" for d q s1
    by (auto simp: bindM_def run_handler_def require_remaining_def split: sum.splits prod.splits)
  obtain q s1 where t: "bindM (require_remaining env (rc_deadline_at ctx)) (run_handler env spec ctx v include) s = (q, s1)"
    by (metis surj_pair)
  show "st_executed s' = st_executed s \<and> (\<exists>e. r = Inl e) \<or> st_executed s' = st_executed s @ [ts_name (vc_spec v)]"
    using assms attempt [OF t]
    by (auto simp: finish_tool_def bindM_def [of "catchM _ _"] catchM_def t bindM_def [of "record_call _ _ _ _ _ _"]
        raiseM_def returnM_def split: prod.splits sum.splits exn.splits dest!: rec)
qed

lemma tasks_inv_step:
  assumes "tasks_inv names k jobs c"
  shows "tasks_inv names k jobs (step_task env spec ctx jobs i c)"
proof -
  obtain tasks s where c: "c = (tasks, s)" by (cases c)
  note I = assms [unfolded tasks_inv_def c fst_conv snd_conv]
  then obtain new where N: "st_executed s = names @ new" "set new \<subseteq> set (map job_name jobs)"
    "length new \<le> card {i. i < length jobs \<and> is_done (tasks ! i)}"
    "\<forall>i x. i < length jobs \<and> tasks ! i = TDone (Inr x) \<longrightarrow> job_name (jobs ! i) \<in> set new" by blast
  have len: "length tasks = length jobs" and m: "st_model_calls s = k" using I by simp_all
  have same: "tasks_inv names k jobs (tasks[i := t], s')"
    if "i < length jobs" "\<not> is_done (tasks ! i)" "st_executed s' = st_executed s" "st_model_calls s' = k"
      "\<forall>x. t \<noteq> TDone (Inr x)" for t s'
  proof -
    have "{j. j < length jobs \<and> is_done (tasks ! j)} \<subseteq> {j. j < length jobs \<and> is_done (tasks[i := t] ! j)}"
      using that(1,2) len by (auto simp: nth_list_update)
    then have "card {j. j < length jobs \<and> is_done (tasks ! j)} \<le> card {j. j < length jobs \<and> is_done (tasks[i := t] ! j)}"
      by (rule card_mono [rotated]) simp
    with N(3) have "length new \<le> card {j. j < length jobs \<and> is_done (tasks[i := t] ! j)}" by simp
    then show ?thesis
      using N that len unfolding tasks_inv_def
      by (intro conjI exI [of _ new]) (auto simp: nth_list_update)
  qed
  have more: "tasks_inv names k jobs (tasks[i := TDone r], s')"
    if "i < length jobs" "\<not> is_done (tasks ! i)" "st_executed s' = st_executed s @ [job_name (jobs ! i)]"
      "st_model_calls s' = k" for r s'
  proof -
    have "{j. j < length jobs \<and> is_done (tasks[i := TDone r] ! j)}
        = insert i {j. j < length jobs \<and> is_done (tasks ! j)}"
      using that(1) len by (auto simp: nth_list_update is_done_def)
    then have "card {j. j < length jobs \<and> is_done (tasks[i := TDone r] ! j)}
        = Suc (card {j. j < length jobs \<and> is_done (tasks ! j)})" using that(2) by simp
    then show ?thesis
      using N that len unfolding tasks_inv_def
      by (intro conjI exI [of _ "new @ [job_name (jobs ! i)]"]) (auto simp: nth_list_update)
  qed
  show ?thesis
  proof (cases "i < length jobs")
    case True
    show ?thesis
    proof (cases "tasks ! i")
      case TReady
      obtain r s' where st: "start_tool env (fst (jobs ! i)) (snd (jobs ! i)) s = (r, s')" by fastforce
      with start_tool_frame [OF st] same [OF True, of s' "TDone (Inl e)" for e] same [OF True, of s' TRunning]
      show ?thesis using TReady len True m
        by (cases r) (auto simp: c step_task_def is_done_def)
    next
      case TRunning
      obtain r s' where f: "finish_tool env spec ctx (fst (jobs ! i)) (snd (jobs ! i)) True s = (r, s')" by fastforce
      have "step_task env spec ctx jobs i c = (tasks[i := TDone r], s')"
        using TRunning f len True by (simp add: c step_task_def)
      then show ?thesis
        using finish_tool_frame [OF f] m True TRunning same [OF True, of s' "TDone r"] more [OF True, of s' r]
        by (auto simp: is_done_def job_name_def)
    next
      case (TDone r)
      then show ?thesis using assms len True by (simp add: c step_task_def)
    qed
  next
    case False
    then show ?thesis using assms len by (simp add: c step_task_def)
  qed
qed

lemma tasks_inv_run: "tasks_inv names k jobs c \<Longrightarrow> tasks_inv names k jobs (snd (run_tasks (step_task env spec ctx jobs) is c))"
  by (induction "is" arbitrary: c) (auto simp: Let_def tasks_inv_step split: option.split)

lemma tasks_inv_fold: "tasks_inv names k jobs c \<Longrightarrow> tasks_inv names k jobs (fold (step_task env spec ctx jobs) is c)"
  by (induction "is" arbitrary: c) (auto simp: tasks_inv_step)

text \<open>Everything the tasks execute, and all of it when they succeed.\<close>

lemma tasks_inv_bound:
  "tasks_inv names k jobs c \<Longrightarrow> \<exists>new. st_executed (snd c) = names @ new \<and> set new \<subseteq> set (map job_name jobs)
     \<and> length new \<le> length jobs \<and> st_model_calls (snd c) = k
     \<and> (\<forall>i x. i < length jobs \<and> fst c ! i = TDone (Inr x) \<longrightarrow> job_name (jobs ! i) \<in> set new)"
proof -
  assume i: "tasks_inv names k jobs c"
  have "card {i. i < length jobs \<and> is_done (fst c ! i)} \<le> card {..<length jobs}" by (rule card_mono) auto
  with i show ?thesis unfolding tasks_inv_def by fastforce
qed

lemma task_results_done: "mapE task_result tasks = Inr xs \<Longrightarrow> i < length tasks \<Longrightarrow> tasks ! i = TDone (Inr (xs ! i))"
  by (cases "tasks ! i") (auto simp: mapE_Inr_iff list_all2_conv_all_nth task_result_def split: task.splits)

lemma execute_read_calls_frame:
  "hoare (frame names k) (execute_read_calls env spec ctx turn jobs)
     (\<lambda>xs s. length xs = length jobs \<and> st_model_calls s = k \<and> (\<exists>new. st_executed s = names @ new
        \<and> set new = set (map job_name jobs) \<and> length new \<le> length jobs))
     (\<lambda>e s. st_model_calls s = k \<and> (\<exists>new. st_executed s = names @ new
        \<and> set new \<subseteq> set (map job_name jobs) \<and> length new \<le> length jobs))"
proof (rule hoareI)
  fix s s' and r :: "exn + executed_call list"
  define c where "c = run_tasks (step_task env spec ctx jobs)
      (full_schedule (en_schedule env turn) (length jobs)) (replicate (length jobs) TReady, s)"
  assume f: "frame names k s"
  have i: "tasks_inv names k jobs (snd c)"
    unfolding c_def by (rule tasks_inv_run [OF tasks_inv_start [OF f]])
  {
    fix xs assume "execute_read_calls env spec ctx turn jobs s = (Inr xs, s')"
    then have "mapE task_result (fst (snd c)) = Inr xs" and s': "s' = snd (snd c)"
      by (auto simp: execute_read_calls_def Let_def c_def [symmetric] split: option.splits prod.splits)
    moreover have len: "length (fst (snd c)) = length jobs" using i by (simp add: tasks_inv_def)
    ultimately have d: "\<forall>i < length jobs. fst (snd c) ! i = TDone (Inr (xs ! i))" "length xs = length jobs"
      by (auto dest: task_results_done mapE_length)
    from tasks_inv_bound [OF i] obtain new where "st_executed s' = names @ new" "length new \<le> length jobs"
      "st_model_calls s' = k" "set new \<subseteq> set (map job_name jobs)"
      "\<forall>i < length jobs. job_name (jobs ! i) \<in> set new" using d s' by blast
    moreover then have "\<forall>j \<in> set jobs. job_name j \<in> set new" by (simp only: all_set_conv_all_nth)
    then have "set (map job_name jobs) \<subseteq> set new" by (simp add: image_subset_iff)
    ultimately show "length xs = length jobs \<and> st_model_calls s' = k \<and> (\<exists>new. st_executed s' = names @ new
        \<and> set new = set (map job_name jobs) \<and> length new \<le> length jobs)"
      using d(2) by blast
  }
  {
    fix e assume "execute_read_calls env spec ctx turn jobs s = (Inl e, s')"
    then have "s' = snd (snd c) \<or> s' = snd (fold (step_task env spec ctx jobs) (en_late env turn) (snd c))"
      by (auto simp: execute_read_calls_def Let_def c_def [symmetric] split: option.splits prod.splits)
    with i tasks_inv_fold [OF i, of env spec ctx "en_late env turn"]
    have "\<exists>c'. tasks_inv names k jobs c' \<and> s' = snd c'" by blast
    then show "st_model_calls s' = k \<and> (\<exists>new. st_executed s' = names @ new
        \<and> set new \<subseteq> set (map job_name jobs) \<and> length new \<le> length jobs)"
      using tasks_inv_bound by blast
  }
qed

section \<open>The loop invariant\<close>

definition turn_inv :: "agent_spec \<Rightarrow> nat \<Rightarrow> loop_state \<Rightarrow> run_state \<Rightarrow> bool" where
  "turn_inv spec turn lp s \<longleftrightarrow>
     set (st_executed s) \<subseteq> set (sp_read_tools spec) \<and> set (lp_retrieved lp) \<subseteq> set (st_executed s)
     \<and> int (length (st_executed s)) \<le> lp_count lp \<and> lp_count lp \<le> bu_max_tool_calls (sp_budget spec)
     \<and> st_model_calls s \<le> turn \<and> \<not> lp_submitted lp"

text \<open>What holds of every run: declared reads, then at most one submit, once the retrieval is complete.\<close>

definition confined :: "agent_spec \<Rightarrow> nat \<Rightarrow> run_state \<Rightarrow> bool" where
  "confined spec k s \<longleftrightarrow>
     (\<exists>reads subs. st_executed s = reads @ subs \<and> set reads \<subseteq> set (sp_read_tools spec)
        \<and> (subs = [] \<or> subs = [sp_submit_tool spec] \<and> set (sp_required_tools spec) \<subseteq> set reads))
     \<and> int (length (st_executed s)) \<le> bu_max_tool_calls (sp_budget spec) \<and> st_model_calls s \<le> k"

definition completed :: "agent_spec \<Rightarrow> run_context \<Rightarrow> agent_result \<Rightarrow> run_state \<Rightarrow> bool" where
  "completed spec ctx res s \<longleftrightarrow>
     (\<exists>reads. st_executed s = reads @ [sp_submit_tool spec] \<and> set reads \<subseteq> set (sp_read_tools spec)
        \<and> set (sp_required_tools spec) \<subseteq> set reads)
     \<and> within_budget spec (rs_usage res) \<and> rs_cost res = run_cost (rs_usage res) spec
     \<and> (\<exists>j. sp_output_model spec j = Some (rs_output res))
     \<and> rs_run_id res = rc_run_id ctx \<and> rs_agent_id res = sp_agent_id spec \<and> rs_model_id res = sp_model_id spec
     \<and> rs_policy_version res = sp_policy_version spec"

lemma confinedI:
  "st_executed s = reads @ subs \<Longrightarrow> set reads \<subseteq> set (sp_read_tools spec)
     \<Longrightarrow> subs = [] \<or> subs = [sp_submit_tool spec] \<and> set (sp_required_tools spec) \<subseteq> set reads
     \<Longrightarrow> int (length (st_executed s)) \<le> bu_max_tool_calls (sp_budget spec) \<Longrightarrow> st_model_calls s \<le> k
     \<Longrightarrow> confined spec k s"
  unfolding confined_def by blast

lemma confined_mono: "confined spec k s \<Longrightarrow> k \<le> k' \<Longrightarrow> confined spec k' s"
  unfolding confined_def by auto

lemma turn_inv_confined: "turn_inv spec turn lp s \<Longrightarrow> confined spec turn s"
  unfolding turn_inv_def confined_def
  by (intro conjI exI [of _ "st_executed s"] exI [of _ "[]"]) auto

lemma read_jobs_None [simp]: "read_jobs None jobs = jobs"
  by (simp add: read_jobs_def map_nth)

lemma read_jobs_last: "read_jobs (Some (length js)) (js @ [j]) = js"
proof -
  have "filter (\<lambda>i. Some (length js) \<noteq> Some i) [0..<Suc (length js)] = [0..<length js]"
    by (auto simp: filter_id_conv)
  moreover have "map (\<lambda>i. (js @ [j]) ! i) [0..<length js] = js"
    by (rule nth_equalityI) (auto simp: nth_append)
  ultimately show ?thesis unfolding read_jobs_def length_append_singleton by (simp only:)
qed

lemma length_tool_call_ids [simp]: "length (tool_call_ids turn n) = n"
  by (simp add: tool_call_ids_def)

lemma absorb_results_Inr:
  "absorb_results spec xs lp = Inr lp' \<Longrightarrow>
     lp_count lp' = lp_count lp \<and> lp_submitted lp' = lp_submitted lp
     \<and> set (lp_retrieved lp') \<subseteq> set (lp_retrieved lp) \<union> set (map (\<lambda>x. ts_name (vc_spec (fst x))) xs)"
proof (induction spec xs lp rule: absorb_results.induct)
  case (2 spec v x rest lp)
  from "2.prems" obtain ob m where o: "ex_observation x = Some ob"
    and m: "validate_ModelMessage ((plain_message TOOL)\<lparr>ms_content := Some (ob_content ob),
              ms_tool_call_id := Some (tc_id (vc_call v))\<rparr>) = Inr m"
    by (auto simp: Let_def bindE_Inr_iff split: option.splits)
  show ?case using "2.prems" "2.IH" [OF refl o m] by (auto simp: Let_def o m split: if_splits)
qed simp

lemma account_usage_Inr:
  "account_usage env spec turn response lp s = (Inr (usage, lp'), s') \<Longrightarrow>
     within_budget spec usage \<and> mr_tool_calls response \<noteq> [] \<and> lp_count lp' = lp_count lp
     \<and> lp_retrieved lp' = lp_retrieved lp \<and> lp_submitted lp' = lp_submitted lp"
  by (auto simp: account_usage_def Let_def comp_iffs)

lemma propose_calls_Inr:
  "registry_ok (en_registry env) \<Longrightarrow> propose_calls env spec turn response lp s = (Inr (vs, lp'), s') \<Longrightarrow>
     lp_count lp' = lp_count lp + int (length vs) \<and> lp_count lp' \<le> bu_max_tool_calls (sp_budget spec)
     \<and> lp_retrieved lp' = lp_retrieved lp \<and> lp_submitted lp' = lp_submitted lp"
  by (auto simp: propose_calls_def Let_def comp_iffs split: prod.splits)

lemma allow_calls_Inr:
  "is_valid validate_AgentSpec spec \<Longrightarrow> allow_calls env spec turn vs lp s = (Inr terminal, s') \<Longrightarrow>
     \<not> lp_submitted lp \<and> permitted spec (lp_retrieved lp) vs terminal"
  by (auto simp: allow_calls_def comp_iffs authorize_permitted)

lemma account_usage_frame: "account_usage env spec turn response lp s = (r, s') \<Longrightarrow>
    st_executed s' = st_executed s \<and> st_model_calls s' = st_model_calls s"
  using keepsD [OF executed.keeps_account [of "\<lambda>x. x = st_executed s"]]
    keepsD [OF model_calls.keeps_account [of "\<lambda>x. x = st_model_calls s"]] by blast

lemma propose_calls_frame: "propose_calls env spec turn response lp s = (r, s') \<Longrightarrow>
    st_executed s' = st_executed s \<and> st_model_calls s' = st_model_calls s"
  using keepsD [OF executed.keeps_propose [of "\<lambda>x. x = st_executed s"]]
    keepsD [OF model_calls.keeps_propose [of "\<lambda>x. x = st_model_calls s"]] by blast

lemma allow_calls_frame: "allow_calls env spec turn vs lp s = (r, s') \<Longrightarrow>
    st_executed s' = st_executed s \<and> st_model_calls s' = st_model_calls s"
  using keepsD [OF executed.keeps_allow [of "\<lambda>x. x = st_executed s"]]
    keepsD [OF model_calls.keeps_allow [of "\<lambda>x. x = st_model_calls s"]] by blast

lemma execute_toolM_frame:
  assumes "execute_toolM env spec ctx v i include s = (r, s')"
  shows "st_model_calls s' = st_model_calls s
    \<and> (st_executed s' = st_executed s \<and> (\<exists>e. r = Inl e) \<or> st_executed s' = st_executed s @ [ts_name (vc_spec v)])"
  using assms
  by (auto simp: execute_toolM_def bindM_def split: prod.splits sum.splits dest!: start_tool_frame finish_tool_frame)

lemma submit_terminal_frame:
  assumes "submit_terminal env spec ctx usage job s = (r, s')"
  shows "st_model_calls s' = st_model_calls s
    \<and> (st_executed s' = st_executed s \<and> (\<exists>e. r = Inl e) \<or> st_executed s' = st_executed s @ [ts_name (vc_spec (fst job))])"
  using assms
  by (auto simp: submit_terminal_def bindM_def liftE_def readM_def split: prod.splits sum.splits
      dest!: execute_toolM_frame recordM_frame)

lemma submit_terminal_Inr:
  "submit_terminal env spec ctx usage job s = (Inr res, s') \<Longrightarrow>
     rs_usage res = usage \<and> rs_cost res = run_cost usage spec \<and> (\<exists>j. sp_output_model spec j = Some (rs_output res))
     \<and> rs_run_id res = rc_run_id ctx \<and> rs_agent_id res = sp_agent_id spec \<and> rs_model_id res = sp_model_id spec
     \<and> rs_policy_version res = sp_policy_version spec \<and> 0 \<le> rs_cost res
     \<and> rs_evidence res = \<lparr>ev_run_id = rs_run_id res, ev_run_version = rs_run_version res,
          ev_agent_id = rs_agent_id res, ev_model_id = rs_model_id res, ev_model_version = rs_model_version res,
          ev_effort = rs_effort res, ev_policy_version = rs_policy_version res, ev_prompt = rs_prompt res,
          ev_usage = rs_usage res, ev_cost = rs_cost res, ev_trajectory = rs_trajectory res\<rparr>"
  by (auto simp: submit_terminal_def comp_iffs agent_result_of_def Let_def bindE_Inr_iff non_negative_Inr_iff
      validate_terminal_output_def split: option.splits) blast

definition turn_post :: "agent_spec \<Rightarrow> run_context \<Rightarrow> nat \<Rightarrow> exn + turn_end \<Rightarrow> run_state \<Rightarrow> bool" where
  "turn_post spec ctx k r s =
     (case r of
        Inl _ \<Rightarrow> confined spec k s
      | Inr (Continues lp) \<Rightarrow> turn_inv spec k lp s
      | Inr (Completes res) \<Rightarrow> completed spec ctx res s \<and> confined spec k s)"

lemma map_zip_fst: "length xs = length ys \<Longrightarrow> map (\<lambda>x. f (fst x)) (zip xs ys) = map f xs"
  by (induction rule: list_induct2) auto

lemma permitted_jobs:
  assumes "permitted spec retrieved vs terminal" and "length ids = length vs"
  shows "set (map job_name (read_jobs terminal (zip vs ids))) \<subseteq> set (sp_read_tools spec)
    \<and> length (read_jobs terminal (zip vs ids)) + (if terminal = None then 0 else 1) = length vs
    \<and> (\<forall>k. terminal = Some k \<longrightarrow> job_name (zip vs ids ! k) = sp_submit_tool spec
         \<and> set (sp_required_tools spec) \<subseteq> set retrieved)"
proof (cases terminal)
  case None
  have "map job_name (zip vs ids) = map (\<lambda>v. ts_name (vc_spec v)) vs"
    using map_zip_fst [of vs ids "\<lambda>v. ts_name (vc_spec v)"] assms(2) by (simp add: job_name_def [abs_def])
  then have "set (map job_name (zip vs ids)) = (\<lambda>v. ts_name (vc_spec v)) ` set vs" by simp
  then show ?thesis using None assms unfolding None read_jobs_None
    by (auto simp: permitted_def list_all_iff read_permitted_def)
next
  case (Some k)
  with assms(1) have ne: "vs \<noteq> []" by (simp add: permitted_def)
  then obtain cs c where c: "vs = cs @ [c]" by (metis rev_exhaust)
  moreover from c assms(2) obtain js j where i: "ids = js @ [j]" by (metis Nil_is_append_conv length_0_conv list.discI rev_exhaust)
  ultimately have len: "length js = length cs" using assms(2) by simp
  then have z: "zip vs ids = zip cs js @ [(c, j)]" by (simp add: c i)
  have k: "k = length (zip cs js)" using assms(1) Some len by (simp add: permitted_def c)
  have r: "read_jobs terminal (zip vs ids) = zip cs js" unfolding z Some k by (rule read_jobs_last)
  have e: "zip vs ids ! k = (c, j)" unfolding z k by (rule nth_append_length)
  have "set (map job_name (zip cs js)) \<subseteq> (\<lambda>v. ts_name (vc_spec v)) ` set cs"
    by (auto simp: job_name_def dest: set_zip_leftD)
  then show ?thesis unfolding r using assms(1) Some len e
    by (auto simp: permitted_def c list_all_iff read_permitted_def submit_permitted_def job_name_def)
qed

lemma perform_calls_post:
  assumes "permitted spec (lp_retrieved lp) vs terminal"
    and "set names \<subseteq> set (sp_read_tools spec)" and "set (lp_retrieved lp) \<subseteq> set names"
    and "int (length names) + int (length vs) \<le> lp_count lp" and "lp_count lp \<le> bu_max_tool_calls (sp_budget spec)"
    and "\<not> lp_submitted lp" and "within_budget spec usage" and "frame names k s" and "k \<le> n"
    and "perform_calls env spec ctx turn response usage vs terminal lp s = (r, s')"
  shows "turn_post spec ctx n r s'"
proof -
  define jobs where "jobs = zip vs (tool_call_ids turn (length vs))"
  define reads where "reads = read_jobs terminal jobs"
  have J: "set (map job_name reads) \<subseteq> set (sp_read_tools spec)"
    "length reads + (if terminal = None then 0 else 1) = length vs"
    "\<And>k. terminal = Some k \<Longrightarrow> job_name (jobs ! k) = sp_submit_tool spec
       \<and> set (sp_required_tools spec) \<subseteq> set (lp_retrieved lp)"
    using permitted_jobs [OF assms(1), of "tool_call_ids turn (length vs)"] unfolding reads_def jobs_def by auto
  have conf: "confined spec n s1" if "st_executed s1 = names @ new" "set new \<subseteq> set (map job_name reads)"
    "length new \<le> length reads" "st_model_calls s1 = k" for s1 new
    unfolding confined_def using that J(1,2) assms(2,4,5,9)
    by (intro conjI exI [of _ "st_executed s1"] exI [of _ "[]"]) auto
  obtain q s1 where x: "execute_read_calls env spec ctx turn reads s = (q, s1)" by fastforce
  show ?thesis
  proof (cases "validate_ModelMessage ((plain_message ASSISTANT)\<lparr>ms_tool_calls := mr_tool_calls response\<rparr>)")
    case (Inl e)
    then show ?thesis using assms(8,10) conf [of s "[]"]
      by (auto simp: perform_calls_def Let_def bindM_def liftE_def turn_post_def frame_def)
  next
    case (Inr m)
    note E = assms(10) [unfolded perform_calls_def Let_def jobs_def [symmetric] reads_def [symmetric]
        bindM_def liftE_def Inr prod.case sum.case x]
    show ?thesis
    proof (cases q)
      case (Inl e)
      with hoare_fail [OF execute_read_calls_frame assms(8) x [unfolded Inl]] E conf show ?thesis
        by (auto simp: turn_post_def)
    next
      case (Inr xs)
      from hoare_ok [OF execute_read_calls_frame assms(8) x [unfolded Inr]] obtain new
        where N: "length xs = length reads" "st_model_calls s1 = k" "st_executed s1 = names @ new"
          "set new = set (map job_name reads)" "length new \<le> length reads" by blast
      show ?thesis
      proof (cases "absorb_results spec (zip (map fst reads) xs) (lp\<lparr>lp_messages := lp_messages lp @ [m]\<rparr>)")
        case (Inl e)
        with E Inr N conf [of s1 new] show ?thesis by (auto simp: turn_post_def)
      next
        case lp': (Inr lp')
        have "map (\<lambda>x. ts_name (vc_spec (fst x))) (zip (map fst reads) xs) = map job_name reads"
          using N(1) map_zip_fst [of "map fst reads" xs "\<lambda>v. ts_name (vc_spec v)"] by (simp add: job_name_def)
        note A = absorb_results_Inr [OF lp', unfolded this]
        show ?thesis
        proof (cases terminal)
          case None
          have "set (lp_retrieved lp') \<subseteq> set (names @ new)" using A assms(3) N(4) by auto
          then show ?thesis using None E Inr lp' N A J(1,2) assms(2,4-6,9)
            by (auto simp: turn_post_def turn_inv_def returnM_def)
        next
          case (Some t)
          obtain q2 s2 where y: "submit_terminal env spec ctx usage (jobs ! t) s1 = (q2, s2)" by fastforce
          note S = submit_terminal_frame [OF y]
          have r: "s' = s2" "r = (case q2 of Inl e \<Rightarrow> Inl e | Inr res \<Rightarrow> Inr (Completes res))"
            using E Inr lp' Some y by (auto simp: returnM_def split: sum.splits)
          have name: "ts_name (vc_spec (fst (jobs ! t))) = sp_submit_tool spec"
            and req: "set (sp_required_tools spec) \<subseteq> set (lp_retrieved lp)"
            using J(3) [OF Some] by (simp_all add: job_name_def)
          have reads: "set (names @ new) \<subseteq> set (sp_read_tools spec)"
            "set (sp_required_tools spec) \<subseteq> set (names @ new)"
            using N J(1) assms(2,3) req by auto
          have len: "int (length (names @ new)) + 1 \<le> bu_max_tool_calls (sp_budget spec)"
            using N(5) J(2) Some assms(4,5) by simp
          have c2: "confined spec n s2" using S name N reads len assms(9)
            by (intro confinedI [of s2 "names @ new" "drop (length (names @ new)) (st_executed s2)"]) auto
          show ?thesis
          proof (cases q2)
            case (Inl e)
            then show ?thesis using r c2 by (simp add: turn_post_def)
          next
            case (Inr res)
            then have "completed spec ctx res s2"
              using S name N reads submit_terminal_Inr [of env spec ctx usage "jobs ! t" s1 res s2] y assms(7)
              unfolding completed_def by auto
            then show ?thesis using r c2 Inr by (simp add: turn_post_def)
          qed
        qed
      qed
    qed
  qed
qed

lemma run_turn_post:
  assumes "is_valid validate_AgentSpec spec" and "registry_ok (en_registry env)" and "turn_inv spec turn lp s"
    and "run_turn env spec ctx turn lp s = (r, s')"
  shows "turn_post spec ctx (Suc turn) r s'"
proof -
  note I = assms(3) [unfolded turn_inv_def]
  have fail: "turn_post spec ctx (Suc turn) (Inl e) s1"
    if "st_executed s1 = st_executed s" "st_model_calls s1 \<le> Suc turn" for e s1
    using turn_inv_confined [OF assms(3)] that unfolding turn_post_def confined_def by simp
  obtain q1 s1 where a: "ask_model env spec ctx turn lp s = (q1, s1)" by fastforce
  have f: "frame (st_executed s) (st_model_calls s) s" by (simp add: frame_def)
  have "st_executed s1 = st_executed s \<and> st_model_calls s1 \<le> Suc (st_model_calls s)"
    by (cases q1) (use hoare_ok [OF ask_model_frame f] hoare_fail [OF ask_model_frame f] a in blast)+
  then have s1: "st_executed s1 = st_executed s" "st_model_calls s1 \<le> Suc turn" using I by simp_all
  note E = assms(4) [unfolded run_turn_def bindM_def [of "ask_model _ _ _ _ _"] a prod.case]
  show ?thesis
  proof (cases q1)
    case (Inl e)
    then show ?thesis using E s1 fail by auto
  next
    case q1: (Inr response)
    obtain q2 s2 where b: "account_usage env spec turn response lp s1 = (q2, s2)" by fastforce
    note s2 = account_usage_frame [OF b]
    show ?thesis
    proof (cases q2)
      case (Inl e)
      then show ?thesis using E q1 b s1 s2 fail by (auto simp: bindM_def [of "account_usage _ _ _ _ _"])
    next
      case q2: (Inr p)
      obtain usage lp1 where p: "p = (usage, lp1)" by (cases p)
      note B = account_usage_Inr [OF b [unfolded q2 p]]
      obtain q3 s3 where c: "propose_calls env spec turn response lp1 s2 = (q3, s3)" by fastforce
      note s3 = propose_calls_frame [OF c]
      note E2 = E [unfolded q1 sum.case bindM_def [of "account_usage _ _ _ _ _"] b prod.case q2 p
          bindM_def [of "propose_calls _ _ _ _ _"] c]
      show ?thesis
      proof (cases q3)
        case (Inl e)
        then show ?thesis using E2 s1 s2 s3 fail by auto
      next
        case q3: (Inr p2)
        obtain vs lp2 where p2: "p2 = (vs, lp2)" by (cases p2)
        note C = propose_calls_Inr [OF assms(2) c [unfolded q3 p2]]
        obtain q4 s4 where d: "allow_calls env spec turn vs lp2 s3 = (q4, s4)" by fastforce
        note s4 = allow_calls_frame [OF d]
        show ?thesis
        proof (cases q4)
          case (Inl e)
          then show ?thesis using E2 q3 p2 d s1 s2 s3 s4 fail by (auto simp: bindM_def [of "allow_calls _ _ _ _ _"])
        next
          case q4: (Inr terminal)
          have "perform_calls env spec ctx turn response usage vs terminal lp2 s4 = (r, s')"
            using E2 q3 p2 d q4 by (simp add: bindM_def [of "allow_calls _ _ _ _ _"])
          then show ?thesis
            using I B C allow_calls_Inr [OF assms(1) d [unfolded q4]] s1 s2 s3 s4
            by (intro perform_calls_post [of spec lp2 vs terminal "st_executed s" usage "st_model_calls s4" s4]) 
              (auto simp: frame_def)
        qed
      qed
    qed
  qed
qed

definition run_post :: "agent_spec \<Rightarrow> run_context \<Rightarrow> nat \<Rightarrow> exn + agent_result \<Rightarrow> run_state \<Rightarrow> bool" where
  "run_post spec ctx k r s \<longleftrightarrow> confined spec k s \<and> (\<forall>res. r = Inr res \<longrightarrow> completed spec ctx res s)"

lemma run_turns_post:
  assumes "is_valid validate_AgentSpec spec" and "registry_ok (en_registry env)"
  shows "turn_inv spec turn lp s \<Longrightarrow> run_turns env spec ctx turn left lp s = (r, s') \<Longrightarrow>
    run_post spec ctx (turn + left) r s'"
proof (induction "left" arbitrary: turn lp s)
  case 0
  then show ?case by (auto simp: raiseM_def run_post_def turn_inv_confined)
next
  case (Suc l)
  obtain q s1 where t: "run_turn env spec ctx turn lp s = (q, s1)" by fastforce
  note P = run_turn_post [OF assms Suc.prems(1) t]
  show ?case
  proof (cases q)
    case (Inl e)
    then show ?thesis using Suc.prems(2) t P confined_mono [of spec "Suc turn" s1 "turn + Suc l"]
      by (auto simp: bindM_def run_post_def turn_post_def)
  next
    case (Inr x)
    show ?thesis
    proof (cases x)
      case (Continues lp')
      then show ?thesis using Suc.IH [of "Suc turn" lp' s1] Suc.prems(2) t Inr P
        by (simp add: bindM_def turn_post_def)
    next
      case (Completes res)
      then show ?thesis using Suc.prems(2) t Inr P confined_mono [of spec "Suc turn" s1 "turn + Suc l"]
        by (auto simp: bindM_def returnM_def run_post_def turn_post_def)
    qed
  qed
qed

lemma run_agent_post:
  assumes "is_valid validate_AgentSpec spec" and "is_valid validate_AgentBudget (sp_budget spec)"
    and "registry_ok (en_registry env)" and "run_agent env spec ctx = (r, s)"
  shows "run_post spec ctx (nat (bu_max_turns (sp_budget spec))) r s"
proof -
  define s0 where "s0 = new_run_state (rc_run_id ctx)"
  have bud: "0 < bu_max_turns (sp_budget spec)" "0 < bu_max_tool_calls (sp_budget spec)"
    using assms(2) by (simp_all add: valid_budget)
  have start: "turn_inv spec 0 (new_loop_state ctx) s1" if "st_executed s1 = []" "st_model_calls s1 = 0" for s1
    using that bud by (simp add: turn_inv_def new_loop_state_def)
  have quiet: "run_post spec ctx (nat (bu_max_turns (sp_budget spec))) (Inl e) s1"
    if "st_executed s1 = []" "st_model_calls s1 = 0" for e s1
    using turn_inv_confined [OF start [OF that]] bud that
    by (auto simp: run_post_def intro: confined_mono)
  obtain q s1 where b: "run_body env spec ctx s0 = (q, s1)" by fastforce
  have B: "run_post spec ctx (nat (bu_max_turns (sp_budget spec))) q s1"
  proof -
    have s0: "st_executed s0 = []" "st_model_calls s0 = 0" by (simp_all add: s0_def new_run_state_def)
    have rem: "require_remaining env d s = (q, s') \<Longrightarrow> st_executed s' = st_executed s \<and> st_model_calls s' = st_model_calls s"
      for d s q s' by (auto simp: require_remaining_def)
    have "(\<exists>e. q = Inl e) \<and> st_executed s1 = [] \<and> st_model_calls s1 = 0
      \<or> (\<exists>s2. st_executed s2 = [] \<and> st_model_calls s2 = 0
          \<and> run_turns env spec ctx 0 (nat (bu_max_turns (sp_budget spec))) (new_loop_state ctx) s2 = (q, s1))"
      using b s0
      by (auto simp: run_body_def bindM_def guardM_def liftE_def split: prod.splits sum.splits if_splits
          dest!: rem recordM_frame)
    then show ?thesis
      using quiet run_turns_post [OF assms(1,3) start] by (elim disjE exE conjE) fastforce+
  qed
  have handler: "st_executed s' = st_executed s1 \<and> st_model_calls s' = st_model_calls s1 \<and> (\<exists>e. r = Inl e)"
    if "bindM (recordM env a p f) (\<lambda>_. bindM (recordM env a' p' f') (\<lambda>_. raiseM e)) s1 = (r, s')"
    for a p f a' p' f' e and r :: "exn + agent_result" and s'
    using that by (auto simp: bindM_def raiseM_def split: prod.splits sum.splits dest!: recordM_frame)
  show ?thesis
  proof (cases q)
    case (Inl e)
    then have "st_executed s = st_executed s1 \<and> st_model_calls s = st_model_calls s1 \<and> (\<exists>e. r = Inl e)"
      using assms(4) b handler unfolding run_agent_def s0_def [symmetric] catchM_def Let_def by simp
    then show ?thesis using B by (auto simp: run_post_def confined_def)
  next
    case (Inr res)
    then show ?thesis using assms(4) b B unfolding run_agent_def s0_def [symmetric] catchM_def by simp
  qed
qed

section \<open>The tokens a run is charged for\<close>

text \<open>The token usages in a trajectory, in order, and whose they are: those of the model's answers to the calls.\<close>

definition usages_of :: "trajectory_record list \<Rightarrow> model_usage list" where
  "usages_of ts = concat (map (\<lambda>t. case tr_usage t of None \<Rightarrow> [] | Some u \<Rightarrow> [u]) ts)"


abbreviation charged :: "run_state \<Rightarrow> model_usage list" where
  "charged s \<equiv> usages_of (st_trajectory s)"

lemma usages_of_simps [simp]:
  "usages_of [] = []" "usages_of (xs @ ys) = usages_of xs @ usages_of ys"
  "usages_of [t] = (case tr_usage t of None \<Rightarrow> [] | Some u \<Rightarrow> [u])"
  by (simp_all add: usages_of_def)


lemma trajectory_entry: "validate_TrajectoryRecord x = Inr y \<Longrightarrow> tr_usage y = tr_usage x"
  by (auto simp: validate_TrajectoryRecord_def bindE_Inr_iff)

lemma recordM_charged:
  assumes "recordM env t p fill s = (r, s')"
  shows "charged s' = charged s \<and> (\<exists>e. r = Inl e)
    \<or> (\<exists>x. tr_usage x = None \<and> charged s' = charged s @ usages_of [fill x] \<and> (\<exists>e. r = Inr e))"
proof (cases r)
  case (Inl e)
  then show ?thesis using assms by (auto simp: recordM_def split: prod.splits sum.splits)
next
  case (Inr e)
  then obtain y where "validate_TrajectoryRecord (fill (trajectory_of e)) = Inr y" "st_trajectory s' = st_trajectory s @ [y]"
    using assms by (auto simp: recordM_def split: prod.splits sum.splits)
  then show ?thesis using Inr trajectory_entry by (auto simp: trajectory_of_def intro!: exI [of _ "trajectory_of e"])
qed

lemma recordM_quiet: "recordM env t p fill s = (r, s') \<Longrightarrow> quiet fill \<Longrightarrow> charged s' = charged s"
  using recordM_charged [of env t p fill s r s'] by auto

interpretation charged: handler_invariant env "\<lambda>s. Q (charged s) (st_model_calls s)" for env Q
proof unfold_locales
  show "keeps (\<lambda>s. Q (charged s) (st_model_calls s)) (recordM env t p fill)" if "quiet fill" for t p fill
    using that recordM_quiet by (intro keepsI) (auto dest: recordM_frame)
qed (auto intro!: keepsI simp: require_remaining_def run_handler_def)















section \<open>The event log of a run\<close>

definition event_types :: "run_state \<Rightarrow> event_type list" where
  "event_types s = map (\<lambda>e. ec_type (re_content e)) (lr_appended (st_recorder s))"

text \<open>
  The sink accepts every event, the hash is a SHA-256 and case folding keeps the keys, which are
  lower-case ASCII.
\<close>

definition recording_ok :: "recorder_env \<Rightarrow> bool" where
  "recording_ok env \<longleftrightarrow> (\<forall>c. is_sha256 (le_hash env c)) \<and> (\<forall>k \<in> set safe_keys. le_casefold env k = k)
     \<and> (\<forall>e. le_sink env e = None)"

lemma safe_keys_fit: "list_all (\<lambda>k. is_id k \<and> key_is_redacted (\<lambda>s. s) k) safe_keys"
  by code_simp

lemma safe_key: "recording_ok env \<Longrightarrow> k \<in> set safe_keys \<Longrightarrow> is_id k \<and> key_is_redacted (le_casefold env) k"
  using safe_keys_fit by (simp add: list_all_iff key_is_redacted_def recording_ok_def)

lemma validate_RedactedPayload_ok:
  "(\<forall>k \<in> set (map fst p). is_id k) \<Longrightarrow> distinct (map fst p) \<Longrightarrow> validate_RedactedPayload p = Inr p"
proof -
  assume k: "\<forall>k \<in> set (map fst p). is_id k" and d: "distinct (map fst p)"
  have "mapE (\<lambda>(k, v). bindE (non_empty_id k) (\<lambda>k'. Inr (k', v))) p = Inr (map id p)"
    using k by (intro mapE_pure) auto
  then show ?thesis using d by (simp add: validate_RedactedPayload_def requireE_def)
qed

lemma chained_last_hash: "chained h es \<Longrightarrow> \<forall>c. is_sha256 (h c) \<Longrightarrow> \<forall>x. last_hash es = Some x \<longrightarrow> is_sha256 x"
  by (cases es rule: rev_cases) (auto simp: chained_snoc last_hash_def)

lemma agent_component_id [simp]: "is_id agent_component"
  by (simp add: is_text_def) (simp add: agent_component_def)

lemma record_event_succeeds:
  assumes "recording_ok env" and "recorder_good env r" and "payload_ok p"
  shows "\<exists>e r'. record_event env t agent_component p r = (Inr e, r')"
proof -
  have keys: "\<forall>k \<in> set (map fst p). is_id k \<and> key_is_redacted (le_casefold env) k"
    using assms(3) safe_key [OF assms(1)] unfolding payload_ok_def by blast
  have s: "set (sort_key fst p) = set p" by simp
  have "distinct (map fst (sort_key fst p))"
    using assms(3) by (simp add: payload_ok_def distinct_map)
  then have a: "validate_RedactedPayload (sort_key fst p) = Inr (sort_key fst p)"
    using keys s by (intro validate_RedactedPayload_ok) auto
  have b: "validate_payload (le_casefold env) p = Inr ()"
    using keys by (auto simp: validate_payload_def requireE_def list_all_iff)
  have prev: "\<forall>x. lr_previous_hash r = Some x \<longrightarrow> is_sha256 x" "lr_sequence r = 0 \<longleftrightarrow> lr_previous_hash r = None"
    "0 \<le> lr_sequence r"
    using assms(1,2) chained_last_hash [of "le_hash env" "lr_appended r"]
    by (auto simp: recorder_good_def recording_ok_def last_hash_def split: if_splits)
  have hash: "is_sha256 (le_hash env c)" for c using assms(1) by (simp add: recording_ok_def)
  have o: "optional sha256 (lr_previous_hash r) = Inr (lr_previous_hash r)" using prev(1) by simp
  have h: "sha256 x = Inr x" if "is_sha256 x" for x using that by (simp add: sha256_Inr_iff)
  have shape: "\<not> (lr_sequence r + 1 = 1 \<and> lr_previous_hash r \<noteq> None)"
    "\<not> (1 < lr_sequence r + 1 \<and> lr_previous_hash r = None)" "0 < lr_sequence r + 1"
    using prev(2,3) by auto
  define e where "e = event_of env (r\<lparr>lr_sequence := lr_sequence r + 1\<rparr>) t agent_component (sort_key fst p)"
  have "ec_sequence (re_content e) = lr_sequence r + 1" "ec_previous_hash (re_content e) = lr_previous_hash r"
    "ec_component (re_content e) = agent_component" "re_current_hash e = le_hash env (re_content e)"
    by (simp_all add: e_def event_of_def Let_def)
  then have "\<exists>e'. validate_RunEvent e = Inr e'"
    unfolding validate_RunEvent_def Let_def
    by (simp only: positive_def shape if_True bindE.simps non_empty_id_id [OF agent_component_id] o h [OF hash]
        requireE_def not_False_eq_True) blast
  then obtain e' where "validate_RunEvent e = Inr e'" by blast
  then show ?thesis using assms(1) a b unfolding e_def by (simp add: record_event_def Let_def recording_ok_def)
qed

lemma recordM_appends:
  assumes "recording_ok (en_recorder env)" and "recorder_good (en_recorder env) (st_recorder s)" and "payload_ok p"
    and "recordM env t p fill s = (r, s')"
  shows "recorder_good (en_recorder env) (st_recorder s') \<and> event_types s' = event_types s @ [t]"
proof -
  obtain e r' where e: "record_event (en_recorder env) t agent_component p (st_recorder s) = (Inr e, r')"
    using record_event_succeeds [OF assms(1-3)] by blast
  then have "st_recorder s' = r'"
    using assms(4) by (auto simp: recordM_def split: sum.splits)
  then show ?thesis
    using recorder_good_step [OF assms(2) component_normal(1) e] record_event_Inr [OF e]
    by (simp add: event_types_def)
qed

definition open_log :: "runtime_env \<Rightarrow> run_state \<Rightarrow> bool" where
  "open_log env s \<longleftrightarrow> (recording_ok (en_recorder env) \<longrightarrow>
     recorder_good (en_recorder env) (st_recorder s)
     \<and> RUN_COMPLETED \<notin> set (event_types s) \<and> RUN_FAILED \<notin> set (event_types s))"

interpretation open_log: run_invariant env "open_log env" for env
proof unfold_locales
  fix t p fill deadline
  assume "t \<noteq> RUN_COMPLETED" "t \<noteq> RUN_FAILED" "payload_ok p"
  then show "keeps (open_log env) (recordM env t p fill)"
    by (intro keepsI) (auto simp: open_log_def dest!: recordM_appends)
next
  fix p fill
  assume "payload_ok p"
  then show "keeps (open_log env) (recordM env MODEL_COMPLETED p fill)"
    by (intro keepsI) (auto simp: open_log_def dest!: recordM_appends)
qed (auto intro!: keepsI simp: require_remaining_def call_model_def run_handler_def open_log_def event_types_def)

definition closed_log :: "runtime_env \<Rightarrow> event_type list \<Rightarrow> run_state \<Rightarrow> bool" where
  "closed_log env ends s \<longleftrightarrow> (recording_ok (en_recorder env) \<longrightarrow>
     recorder_good (en_recorder env) (st_recorder s)
     \<and> (\<exists>pre. event_types s = pre @ ends \<and> RUN_COMPLETED \<notin> set pre \<and> RUN_FAILED \<notin> set pre))"

lemma run_cost_nonneg:
  "is_valid validate_AgentBudget (sp_budget spec) \<Longrightarrow> is_valid validate_ModelUsage u \<Longrightarrow> 0 \<le> run_cost u spec"
  unfolding run_cost_def dec_mul_def
  by (intro dec.add_nonneg dec.rnd_nonneg mult_nonneg_nonneg)
    (auto simp: valid_budget is_valid_iff [of validate_ModelUsage] validate_ModelUsage_def split: if_splits)

lemma recordM_entry_ok:
  assumes "recording_ok (en_recorder env)" and "recorder_good (en_recorder env) (st_recorder s)" and "payload_ok p"
    and "\<And>e. validate_RunEvent e = Inr e \<Longrightarrow> is_ok (validate_TrajectoryRecord (fill (trajectory_of e)))"
  shows "\<exists>e. fst (recordM env t p fill s) = Inr e"
proof -
  obtain e r' where e: "record_event (en_recorder env) t agent_component p (st_recorder s) = (Inr e, r')"
    using record_event_succeeds [OF assms(1-3)] by blast
  then show ?thesis
    using assms(4) [of e] record_event_Inr [OF e] by (auto simp: recordM_def is_ok_iff)
qed

lemma plain_entry_ok:
  assumes "validate_RunEvent e = Inr e" and "\<forall>m. model = Some m \<longrightarrow> is_id m"
  shows "is_ok (validate_TrajectoryRecord ((trajectory_of e)\<lparr>tr_model_id := model\<rparr>))"
proof -
  have "0 < ec_sequence (re_content e)" "is_sha256 (re_current_hash e)"
    using assms(1) by (auto simp: validate_RunEvent_def Let_def bindE_Inr_iff positive_Inr_iff sha256_Inr_iff)
  moreover have "optional non_empty_id model = Inr model" using assms(2) by (cases model) simp_all
  ultimately show ?thesis
    by (simp add: validate_TrajectoryRecord_def trajectory_of_def positive_def sha256_def is_ok_def split: if_splits)
qed

lemma valid_spec_model_id: "is_valid validate_AgentSpec spec \<Longrightarrow> is_id (sp_model_id spec)"
  by (cases spec) (auto simp: is_valid_iff validate_AgentSpec_def bindE_Inr_iff dest!: non_empty_id_is_id)

lemma submit_terminal_log:
  assumes "is_valid validate_AgentSpec spec" and "is_valid validate_AgentBudget (sp_budget spec)"
    and "is_valid validate_ModelUsage usage" and "open_log env s"
    and "submit_terminal env spec ctx usage job s = (r, s')"
  shows "case r of Inl _ \<Rightarrow> open_log env s'
    | Inr _ \<Rightarrow> closed_log env [AGENT_OUTPUT_VALIDATED, RUN_COMPLETED] s'"
proof (cases "recording_ok (en_recorder env)")
  case False
  then show ?thesis by (simp add: open_log_def closed_log_def split: sum.split)
next
  case True
  obtain q1 s1 where a: "execute_toolM env spec ctx (fst job) (snd job) False s = (q1, s1)" by fastforce
  have o1: "open_log env s1" by (rule keepsD [OF open_log.keeps_execute assms(4) a])
  show ?thesis
  proof (cases "\<exists>x out. q1 = Inr x \<and> validate_terminal_output spec (ex_output x) = Inr out")
    case False
    then show ?thesis using assms(5) a o1
      by (cases q1; cases "validate_terminal_output spec (ex_output (projr q1))")
        (auto simp: submit_terminal_def bindM_def liftE_def)
  next
    case True
    then obtain x out where x: "q1 = Inr x" "validate_terminal_output spec (ex_output x) = Inr out" by blast
    define rec1 where "rec1 = recordM env AGENT_OUTPUT_VALIDATED
        [(lit ''agent_id'', SStr (sp_agent_id spec)), (lit ''terminal_tool'', SStr (ts_name (vc_spec (fst job))))]
        (\<lambda>t. t\<lparr>tr_tool_call_id := Some (snd job), tr_tool_name := Some (ts_name (vc_spec (fst job)))\<rparr>)"
    define rec2 where "rec2 = recordM env RUN_COMPLETED
        [(lit ''agent_id'', SStr (sp_agent_id spec)), (lit ''model_id'', SStr (sp_model_id spec))]
        (\<lambda>t. t\<lparr>tr_model_id := Some (sp_model_id spec)\<rparr>)"
    obtain q2 s2 where b: "rec1 s1 = (q2, s2)" by fastforce
    obtain q3 s3 where c: "rec2 s2 = (q3, s3)" by fastforce
    note L1 = o1 [unfolded open_log_def, rule_format, OF \<open>recording_ok (en_recorder env)\<close>]
    have L2: "recorder_good (en_recorder env) (st_recorder s2)"
      "event_types s2 = event_types s1 @ [AGENT_OUTPUT_VALIDATED]"
      using recordM_appends [OF \<open>recording_ok (en_recorder env)\<close> _ _ b [unfolded rec1_def]] L1 by simp_all
    have L3: "recorder_good (en_recorder env) (st_recorder s3)"
      "event_types s3 = event_types s2 @ [RUN_COMPLETED]"
      using recordM_appends [OF \<open>recording_ok (en_recorder env)\<close> L2(1) _ c [unfolded rec2_def]] by simp_all
    have "\<exists>e. fst (rec2 s2) = Inr e"
      unfolding rec2_def using \<open>recording_ok (en_recorder env)\<close> L2(1) plain_entry_ok valid_spec_model_id [OF assms(1)]
      by (intro recordM_entry_ok) simp_all
    then obtain e3 where q3: "q3 = Inr e3" using c by auto
    have "\<exists>res. agent_result_of spec ctx out usage (run_cost usage spec) tr = Inr res" for tr
      using run_cost_nonneg [OF assms(2,3)] by (simp add: agent_result_of_def non_negative_def Let_def)
    then have "case q2 of Inl e \<Rightarrow> r = Inl e \<and> s' = s2 | Inr _ \<Rightarrow> (\<exists>res. r = Inr res) \<and> s' = s3"
      using assms(5) a x b c q3 unfolding submit_terminal_def rec1_def [symmetric] rec2_def [symmetric]
      by (auto simp: bindM_def liftE_def readM_def split: sum.splits)
    moreover have "open_log env s2" using L1 L2 by (simp add: open_log_def)
    moreover have "closed_log env [AGENT_OUTPUT_VALIDATED, RUN_COMPLETED] s3"
      using L1 L2 L3 by (auto simp: closed_log_def)
    ultimately show ?thesis by (auto split: sum.splits)
  qed
qed

definition turn_log :: "runtime_env \<Rightarrow> exn + turn_end \<Rightarrow> run_state \<Rightarrow> bool" where
  "turn_log env r s =
     (case r of Inr (Completes _) \<Rightarrow> closed_log env [AGENT_OUTPUT_VALIDATED, RUN_COMPLETED] s
      | _ \<Rightarrow> open_log env s)"

lemma perform_calls_log:
  assumes "is_valid validate_AgentSpec spec" and "is_valid validate_AgentBudget (sp_budget spec)"
    and "is_valid validate_ModelUsage usage" and "open_log env s"
    and "perform_calls env spec ctx turn response usage vs terminal lp s = (r, s')"
  shows "turn_log env r s'"
proof -
  define jobs where "jobs = zip vs (tool_call_ids turn (length vs))"
  obtain q s1 where x: "execute_read_calls env spec ctx turn (read_jobs terminal jobs) s = (q, s1)" by fastforce
  have o1: "open_log env s1" by (rule keepsD [OF open_log.keeps_reads assms(4) x])
  have "(\<exists>e. r = Inl e) \<and> s' = s \<or> turn_log env r s1 \<and> s' = s1
      \<or> (\<exists>k q2. submit_terminal env spec ctx usage (jobs ! k) s1 = (q2, s')
           \<and> r = (case q2 of Inl e \<Rightarrow> Inl e | Inr res \<Rightarrow> Inr (Completes res)))"
    using assms(5) x o1
    by (auto simp: perform_calls_def Let_def jobs_def [symmetric] bindM_def liftE_def returnM_def turn_log_def
        split: sum.splits option.splits prod.splits)
  then show ?thesis using assms(4) submit_terminal_log [OF assms(1-3) o1]
    by (elim disjE exE conjE) (fastforce simp: turn_log_def split: sum.splits)+
qed

lemma run_turn_log:
  assumes "is_valid validate_AgentSpec spec" and "is_valid validate_AgentBudget (sp_budget spec)"
    and "open_log env s" and "run_turn env spec ctx turn lp s = (r, s')"
  shows "turn_log env r s'"
proof -
  have usage: "is_valid validate_ModelUsage usage" if "account_usage env spec turn response lp' s1 = (Inr (usage, lp1), s2)"
    for response lp' s1 usage lp1 s2
    using that usage_model.result_valid by (auto simp: account_usage_def Let_def comp_iffs)
  note keep = keepsD [OF open_log.keeps_ask] keepsD [OF open_log.keeps_account] keepsD [OF open_log.keeps_propose]
    keepsD [OF open_log.keeps_allow]
  have "open_log env s' \<and> (\<exists>e. r = Inl e)
      \<or> (\<exists>response usage vs terminal lp2 s4. is_valid validate_ModelUsage usage \<and> open_log env s4
           \<and> perform_calls env spec ctx turn response usage vs terminal lp2 s4 = (r, s'))"
    using assms(3,4) unfolding run_turn_def bindM_def
    by (auto split: prod.splits sum.splits dest: keep usage) (metis keep usage)+
  then show ?thesis using perform_calls_log [OF assms(1,2)] by (auto simp: turn_log_def)
qed

lemma run_turns_log:
  assumes "is_valid validate_AgentSpec spec" and "is_valid validate_AgentBudget (sp_budget spec)"
  shows "open_log env s \<Longrightarrow> run_turns env spec ctx turn left lp s = (r, s') \<Longrightarrow>
    (case r of Inl _ \<Rightarrow> open_log env s' | Inr _ \<Rightarrow> closed_log env [AGENT_OUTPUT_VALIDATED, RUN_COMPLETED] s')"
proof (induction "left" arbitrary: turn lp s)
  case 0
  then show ?case by (auto simp: raiseM_def)
next
  case (Suc l)
  obtain q s1 where t: "run_turn env spec ctx turn lp s = (q, s1)" by fastforce
  note P = run_turn_log [OF assms Suc.prems(1) t]
  show ?case
  proof (cases q)
    case (Inl e)
    then show ?thesis using Suc.prems(2) t P by (auto simp: bindM_def turn_log_def)
  next
    case (Inr x)
    then show ?thesis using Suc.IH [of s1] Suc.prems(2) t P
      by (cases x) (auto simp: bindM_def returnM_def turn_log_def)
  qed
qed

lemma run_body_log:
  assumes "is_valid validate_AgentSpec spec" and "is_valid validate_AgentBudget (sp_budget spec)"
  shows "hoare (open_log env) (run_body env spec ctx)
    (\<lambda>_. closed_log env [AGENT_OUTPUT_VALIDATED, RUN_COMPLETED]) (\<lambda>_. open_log env)"
proof -
  have turns: "hoare (open_log env) (run_turns env spec ctx 0 n lp)
      (\<lambda>_. closed_log env [AGENT_OUTPUT_VALIDATED, RUN_COMPLETED]) (\<lambda>_. open_log env)" for n lp
    using run_turns_log [OF assms] by (intro hoareI) (fastforce split: sum.splits)+
  show ?thesis
    unfolding run_body_def
    by (intro keeps_then keeps_guard keeps_lift open_log.keeps_clock open_log.keeps_record turns) simp_all
qed

lemma open_log_start: "open_log env (new_run_state run)"
  by (simp add: open_log_def new_run_state_def event_types_def new_recorder_good) (simp add: new_recorder_def)

lemma run_agent_log:
  assumes "is_valid validate_AgentSpec spec" and "is_valid validate_AgentBudget (sp_budget spec)"
    and "recording_ok (en_recorder env)" and "run_agent env spec ctx = (r, s)"
  shows "closed_log env (case r of Inl _ \<Rightarrow> [AGENT_OUTPUT_REJECTED, RUN_FAILED]
      | Inr _ \<Rightarrow> [AGENT_OUTPUT_VALIDATED, RUN_COMPLETED]) s \<and> (\<forall>e. r = Inl e \<longrightarrow> is_agent_error e)"
proof -
  obtain q s1 where b: "run_body env spec ctx (new_run_state (rc_run_id ctx)) = (q, s1)" by fastforce
  note B = run_body_log [OF assms(1,2)]
  show ?thesis
  proof (cases q)
    case (Inr res)
    then have "r = Inr res \<and> s = s1" using assms(4) b by (auto simp: run_agent_def catchM_def)
    then show ?thesis using hoare_ok [OF B open_log_start b [unfolded Inr]] by simp
  next
    case (Inl e)
    define c where "c = failure_code_of e"
    define m1 where "m1 = recordM env AGENT_OUTPUT_REJECTED (failure_payload c) id"
    define m2 where "m2 = recordM env RUN_FAILED (failure_payload c) id"
    have A: "bindM m1 (\<lambda>_. bindM m2 (\<lambda>_. raiseM (AgentRuntimeError c))) s1 = (r, s)"
      using assms(4) b Inl by (simp add: run_agent_def catchM_def Let_def c_def [symmetric] m1_def m2_def)
    note L1 = hoare_fail [OF B open_log_start b [unfolded Inl], unfolded open_log_def, rule_format, OF assms(3)]
    have plain: "is_ok (validate_TrajectoryRecord (id (trajectory_of e)))" if "validate_RunEvent e = Inr e" for e
      using plain_entry_ok [OF that, of None] by (simp add: trajectory_of_def)
    obtain q2 s2 where m: "m1 s1 = (q2, s2)" by fastforce
    have L2: "recorder_good (en_recorder env) (st_recorder s2)" "event_types s2 = event_types s1 @ [AGENT_OUTPUT_REJECTED]"
      using recordM_appends [OF assms(3) _ _ m [unfolded m1_def]] L1 by simp_all
    have "\<exists>e. fst (m1 s1) = Inr e" unfolding m1_def using assms(3) L1 plain by (intro recordM_entry_ok) simp_all
    then obtain e2 where q2: "q2 = Inr e2" using m by auto
    obtain q3 s3 where n: "m2 s2 = (q3, s3)" by fastforce
    have L3: "recorder_good (en_recorder env) (st_recorder s3)" "event_types s3 = event_types s2 @ [RUN_FAILED]"
      using recordM_appends [OF assms(3) L2(1) _ n [unfolded m2_def]] by simp_all
    have "\<exists>e. fst (m2 s2) = Inr e" unfolding m2_def using assms(3) L2 plain by (intro recordM_entry_ok) simp_all
    then obtain e3 where q3: "q3 = Inr e3" using n by auto
    have "r = Inl (AgentRuntimeError c) \<and> s = s3" using A m n q2 q3 by (simp add: bindM_def raiseM_def)
    then show ?thesis using L1 L2 L3 by (auto simp: closed_log_def)
  qed
qed

section \<open>The concurrent reads finish\<close>

text \<open>
  With two rounds over all tasks at the end of the schedule, every task is done when none failed:
  the result of a task is never missing.
\<close>

definition advanced :: "nat \<Rightarrow> task \<Rightarrow> bool" where
  "advanced k t \<longleftrightarrow> (case t of TReady \<Rightarrow> k = 0 | TRunning \<Rightarrow> k \<le> 1 | TDone _ \<Rightarrow> True)"

lemma count_distinct: "distinct xs \<Longrightarrow> x \<in> set xs \<Longrightarrow> count_list xs x = 1"
  by (induction xs) (auto simp: count_list_0_iff)

lemma step_task_length [simp]: "length (fst (step_task env spec ctx jobs i c)) = length (fst c)"
  by (auto simp: step_task_def Let_def split: prod.splits task.splits sum.splits)

lemma step_task_advances:
  assumes "j < length (fst c)" and "advanced k (fst c ! j)"
  shows "advanced (if i = j then Suc k else k) (fst (step_task env spec ctx jobs i c) ! j)"
  using assms
  by (cases c; cases "i = j")
    (auto simp: step_task_def advanced_def nth_list_update split: prod.split task.split sum.split)

lemma run_tasks_advances:
  "j < length (fst c) \<Longrightarrow> advanced k (fst c ! j) \<Longrightarrow> run_tasks (step_task env spec ctx jobs) is c = (None, c') \<Longrightarrow>
     length (fst c') = length (fst c) \<and> advanced (k + count_list is j) (fst c' ! j)"
proof (induction "is" arbitrary: c k)
  case (Cons i "is")
  from Cons.prems(3) have "run_tasks (step_task env spec ctx jobs) is (step_task env spec ctx jobs i c) = (None, c')"
    by (simp add: Let_def split: option.splits)
  from Cons.IH [OF _ step_task_advances [OF Cons.prems(1,2)] this] Cons.prems(1) show ?case by (auto split: if_splits)
qed simp

lemma run_tasks_all_done:
  assumes "run_tasks (step_task env spec ctx jobs) (full_schedule order (length jobs))
      (replicate (length jobs) TReady, s) = (None, tasks, s')" and "j < length jobs"
  shows "length tasks = length jobs \<and> is_done (tasks ! j)"
proof -
  have "count_list [0..<length jobs] j = 1"
    using assms(2) by (simp add: count_distinct)
  then have two: "2 \<le> count_list (full_schedule order (length jobs)) j"
    by (simp add: full_schedule_def)
  have "advanced 0 (fst (replicate (length jobs) TReady, s) ! j)" using assms(2) by (simp add: advanced_def)
  from run_tasks_advances [OF _ this assms(1)] assms(2)
  have "length tasks = length jobs" "advanced (count_list (full_schedule order (length jobs)) j) (tasks ! j)" by simp_all
  then show ?thesis using two by (auto simp: advanced_def is_done_def split: task.splits)
qed

lemma run_tasks_length: "run_tasks (step_task env spec ctx jobs) is (replicate n TReady, s) = (None, tasks, s') \<Longrightarrow>
    length tasks = n"
proof -
  have "run_tasks (step_task env spec ctx jobs) is c = (None, c') \<Longrightarrow> length (fst c') = length (fst c)" for c c'
    by (induction "is" arbitrary: c) (auto simp: Let_def split: option.splits)
  moreover assume "run_tasks (step_task env spec ctx jobs) is (replicate n TReady, s) = (None, tasks, s')"
  ultimately show ?thesis by fastforce
qed

lemma run_tasks_no_failure:
  assumes "run_tasks (step_task env spec ctx jobs) is (replicate n TReady, s) = (None, tasks, s')"
    and "j < length tasks" and "tasks ! j = TDone r"
  shows "\<exists>x. r = Inr x"
proof -
  have "run_tasks (step_task env spec ctx jobs) is c = (None, c') \<Longrightarrow>
      (\<forall>j < length (fst c). \<forall>e. fst c ! j \<noteq> TDone (Inl e)) \<Longrightarrow> (\<forall>j < length (fst c'). \<forall>e. fst c' ! j \<noteq> TDone (Inl e))"
    for c c'
  proof (induction "is" arbitrary: c)
    case (Cons i "is")
    define c1 where "c1 = step_task env spec ctx jobs i c"
    from Cons.prems(1) have f: "task_failure i (fst c1) = None" and r: "run_tasks (step_task env spec ctx jobs) is c1 = (None, c')"
      by (auto simp: Let_def c1_def split: option.splits)
    have "fst c1 ! j \<noteq> TDone (Inl e)" if "j < length (fst c1)" for j e
    proof (cases "i = j")
      case True
      then show ?thesis using f that by (auto simp: task_failure_def)
    next
      case False
      then have "fst c1 ! j = fst c ! j"
        by (cases c) (auto simp: c1_def step_task_def split: prod.split task.split sum.split)
      then show ?thesis using Cons.prems(2) that by (simp add: c1_def)
    qed
    then show ?case using Cons.IH [OF r] by blast
  qed simp
  from this [OF assms(1)] assms(2,3) show ?thesis by (cases r) auto
qed

text \<open>The two rounds that the model appends to the schedule lose no result.\<close>

lemma read_tasks_all_finish:
  assumes "run_tasks (step_task env spec ctx jobs) (full_schedule order (length jobs))
      (replicate (length jobs) TReady, s) = (None, tasks, s')"
  shows "length tasks = length jobs \<and> list_all (\<lambda>t. \<exists>x. t = TDone (Inr x)) tasks"
proof -
  have len: "length tasks = length jobs"
    using run_tasks_all_done [OF assms] run_tasks_length [OF assms] by simp
  moreover have "\<exists>x. tasks ! j = TDone (Inr x)" if "j < length jobs" for j
    using run_tasks_all_done [OF assms that] run_tasks_no_failure [OF assms] that len
    by (auto simp: is_done_def split: task.splits)
  ultimately show ?thesis by (simp add: list_all_length)
qed

section \<open>Runs that succeed\<close>































section \<open>Properties\<close>

text \<open>
  Property C2. Whatever the model answers, the tools do and the tasks interleave, a run starts only
  handlers that the agent specification declares: read-only tools, and the terminal submit at most
  once, as the last handler and after the required retrieval tools. It calls the model at most as
  often as the budget has turns (at most 8) and starts at most as many handlers as it allows (at
  most 24).
\<close>

theorem run_confined:
  assumes "is_valid validate_AgentSpec spec" and "is_valid validate_AgentBudget (sp_budget spec)"
    and "new_tool_registry specs = Inr (en_registry env)" and "run_agent env spec ctx = (r, s)"
  shows "(\<exists>reads subs. st_executed s = reads @ subs \<and> set reads \<subseteq> set (sp_read_tools spec)
        \<and> (subs = [] \<or> subs = [sp_submit_tool spec] \<and> set (sp_required_tools spec) \<subseteq> set reads))
    \<and> int (length (st_executed s)) \<le> bu_max_tool_calls (sp_budget spec)
    \<and> int (st_model_calls s) \<le> bu_max_turns (sp_budget spec)
    \<and> length (st_executed s) \<le> 24 \<and> st_model_calls s \<le> 8"
proof -
  have "confined spec (nat (bu_max_turns (sp_budget spec))) s"
    using run_agent_post [OF assms(1,2) new_tool_registry_ok [OF assms(3)] assms(4)] by (simp add: run_post_def)
  moreover have "0 < bu_max_turns (sp_budget spec)" "bu_max_turns (sp_budget spec) \<le> 8"
    "bu_max_tool_calls (sp_budget spec) \<le> 24"
    using assms(2) by (simp_all add: valid_budget)
  ultimately show ?thesis unfolding confined_def by (intro conjI) auto
qed

definition demo_response :: "model_tool_call list \<Rightarrow> model_response" where
  "demo_response calls = \<lparr>mr_request_id = None, mr_model_id = lit ''m'', mr_finish_reason = None,
     mr_tool_calls = calls, mr_usage = \<lparr>us_input = 10, us_output = 5, us_total = 15\<rparr>, mr_latency_ms = 3,
     mr_has_text = False, mr_text = None\<rparr>"

definition demo_registry :: registry where
  "demo_registry = dict_of (map (\<lambda>s. (ts_name s, s)) [demo_tool ''get'' READ_ONLY, demo_tool ''submit'' TERMINAL_SUBMIT])"

definition demo_env :: "(nat \<Rightarrow> exn + model_response) \<Rightarrow> runtime_env" where
  "demo_env model = \<lparr>en_codec = demo_codec, en_registry = demo_registry,
     en_recorder = demo_recorder_env (\<lambda>_. None), en_now = (\<lambda>n. 0), en_model = (\<lambda>req timeout n. model n),
     en_schedule = (\<lambda>turn. []), en_late = (\<lambda>turn. [])\<rparr>"

definition demo_context :: run_context where
  "demo_context = \<lparr>rc_run_id = 1, rc_run_version = lit ''1'', rc_policy_version = lit ''p1'', rc_created_at = 0,
     rc_deadline_at = 60000000,
     rc_messages = [\<lparr>ms_role = USER, ms_content = Some (lit ''x''), ms_tool_call_id = None, ms_tool_calls = []\<rparr>]\<rparr>"

definition demo_model :: "nat \<Rightarrow> exn + model_response" where
  "demo_model n = Inr (demo_response [demo_tool_call ''b'' ''submit''])"



lemma demo_valid:
  "is_valid validate_AgentSpec demo_spec" "is_valid validate_AgentBudget (sp_budget demo_spec)"
  "new_tool_registry [demo_tool ''get'' READ_ONLY, demo_tool ''submit'' TERMINAL_SUBMIT] = Inr (en_registry (demo_env m))"
    apply (simp add: is_valid_iff validate_AgentSpec_def demo_spec_def non_empty_id_def constrained_str_def lit_def
        strip_by_def is_white_def requireE_def)
   apply (simp add: valid_budget demo_spec_def demo_budget_def)
  apply (simp add: new_tool_registry_def demo_env_def demo_registry_def demo_tool_def)
  done





lemma run_confined_witness:
  "length (st_executed (snd (run_agent (demo_env demo_model) demo_spec demo_context))) \<le> 24"
  using run_confined [OF demo_valid(1,2), of _ "demo_env demo_model", OF demo_valid(3) prod.collapse [symmetric]] by blast



text \<open>
  Property C6. Every run ends, and its event log says how: exactly one of the events run completed
  and run failed is recorded, as the last one. A failed run raises a failure code of the runtime
  and never a foreign exception, right after the rejection of its output; a completed run has
  validated its output.
\<close>

theorem run_ends_once:
  assumes "is_valid validate_AgentSpec spec" and "is_valid validate_AgentBudget (sp_budget spec)"
    and "recording_ok (en_recorder env)" and "run_agent env spec ctx = (r, s)"
  shows "chained (le_hash (en_recorder env)) (lr_appended (st_recorder s))
    \<and> (\<exists>pre. event_types s = pre @ (case r of Inl _ \<Rightarrow> [AGENT_OUTPUT_REJECTED, RUN_FAILED]
                                     | Inr _ \<Rightarrow> [AGENT_OUTPUT_VALIDATED, RUN_COMPLETED])
         \<and> RUN_COMPLETED \<notin> set pre \<and> RUN_FAILED \<notin> set pre)
    \<and> (\<forall>e. r = Inl e \<longrightarrow> is_agent_error e)"
  using run_agent_log [OF assms] assms(3) by (auto simp: closed_log_def recorder_good_def)

lemma run_ends_once_witness:
  "\<exists>pre. event_types (snd (run_agent (demo_env demo_model) demo_spec (demo_context\<lparr>rc_policy_version := lit ''p2''\<rparr>)))
     = pre @ [AGENT_OUTPUT_REJECTED, RUN_FAILED]"
proof -
  have ok: "recording_ok (en_recorder (demo_env m))" for m
    by (auto simp: recording_ok_def demo_env_def demo_recorder_env_def sha256_def is_hex_lower_def list_all_iff)
  have "\<not> is_ok (fst (run_agent (demo_env demo_model) demo_spec (demo_context\<lparr>rc_policy_version := lit ''p2''\<rparr>)))"
    by code_simp
  then obtain e where "fst (run_agent (demo_env demo_model) demo_spec (demo_context\<lparr>rc_policy_version := lit ''p2''\<rparr>)) = Inl e"
    by (metis is_ok_iff sum.exhaust)
  with run_ends_once [OF demo_valid(1,2) ok, of demo_model "demo_context\<lparr>rc_policy_version := lit ''p2''\<rparr>"] show ?thesis
    by (metis (no_types, lifting) prod.collapse sum.case(1))
qed

end
