(* ===== verification/Speech.thy ===== *)
theory Speech
  imports Transcript "HOL-Library.AList"
begin

text \<open>
  The data that passes between the stages of the speech service (\<^verbatim>\<open>speech/contracts.py\<close>) and the
  resolution of speaker roles (\<^verbatim>\<open>speech/roles.py\<close>): trusted metadata first, then a bounded agent
  for the speakers that are left, and a refusal when a speaker has no grounded role. Times and confidences
  are finite doubles, represented by their exact values.
\<close>

section \<open>Contracts\<close>

record speaker_role_mapping =
  srm_speaker_id :: pystr
  srm_role :: speaker_role
  srm_confidence :: pyfloat
  srm_evidence :: pystr

record recognized_word =
  rw_text :: pystr
  rw_start :: pyfloat
  rw_end :: pyfloat
  rw_confidence :: "pyfloat option"

record recognized_segment =
  rs_start :: pyfloat
  rs_end :: pyfloat
  rs_text :: pystr
  rs_words :: "recognized_word list"

record transcription_result =
  tr_language :: pystr
  tr_segments :: "recognized_segment list"
  tr_provider :: "asr_provider_metadata option"

record aligned_segment =
  al_start :: pyfloat
  al_end :: pyfloat
  al_text :: pystr
  al_words :: "word_timestamp list"

record diarization_turn =
  dt_speaker_id :: pystr
  dt_start :: pyfloat
  dt_end :: pyfloat
  dt_confidence :: "pyfloat option"

record attributed_segment =
  sa_start :: pyfloat
  sa_end :: pyfloat
  sa_text :: pystr
  sa_words :: "word_timestamp list"
  sa_speaker_id :: "pystr option"
  sa_confidence :: "pyfloat option"

record diarized_segment =
  ds_id :: uuid
  ds_speaker_id :: pystr
  ds_confidence :: "pyfloat option"
  ds_start :: pyfloat
  ds_end :: pyfloat
  ds_text :: pystr
  ds_words :: "word_timestamp list"

record role_evidence =
  re_segment_id :: uuid
  re_text :: pystr

record role_candidate =
  rc_speaker_id :: pystr
  rc_evidence_ids :: "uuid list"
  rc_evidence :: "role_evidence list"
  rc_confidence :: "pyfloat option"

record resolved_role =
  rz_speaker_id :: pystr
  rz_role :: speaker_role
  rz_confidence :: pyfloat
  rz_evidence :: pystr
  rz_evidence_ids :: "uuid list"

record role_decision =
  rd_roles :: "resolved_role list"
  rd_provenance :: "role_agent_provenance option"

section \<open>Validators\<close>

definition validate_SpeakerRoleMapping :: "speaker_role_mapping \<Rightarrow> exn + speaker_role_mapping" where
  "validate_SpeakerRoleMapping m =
     bindE (non_empty_id (srm_speaker_id m)) (\<lambda>sid.
     bindE (confidence (srm_confidence m)) (\<lambda>c.
     bindE (non_empty_id (srm_evidence m)) (\<lambda>ev.
       Inr (m\<lparr>srm_speaker_id := sid, srm_confidence := c, srm_evidence := ev\<rparr>))))"

definition validate_SpeechMetadata :: "speaker_role_mapping list \<Rightarrow> exn + speaker_role_mapping list" where
  "validate_SpeechMetadata ms =
     bindE (requireE ValidationError (all_unique (map srm_speaker_id ms))) (\<lambda>_. Inr ms)"

definition validate_RecognizedWord :: "recognized_word \<Rightarrow> exn + recognized_word" where
  "validate_RecognizedWord w =
     bindE (non_empty_id (rw_text w)) (\<lambda>t.
     bindE (non_negative (rw_start w)) (\<lambda>s.
     bindE (positive (rw_end w)) (\<lambda>e.
     bindE (optional confidence (rw_confidence w)) (\<lambda>c.
     bindE (requireE ValidationError (s < e)) (\<lambda>_.
       Inr \<lparr>rw_text = t, rw_start = s, rw_end = e, rw_confidence = c\<rparr>)))))"

text \<open>
  The loop over the intervals of a segment's words, the same in \<^verbatim>\<open>RecognizedSegment\<close>, \<^verbatim>\<open>AlignedSegment\<close> and
  \<^verbatim>\<open>SpeakerAttributedSegment\<close>; the accumulator is the previous start.
\<close>

fun check_starts :: "pyfloat \<Rightarrow> pyfloat \<Rightarrow> (pyfloat \<times> pyfloat) list \<Rightarrow> pyfloat \<Rightarrow> exn + unit" where
  "check_starts lo hi [] previous_start = Inr ()"
| "check_starts lo hi ((s, e) # ws) previous_start =
     (if s < lo \<or> hi < e then Inl ValidationError
      else if s < previous_start then Inl ValidationError
      else check_starts lo hi ws s)"

definition recognized_spans :: "recognized_word list \<Rightarrow> (pyfloat \<times> pyfloat) list" where
  "recognized_spans = map (\<lambda>w. (rw_start w, rw_end w))"

definition word_spans :: "word_timestamp list \<Rightarrow> (pyfloat \<times> pyfloat) list" where
  "word_spans = map (\<lambda>w. (wt_start w, wt_end w))"

definition validate_RecognizedSegment :: "recognized_segment \<Rightarrow> exn + recognized_segment" where
  "validate_RecognizedSegment g =
     bindE (non_negative (rs_start g)) (\<lambda>s.
     bindE (positive (rs_end g)) (\<lambda>e.
     bindE (long_text (rs_text g)) (\<lambda>t.
     bindE (requireE ValidationError (s < e)) (\<lambda>_.
     bindE (check_starts s e (recognized_spans (rs_words g)) s) (\<lambda>_.
       Inr (g\<lparr>rs_start := s, rs_end := e, rs_text := t\<rparr>))))))"

definition validate_TranscriptionResult :: "transcription_result \<Rightarrow> exn + transcription_result" where
  "validate_TranscriptionResult r =
     bindE (non_empty_id (tr_language r)) (\<lambda>l.
     let starts = map rs_start (tr_segments r) in
     bindE (requireE ValidationError (starts = sort starts)) (\<lambda>_. Inr (r\<lparr>tr_language := l\<rparr>)))"

definition validate_AlignedSegment :: "aligned_segment \<Rightarrow> exn + aligned_segment" where
  "validate_AlignedSegment g =
     bindE (non_negative (al_start g)) (\<lambda>s.
     bindE (positive (al_end g)) (\<lambda>e.
     bindE (long_text (al_text g)) (\<lambda>t.
     bindE (requireE ValidationError (s < e)) (\<lambda>_.
     bindE (check_starts s e (word_spans (al_words g)) s) (\<lambda>_.
       Inr (g\<lparr>al_start := s, al_end := e, al_text := t\<rparr>))))))"

definition validate_DiarizationTurn :: "diarization_turn \<Rightarrow> exn + diarization_turn" where
  "validate_DiarizationTurn d =
     bindE (non_empty_id (dt_speaker_id d)) (\<lambda>sid.
     bindE (non_negative (dt_start d)) (\<lambda>s.
     bindE (positive (dt_end d)) (\<lambda>e.
     bindE (optional confidence (dt_confidence d)) (\<lambda>c.
     bindE (requireE ValidationError (s < e)) (\<lambda>_.
       Inr \<lparr>dt_speaker_id = sid, dt_start = s, dt_end = e, dt_confidence = c\<rparr>)))))"

definition validate_SpeakerAttributedSegment :: "attributed_segment \<Rightarrow> exn + attributed_segment" where
  "validate_SpeakerAttributedSegment g =
     bindE (non_negative (sa_start g)) (\<lambda>s.
     bindE (positive (sa_end g)) (\<lambda>e.
     bindE (long_text (sa_text g)) (\<lambda>t.
     bindE (optional non_empty_id (sa_speaker_id g)) (\<lambda>sid.
     bindE (optional confidence (sa_confidence g)) (\<lambda>c.
     bindE (requireE ValidationError (s < e)) (\<lambda>_.
     bindE (check_starts s e (word_spans (sa_words g)) s) (\<lambda>_.
       Inr (g\<lparr>sa_start := s, sa_end := e, sa_text := t, sa_speaker_id := sid, sa_confidence := c\<rparr>))))))))"

definition validate_DiarizedSegment :: "diarized_segment \<Rightarrow> exn + diarized_segment" where
  "validate_DiarizedSegment g =
     bindE (non_empty_id (ds_speaker_id g)) (\<lambda>sid.
     bindE (optional confidence (ds_confidence g)) (\<lambda>c.
     bindE (non_negative (ds_start g)) (\<lambda>s.
     bindE (positive (ds_end g)) (\<lambda>e.
     bindE (long_text (ds_text g)) (\<lambda>t.
     bindE (requireE ValidationError (s < e)) (\<lambda>_.
     bindE (check_words s e (ds_words g) s s) (\<lambda>_.
       Inr (g\<lparr>ds_speaker_id := sid, ds_confidence := c, ds_start := s, ds_end := e, ds_text := t\<rparr>))))))))"

definition validate_RoleSegmentEvidence :: "role_evidence \<Rightarrow> exn + role_evidence" where
  "validate_RoleSegmentEvidence v = bindE (long_text (re_text v)) (\<lambda>t. Inr (v\<lparr>re_text := t\<rparr>))"

definition validate_RoleResolutionCandidate :: "role_candidate \<Rightarrow> exn + role_candidate" where
  "validate_RoleResolutionCandidate c =
     bindE (non_empty_id (rc_speaker_id c)) (\<lambda>sid.
     bindE (requireE ValidationError (rc_evidence_ids c \<noteq> [])) (\<lambda>_.
     bindE (optional confidence (rc_confidence c)) (\<lambda>conf.
     bindE (requireE ValidationError (all_unique (rc_evidence_ids c))) (\<lambda>_.
     bindE (requireE ValidationError
              (\<not> (rc_evidence c \<noteq> [] \<and> map re_segment_id (rc_evidence c) \<noteq> rc_evidence_ids c))) (\<lambda>_.
       Inr (c\<lparr>rc_speaker_id := sid, rc_confidence := conf\<rparr>))))))"

definition validate_ResolvedRole :: "resolved_role \<Rightarrow> exn + resolved_role" where
  "validate_ResolvedRole r =
     bindE (non_empty_id (rz_speaker_id r)) (\<lambda>sid.
     bindE (confidence (rz_confidence r)) (\<lambda>c.
     bindE (non_empty_id (rz_evidence r)) (\<lambda>ev.
     bindE (requireE ValidationError (all_unique (rz_evidence_ids r))) (\<lambda>_.
       Inr (r\<lparr>rz_speaker_id := sid, rz_confidence := c, rz_evidence := ev\<rparr>)))))"

interpretation mapping_model: validator validate_SpeakerRoleMapping
  by unfold_locales (auto simp: validate_SpeakerRoleMapping_def result_iffs field_iffs)

interpretation recognized_word_model: validator validate_RecognizedWord
  by unfold_locales (auto simp: validate_RecognizedWord_def result_iffs field_iffs)

interpretation recognized_segment_model: validator validate_RecognizedSegment
  by unfold_locales (auto simp: validate_RecognizedSegment_def result_iffs field_iffs)

interpretation transcription_model: validator validate_TranscriptionResult
  by unfold_locales (auto simp: validate_TranscriptionResult_def Let_def result_iffs field_iffs)

interpretation aligned_model: validator validate_AlignedSegment
  by unfold_locales (auto simp: validate_AlignedSegment_def result_iffs field_iffs)

interpretation turn_model: validator validate_DiarizationTurn
  by unfold_locales (auto simp: validate_DiarizationTurn_def result_iffs field_iffs)

interpretation attributed_model: validator validate_SpeakerAttributedSegment
  by unfold_locales (auto simp: validate_SpeakerAttributedSegment_def result_iffs field_iffs)

interpretation diarized_model: validator validate_DiarizedSegment
  by unfold_locales (auto simp: validate_DiarizedSegment_def result_iffs field_iffs)

interpretation candidate_model: validator validate_RoleResolutionCandidate
  by unfold_locales (auto simp: validate_RoleResolutionCandidate_def result_iffs field_iffs)

interpretation resolved_model: validator validate_ResolvedRole
  by unfold_locales (auto simp: validate_ResolvedRole_def result_iffs field_iffs)

lemma check_starts_iff:
  "check_starts lo hi ws p = Inr () \<longleftrightarrow>
     (\<forall>(s, e) \<in> set ws. lo \<le> s \<and> e \<le> hi) \<and> sorted (p # map fst ws)"
  by (induction lo hi ws p rule: check_starts.induct) (auto simp: not_less)

section \<open>Candidates\<close>

text \<open>\<^verbatim>\<open>grouped.setdefault(key, []).append(value)\<close> on a dict in insertion order.\<close>

fun group_append :: "'k \<Rightarrow> 'v \<Rightarrow> ('k \<times> 'v list) list \<Rightarrow> ('k \<times> 'v list) list" where
  "group_append k v [] = [(k, [v])]"
| "group_append k v ((k', vs) # g) = (if k' = k then (k', vs @ [v]) # g else (k', vs) # group_append k v g)"

definition group_segments :: "diarized_segment list \<Rightarrow> (pystr \<times> diarized_segment list) list" where
  "group_segments segments = foldl (\<lambda>g s. group_append (ds_speaker_id s) s g) [] segments"

definition max_confidence :: "pyfloat list \<Rightarrow> pyfloat option" where
  "max_confidence cs = (case cs of [] \<Rightarrow> None | c # r \<Rightarrow> Some (foldl max c r))"

definition candidate_of :: "pystr \<times> diarized_segment list \<Rightarrow> exn + role_candidate" where
  "candidate_of g =
     (case g of (speaker_id, segs) \<Rightarrow>
        bindE (mapE (\<lambda>s. validate_RoleSegmentEvidence \<lparr>re_segment_id = ds_id s, re_text = ds_text s\<rparr>) segs) (\<lambda>ev.
          validate_RoleResolutionCandidate
            \<lparr>rc_speaker_id = speaker_id, rc_evidence_ids = map ds_id segs, rc_evidence = ev,
             rc_confidence = max_confidence (List.map_filter ds_confidence segs)\<rparr>))"

definition candidates :: "diarized_segment list \<Rightarrow> exn + role_candidate list" where
  "candidates segments = mapE candidate_of (group_segments segments)"

section \<open>Resolution\<close>

type_synonym assignments = "(pystr \<times> role_assignment) list"

definition assignment_evidence :: "role_candidate \<Rightarrow> resolved_role \<Rightarrow> exn + uuid list" where
  "assignment_evidence c r =
     (if rz_evidence_ids r = [] then Inl ValueError
      else if \<not> subset_of (rz_evidence_ids r) (rc_evidence_ids c) then Inl ValueError
      else Inr (rz_evidence_ids r))"

definition validate_resolver_output :: "role_candidate list \<Rightarrow> resolved_role list \<Rightarrow> exn + unit" where
  "validate_resolver_output cands resolved =
     (let ids = map rz_speaker_id resolved in
      if \<not> all_unique ids then Inl ValueError
      else if \<not> subset_of ids (map rc_speaker_id cands) then Inl ValueError
      else Inr ())"

text \<open>The loop over the candidates: a trusted mapping is an assignment, the rest is unresolved.\<close>

fun apply_mappings ::
  "(pystr \<rightharpoonup> speaker_role_mapping) \<Rightarrow> role_candidate list \<Rightarrow> assignments \<Rightarrow> role_candidate list
     \<Rightarrow> exn + (assignments \<times> role_candidate list)" where
  "apply_mappings maps [] as un = Inr (as, un)"
| "apply_mappings maps (c # cs) as un =
     (case maps (rc_speaker_id c) of
        None \<Rightarrow> apply_mappings maps cs as (un @ [c])
      | Some m \<Rightarrow>
          bindE (validate_RoleAssignment
                   \<lparr>ra_speaker_id = rc_speaker_id c, ra_role = srm_role m, ra_confidence = srm_confidence m,
                    ra_evidence = rc_evidence_ids c, ra_source = METADATA, ra_resolution_evidence = srm_evidence m\<rparr>)
            (\<lambda>a. apply_mappings maps cs (AList.update (rc_speaker_id c) a as) un))"

text \<open>The loop over the roles the agent returned.\<close>

fun apply_roles ::
  "(pystr \<rightharpoonup> role_candidate) \<Rightarrow> resolved_role list \<Rightarrow> assignments \<Rightarrow> exn + assignments" where
  "apply_roles cands [] as = Inr as"
| "apply_roles cands (r # rs) as =
     (case cands (rz_speaker_id r) of
        None \<Rightarrow> Inl KeyError
      | Some c \<Rightarrow>
          bindE (assignment_evidence c r) (\<lambda>ids.
          bindE (validate_RoleAssignment
                   \<lparr>ra_speaker_id = rz_speaker_id r, ra_role = rz_role r, ra_confidence = rz_confidence r,
                    ra_evidence = ids, ra_source = AGENT, ra_resolution_evidence = rz_evidence r\<rparr>)
            (\<lambda>a. apply_roles cands rs (AList.update (rz_speaker_id r) a as))))"

type_synonym resolver = "role_candidate list \<Rightarrow> exn + role_decision"

definition apply_resolver ::
  "resolver option \<Rightarrow> role_candidate list \<Rightarrow> assignments \<Rightarrow> exn + (assignments \<times> role_agent_provenance option)" where
  "apply_resolver resolver unresolved as =
     (case resolver of
        None \<Rightarrow> Inr (as, None)
      | Some resolve \<Rightarrow>
          if unresolved = [] then Inr (as, None)
          else
            bindE (resolve unresolved) (\<lambda>d.
            bindE (validate_resolver_output unresolved (rd_roles d)) (\<lambda>_.
            bindE (requireE ValueError (\<not> (rd_roles d \<noteq> [] \<and> rd_provenance d = None))) (\<lambda>_.
            bindE (apply_roles (dict_of (map (\<lambda>c. (rc_speaker_id c, c)) unresolved)) (rd_roles d) as) (\<lambda>as'.
              Inr (as', rd_provenance d))))))"

definition resolve_roles ::
  "diarized_segment list \<Rightarrow> speaker_role_mapping list \<Rightarrow> resolver option \<Rightarrow> pyfloat \<Rightarrow> exn + role_resolution" where
  "resolve_roles segments mappings resolver threshold =
     bindE (candidates segments) (\<lambda>cands.
     bindE (apply_mappings (dict_of (map (\<lambda>m. (srm_speaker_id m, m)) mappings)) cands [] []) (\<lambda>(as, unresolved).
     bindE (apply_resolver resolver unresolved as) (\<lambda>(as', provenance).
       if list_ex (\<lambda>c. rc_speaker_id c \<notin> set (map fst as')) cands then Inl RoleResolutionRequiredError
       else if length as' = 2 \<and> \<not> both_roles (map snd as') then Inl RoleResolutionRequiredError
       else
         let ordered = map (\<lambda>c. the (map_of as' (rc_speaker_id c))) cands in
         validate_RoleResolution
           \<lparr>rr_assignments = ordered,
            rr_needs_review = list_ex (\<lambda>a. ra_confidence a < threshold) ordered,
            rr_agent_provenance = provenance\<rparr>)))"

section \<open>Grouping by speaker\<close>

text \<open>The distinct elements in the order of their first occurrence.\<close>

fun first_occurrences :: "'a list \<Rightarrow> 'a list" where
  "first_occurrences [] = []"
| "first_occurrences (x # xs) = x # filter (\<lambda>y. y \<noteq> x) (first_occurrences xs)"

lemma set_first_occurrences [simp]: "set (first_occurrences xs) = set xs"
  by (induction xs) auto

lemma distinct_first_occurrences [simp]: "distinct (first_occurrences xs)"
  by (induction xs) auto

lemma first_occurrences_snoc:
  "first_occurrences (xs @ [x]) = (if x \<in> set xs then first_occurrences xs else first_occurrences xs @ [x])"
  by (induction xs) auto

lemma group_append_map:
  "distinct ks \<Longrightarrow> group_append k v (map (\<lambda>k. (k, f k)) ks) =
     (if k \<in> set ks then map (\<lambda>k'. (k', if k' = k then f k' @ [v] else f k')) ks
      else map (\<lambda>k. (k, f k)) ks @ [(k, [v])])"
  by (induction ks) auto

lemma group_segments_eq:
  "group_segments segs =
     map (\<lambda>k. (k, filter (\<lambda>s. ds_speaker_id s = k) segs)) (first_occurrences (map ds_speaker_id segs))"
proof (induction segs rule: rev_induct)
  case Nil
  then show ?case by (simp add: group_segments_def)
next
  case (snoc s segs)
  have "group_segments (segs @ [s]) = group_append (ds_speaker_id s) s (group_segments segs)"
    by (simp add: group_segments_def)
  then show ?case
    unfolding snoc group_append_map [OF distinct_first_occurrences]
    by (auto simp: first_occurrences_snoc filter_empty_conv intro: rev_image_eqI)
qed

section \<open>What the loops compute\<close>

lemma keys_update: "fst ` set (AList.update k v al) = insert k (fst ` set al)"
  by (simp add: dom_map_of_conv_image_fst [symmetric] AList.update_conv')

definition metadata_assignment :: "role_candidate \<Rightarrow> speaker_role_mapping \<Rightarrow> role_assignment \<Rightarrow> bool" where
  "metadata_assignment c m a \<longleftrightarrow> ra_speaker_id a = rc_speaker_id c \<and> ra_source a = METADATA \<and> ra_role a = srm_role m
     \<and> ra_confidence a = srm_confidence m \<and> ra_evidence a = rc_evidence_ids c"

definition agent_assignment :: "role_candidate \<Rightarrow> resolved_role \<Rightarrow> role_assignment \<Rightarrow> bool" where
  "agent_assignment c z a \<longleftrightarrow> ra_speaker_id a = rc_speaker_id c \<and> rz_speaker_id z = rc_speaker_id c \<and> ra_source a = AGENT
     \<and> ra_role a = rz_role z \<and> ra_confidence a = rz_confidence z \<and> ra_evidence a = rz_evidence_ids z
     \<and> rz_evidence_ids z \<noteq> [] \<and> set (rz_evidence_ids z) \<subseteq> set (rc_evidence_ids c)"

lemma validate_RoleAssignment_Inr:
  "validate_RoleAssignment a = Inr b \<Longrightarrow>
     ra_speaker_id b = strip (ra_speaker_id a) \<and> ra_source b = ra_source a \<and> ra_role b = ra_role a
     \<and> ra_confidence b = ra_confidence a \<and> ra_evidence b = ra_evidence a"
  by (auto simp: validate_RoleAssignment_def result_iffs field_iffs)

lemma apply_mappings_result:
  assumes "apply_mappings maps cs as un = Inr (as', un')"
    and "distinct (map rc_speaker_id cs)" and "\<forall>c \<in> set cs. rc_speaker_id c \<notin> fst ` set as"
    and "\<forall>c \<in> set cs. is_id (rc_speaker_id c)"
  shows "un' = un @ filter (\<lambda>c. maps (rc_speaker_id c) = None) cs
    \<and> fst ` set as' = fst ` set as \<union> rc_speaker_id ` {c \<in> set cs. maps (rc_speaker_id c) \<noteq> None}
    \<and> (\<forall>k \<in> fst ` set as. map_of as' k = map_of as k)
    \<and> (\<forall>c \<in> set cs. \<forall>m. maps (rc_speaker_id c) = Some m \<longrightarrow>
         (\<exists>a. map_of as' (rc_speaker_id c) = Some a \<and> metadata_assignment c m a))"
  using assms
proof (induction maps cs as un rule: apply_mappings.induct)
  case (1 maps as un)
  then show ?case by simp
next
  case (2 maps c cs as un)
  show ?case
  proof (cases "maps (rc_speaker_id c)")
    case None
    with 2 show ?thesis by auto
  next
    case (Some m)
    then obtain a where a: "validate_RoleAssignment
           \<lparr>ra_speaker_id = rc_speaker_id c, ra_role = srm_role m, ra_confidence = srm_confidence m,
            ra_evidence = rc_evidence_ids c, ra_source = METADATA, ra_resolution_evidence = srm_evidence m\<rparr> = Inr a"
        and rest: "apply_mappings maps cs (AList.update (rc_speaker_id c) a as) un = Inr (as', un')"
      using 2(3) by (auto simp: result_iffs)
    define as1 where "as1 = AList.update (rc_speaker_id c) a as"
    have idc: "strip (rc_speaker_id c) = rc_speaker_id c" using 2(6) by (simp add: is_text_def)
    have ma: "metadata_assignment c m a"
      using validate_RoleAssignment_Inr [OF a] idc by (simp add: metadata_assignment_def)
    have keys: "fst ` set as1 = insert (rc_speaker_id c) (fst ` set as)"
      unfolding as1_def by (rule keys_update)
    have look: "map_of as1 = (map_of as)(rc_speaker_id c \<mapsto> a)" by (simp add: as1_def AList.update_conv')
    have fresh: "\<forall>d \<in> set cs. rc_speaker_id d \<notin> fst ` set as1"
      using 2(4,5) unfolding keys by (auto intro: rev_image_eqI)
    have dist: "distinct (map rc_speaker_id cs)" and cids: "\<forall>c \<in> set cs. is_id (rc_speaker_id c)"
      using 2(4,6) by simp_all
    note all = 2(2) [OF Some a rest dist fresh [unfolded as1_def] cids, folded as1_def]
    note IH = all [THEN conjunct1] all [THEN conjunct2, THEN conjunct1]
      all [THEN conjunct2, THEN conjunct2, THEN conjunct1] all [THEN conjunct2, THEN conjunct2, THEN conjunct2]
    have "fst ` set as' = fst ` set as \<union> rc_speaker_id ` {d \<in> set (c # cs). maps (rc_speaker_id d) \<noteq> None}"
      unfolding IH(2) keys using Some by auto
    moreover have "\<forall>k \<in> fst ` set as. map_of as' k = map_of as k"
    proof
      fix k assume k: "k \<in> fst ` set as"
      moreover have "rc_speaker_id c \<notin> fst ` set as" using 2(5) by simp
      ultimately have "k \<noteq> rc_speaker_id c" by blast
      then show "map_of as' k = map_of as k" using bspec [OF IH(3), of k] k by (simp add: keys look)
    qed
    moreover have "map_of as' (rc_speaker_id c) = Some a"
      using IH(3) unfolding keys look by simp
    ultimately show ?thesis using IH(1,4) ma Some by simp
  qed
qed

lemma apply_roles_result:
  assumes "apply_roles cands rs as = Inr as'" and "distinct (map rz_speaker_id rs)"
    and "\<forall>k c. cands k = Some c \<longrightarrow> rc_speaker_id c = k \<and> is_id k"
  shows "fst ` set as' = fst ` set as \<union> rz_speaker_id ` set rs
    \<and> (\<forall>k. k \<notin> rz_speaker_id ` set rs \<longrightarrow> map_of as' k = map_of as k)
    \<and> (\<forall>z \<in> set rs. \<exists>c a. cands (rz_speaker_id z) = Some c \<and> map_of as' (rz_speaker_id z) = Some a
         \<and> agent_assignment c z a)"
  using assms
proof (induction cands rs as rule: apply_roles.induct)
  case (1 cands as)
  then show ?case by simp
next
  case (2 cands z zs as)
  obtain c ids a where c: "cands (rz_speaker_id z) = Some c" "assignment_evidence c z = Inr ids"
      and a: "validate_RoleAssignment
         \<lparr>ra_speaker_id = rz_speaker_id z, ra_role = rz_role z, ra_confidence = rz_confidence z,
          ra_evidence = ids, ra_source = AGENT, ra_resolution_evidence = rz_evidence z\<rparr> = Inr a"
      and rest: "apply_roles cands zs (AList.update (rz_speaker_id z) a as) = Inr as'"
    using 2(2) by (auto simp: result_iffs split: option.splits)
  have "agent_assignment c z a"
    using validate_RoleAssignment_Inr [OF a] c 2(4)
    by (auto simp: agent_assignment_def assignment_evidence_def is_text_def split: if_splits)
  with 2(1) [OF c a rest] 2(3,4) c(1) show ?case
    by (auto simp: AList.update_conv' keys_update)
qed

lemma candidate_of_Inr:
  assumes "candidate_of (k, segs) = Inr c" and "is_id k"
  shows "rc_speaker_id c = k \<and> rc_evidence_ids c = map ds_id segs"
  using assms
  by (auto simp: candidate_of_def validate_RoleResolutionCandidate_def result_iffs field_iffs is_text_def)

lemma candidates_result:
  assumes "candidates segs = Inr cs" and "\<forall>s \<in> set segs. is_id (ds_speaker_id s)"
  shows "map rc_speaker_id cs = first_occurrences (map ds_speaker_id segs)
    \<and> (\<forall>c \<in> set cs. rc_evidence_ids c = map ds_id (filter (\<lambda>s. ds_speaker_id s = rc_speaker_id c) segs))"
proof -
  define ks where "ks = first_occurrences (map ds_speaker_id segs)"
  have ids: "\<forall>k \<in> set ks. is_id k" using assms(2) by (auto simp: ks_def)
  have "list_all2 (\<lambda>k c. candidate_of (k, filter (\<lambda>s. ds_speaker_id s = k) segs) = Inr c) ks cs"
    using assms(1) unfolding candidates_def group_segments_eq mapE_Inr_iff
    by (simp add: list_all2_map1 ks_def)
  then have "list_all2 (\<lambda>k c. rc_speaker_id c = k \<and> rc_evidence_ids c = map ds_id (filter (\<lambda>s. ds_speaker_id s = k) segs)) ks cs"
    using ids unfolding list_all2_conv_all_nth by (metis candidate_of_Inr nth_mem)
  then show ?thesis
    unfolding ks_def [symmetric]
    by (auto simp: list_all2_conv_all_nth in_set_conv_nth intro!: nth_equalityI)
qed

lemma dict_of_by:
  assumes "distinct (map f xs)"
  shows "dict_of (map (\<lambda>x. (f x, x)) xs) k = Some y \<longleftrightarrow> y \<in> set xs \<and> f y = k"
proof -
  have d: "distinct (map fst (map (\<lambda>x. (f x, x)) xs))" using assms by (simp add: comp_def)
  show ?thesis unfolding dict_of_distinct [OF d] map_of_eq_Some_iff [OF d] by auto
qed

lemma apply_resolver_result:
  assumes "apply_resolver resolver un as = Inr (as', p)" and "distinct (map rc_speaker_id un)"
    and "\<forall>c \<in> set un. is_id (rc_speaker_id c) \<and> rc_speaker_id c \<notin> fst ` set as"
  shows "fst ` set as' \<subseteq> fst ` set as \<union> rc_speaker_id ` set un
    \<and> (\<forall>k \<in> fst ` set as. map_of as' k = map_of as k)
    \<and> (\<forall>c \<in> set un. rc_speaker_id c \<in> fst ` set as' \<longrightarrow>
         (\<exists>f d z a. resolver = Some f \<and> f un = Inr d \<and> z \<in> set (rd_roles d) \<and> p = rd_provenance d
            \<and> map_of as' (rc_speaker_id c) = Some a \<and> agent_assignment c z a))"
proof (cases "resolver = None \<or> un = []")
  case True
  then show ?thesis using assms by (cases resolver) (auto simp: apply_resolver_def)
next
  case False
  then obtain f d where f: "resolver = Some f" "f un = Inr d" "validate_resolver_output un (rd_roles d) = Inr ()"
      "apply_roles (dict_of (map (\<lambda>c. (rc_speaker_id c, c)) un)) (rd_roles d) as = Inr as'" "p = rd_provenance d"
    using assms(1) by (auto simp: apply_resolver_def result_iffs)
  have dist: "distinct (map rz_speaker_id (rd_roles d))" and sub: "rz_speaker_id ` set (rd_roles d) \<subseteq> rc_speaker_id ` set un"
    using f(3) by (auto simp: validate_resolver_output_def Let_def split: if_splits)
  note look = dict_of_by [OF assms(2)]
  have known: "\<forall>k c. dict_of (map (\<lambda>c. (rc_speaker_id c, c)) un) k = Some c \<longrightarrow> rc_speaker_id c = k \<and> is_id k"
    unfolding look using assms(3) by auto
  have keys: "fst ` set as' = fst ` set as \<union> rz_speaker_id ` set (rd_roles d)"
      and keep: "\<forall>k. k \<notin> rz_speaker_id ` set (rd_roles d) \<longrightarrow> map_of as' k = map_of as k"
      and got: "\<forall>z \<in> set (rd_roles d). \<exists>c a. dict_of (map (\<lambda>c. (rc_speaker_id c, c)) un) (rz_speaker_id z) = Some c
         \<and> map_of as' (rz_speaker_id z) = Some a \<and> agent_assignment c z a"
    using apply_roles_result [OF f(4) dist known] by simp_all
  have asked: "\<exists>f d z a. resolver = Some f \<and> f un = Inr d \<and> z \<in> set (rd_roles d) \<and> p = rd_provenance d
            \<and> map_of as' (rc_speaker_id c) = Some a \<and> agent_assignment c z a"
    if c: "c \<in> set un" "rc_speaker_id c \<in> fst ` set as'" for c
  proof -
    have "rc_speaker_id c \<in> rz_speaker_id ` set (rd_roles d)" using c assms(3) unfolding keys by blast
    then obtain z where z: "z \<in> set (rd_roles d)" "rc_speaker_id c = rz_speaker_id z" by blast
    obtain c' a where "c' \<in> set un" "rc_speaker_id c' = rc_speaker_id c" and a: "map_of as' (rc_speaker_id c) = Some a"
        "agent_assignment c' z a"
      using bspec [OF got z(1)] unfolding look z(2) [symmetric] by blast
    then have "c' = c" using c(1) assms(2) by (auto simp: distinct_map inj_on_def)
    with a z f(1,2,5) show ?thesis by blast
  qed
  have kept: "map_of as' k = map_of as k" if "k \<in> fst ` set as" for k
  proof -
    have "k \<notin> rz_speaker_id ` set (rd_roles d)"
    proof
      assume "k \<in> rz_speaker_id ` set (rd_roles d)"
      then have "k \<in> rc_speaker_id ` set un" using sub by blast
      then obtain c where "c \<in> set un" "k = rc_speaker_id c" by blast
      then show False using assms(3) that by blast
    qed
    then show ?thesis using keep by blast
  qed
  have within: "fst ` set as' \<subseteq> fst ` set as \<union> rc_speaker_id ` set un" using keys sub by blast
  show ?thesis by (intro conjI ballI impI within kept asked)
qed

lemma diarized_speaker_id: "is_valid validate_DiarizedSegment s \<Longrightarrow> is_id (ds_speaker_id s)"
  by (cases s) (auto simp: is_valid_iff validate_DiarizedSegment_def bindE_Inr_iff dest: non_empty_id_is_id)

text \<open>The shape of a successful resolution: one lookup per candidate, all of them present.\<close>

lemma resolve_roles_Inr:
  assumes "resolve_roles segs maps resolver t = Inr r"
  shows "\<exists>cs as un as' p. candidates segs = Inr cs
    \<and> apply_mappings (dict_of (map (\<lambda>m. (srm_speaker_id m, m)) maps)) cs [] [] = Inr (as, un)
    \<and> apply_resolver resolver un as = Inr (as', p) \<and> (\<forall>c \<in> set cs. rc_speaker_id c \<in> fst ` set as')
    \<and> is_valid validate_RoleResolution r
    \<and> rr_assignments r = map (\<lambda>c. the (map_of as' (rc_speaker_id c))) cs
    \<and> rr_needs_review r = list_ex (\<lambda>a. ra_confidence a < t) (rr_assignments r) \<and> rr_agent_provenance r = p"
proof -
  obtain cs as un as' p where s: "candidates segs = Inr cs"
     "apply_mappings (dict_of (map (\<lambda>m. (srm_speaker_id m, m)) maps)) cs [] [] = Inr (as, un)"
     "apply_resolver resolver un as = Inr (as', p)" "\<not> list_ex (\<lambda>c. rc_speaker_id c \<notin> set (map fst as')) cs"
     and r: "validate_RoleResolution
           \<lparr>rr_assignments = map (\<lambda>c. the (map_of as' (rc_speaker_id c))) cs,
            rr_needs_review = list_ex (\<lambda>a. ra_confidence a < t) (map (\<lambda>c. the (map_of as' (rc_speaker_id c))) cs),
            rr_agent_provenance = p\<rparr> = Inr r"
    using assms unfolding resolve_roles_def Let_def bindE_Inr_iff
    by (elim exE conjE) (auto split: prod.splits if_splits simp: bindE_Inr_iff)
  have "is_valid validate_RoleResolution r" by (rule resolution_model.result_valid [OF r])
  moreover have "r = \<lparr>rr_assignments = map (\<lambda>c. the (map_of as' (rc_speaker_id c))) cs,
            rr_needs_review = list_ex (\<lambda>a. ra_confidence a < t) (map (\<lambda>c. the (map_of as' (rc_speaker_id c))) cs),
            rr_agent_provenance = p\<rparr>"
    using r unfolding validate_RoleResolution_def Let_def by (auto split: if_splits)
  moreover have "\<forall>c \<in> set cs. rc_speaker_id c \<in> fst ` set as'" using s(4) by (auto simp: list_ex_iff)
  ultimately show ?thesis using s(1-3) by (intro exI conjI) simp_all
qed

text \<open>What the two loops leave for a speaker: a mapping's assignment, or one of the agent's.\<close>

definition grounded_assignment ::
  "(pystr \<rightharpoonup> speaker_role_mapping) \<Rightarrow> resolver option \<Rightarrow> role_candidate list \<Rightarrow> role_candidate \<Rightarrow> role_assignment \<Rightarrow> bool" where
  "grounded_assignment maps resolver un c a \<longleftrightarrow>
     (case maps (rc_speaker_id c) of
        Some m \<Rightarrow> metadata_assignment c m a
      | None \<Rightarrow> \<exists>f d z. resolver = Some f \<and> f un = Inr d \<and> z \<in> set (rd_roles d) \<and> agent_assignment c z a)"

lemma loops_grounded:
  assumes "apply_mappings maps cs [] [] = Inr (as, un)" and "apply_resolver resolver un as = Inr (as', p)"
    and "distinct (map rc_speaker_id cs)" and "\<forall>c \<in> set cs. is_id (rc_speaker_id c)"
  shows "un = filter (\<lambda>c. maps (rc_speaker_id c) = None) cs
    \<and> (\<forall>c \<in> set cs. rc_speaker_id c \<in> fst ` set as' \<longrightarrow>
         (\<exists>a. map_of as' (rc_speaker_id c) = Some a \<and> grounded_assignment maps resolver un c a))"
proof -
  have M: "un = filter (\<lambda>c. maps (rc_speaker_id c) = None) cs"
      "fst ` set as = rc_speaker_id ` {c \<in> set cs. maps (rc_speaker_id c) \<noteq> None}"
      "\<forall>c \<in> set cs. \<forall>m. maps (rc_speaker_id c) = Some m \<longrightarrow>
         (\<exists>a. map_of as (rc_speaker_id c) = Some a \<and> metadata_assignment c m a)"
    using apply_mappings_result [OF assms(1,3) _ assms(4)] by simp_all
  have undist: "distinct (map rc_speaker_id un)" by (simp add: M(1) distinct_map_filter assms(3))
  have unfresh: "\<forall>c \<in> set un. is_id (rc_speaker_id c) \<and> rc_speaker_id c \<notin> fst ` set as"
    unfolding M(1,2) using assms(4) by auto
  have R: "\<forall>k \<in> fst ` set as. map_of as' k = map_of as k"
      "\<forall>c \<in> set un. rc_speaker_id c \<in> fst ` set as' \<longrightarrow>
         (\<exists>f d z a. resolver = Some f \<and> f un = Inr d \<and> z \<in> set (rd_roles d) \<and> p = rd_provenance d
            \<and> map_of as' (rc_speaker_id c) = Some a \<and> agent_assignment c z a)"
    using apply_resolver_result [OF assms(2) undist unfresh] by blast+
  have "\<exists>a. map_of as' (rc_speaker_id c) = Some a \<and> grounded_assignment maps resolver un c a"
    if c: "c \<in> set cs" "rc_speaker_id c \<in> fst ` set as'" for c
  proof (cases "maps (rc_speaker_id c)")
    case None
    then have "c \<in> set un" using c(1) by (simp add: M(1))
    with R(2) c(2) obtain f d z a where "resolver = Some f \<and> f un = Inr d \<and> z \<in> set (rd_roles d)
        \<and> map_of as' (rc_speaker_id c) = Some a \<and> agent_assignment c z a" by blast
    then show ?thesis by (auto simp: grounded_assignment_def None)
  next
    case (Some m)
    then have "rc_speaker_id c \<in> fst ` set as" using c(1) by (auto simp: M(2))
    then have "map_of as' (rc_speaker_id c) = map_of as (rc_speaker_id c)" using R(1) by blast
    moreover obtain a where "map_of as (rc_speaker_id c) = Some a \<and> metadata_assignment c m a" using M(3) c(1) Some by blast
    ultimately show ?thesis by (simp add: grounded_assignment_def Some)
  qed
  with M(1) show ?thesis by blast
qed

lemma grounded_assignment_speaker: "grounded_assignment maps resolver un c a \<Longrightarrow> ra_speaker_id a = rc_speaker_id c"
  by (auto simp: grounded_assignment_def metadata_assignment_def agent_assignment_def split: option.splits)

lemma candidate_evidence:
  assumes "candidates segs = Inr cs" and "\<forall>s \<in> set segs. is_id (ds_speaker_id s)" and "c \<in> set cs"
  shows "rc_evidence_ids c = map ds_id (filter (\<lambda>s. ds_speaker_id s = rc_speaker_id c) segs) \<and> rc_evidence_ids c \<noteq> []
    \<and> set (rc_evidence_ids c) = {ds_id s | s. s \<in> set segs \<and> ds_speaker_id s = rc_speaker_id c} \<and> is_id (rc_speaker_id c)"
proof -
  note C = candidates_result [OF assms(1,2)]
  have "rc_speaker_id c \<in> set (map rc_speaker_id cs)" using assms(3) by simp
  then have "rc_speaker_id c \<in> ds_speaker_id ` set segs" using C by simp
  then show ?thesis using C assms(2,3) by (auto simp: filter_empty_conv)
qed

text \<open>
  Property C27. A role resolution gives every speaker exactly one assignment, in the order in which the
  speakers are first heard. A speaker in the trusted metadata has the role and confidence given there and
  all of its segments as evidence; any other speaker has a role the agent returned when asked about exactly the
  speakers without metadata, and its evidence is a non-empty set of segments of that very
  speaker. Two speakers are an operator and a client, and review is asked for exactly when
  some confidence is below the threshold.
\<close>

theorem resolve_roles_grounded:
  assumes "\<forall>s \<in> set segs. is_valid validate_DiarizedSegment s" and "resolve_roles segs mappings resolver threshold = Inr r"
  shows "map ra_speaker_id (rr_assignments r) = first_occurrences (map ds_speaker_id segs)
    \<and> is_valid validate_RoleResolution r
    \<and> (length (rr_assignments r) = 2 \<longrightarrow> both_roles (rr_assignments r))
    \<and> rr_needs_review r = (\<exists>a \<in> set (rr_assignments r). ra_confidence a < threshold)
    \<and> (\<exists>cs. candidates segs = Inr cs \<and>
        (\<forall>a \<in> set (rr_assignments r).
          ra_evidence a \<noteq> [] \<and> set (ra_evidence a) \<subseteq> {ds_id s | s. s \<in> set segs \<and> ds_speaker_id s = ra_speaker_id a}
          \<and> (case dict_of (map (\<lambda>m. (srm_speaker_id m, m)) mappings) (ra_speaker_id a) of
               Some m \<Rightarrow> ra_source a = METADATA \<and> ra_role a = srm_role m \<and> ra_confidence a = srm_confidence m
                 \<and> ra_evidence a = map ds_id (filter (\<lambda>s. ds_speaker_id s = ra_speaker_id a) segs)
             | None \<Rightarrow> ra_source a = AGENT \<and> (\<exists>f d z. resolver = Some f
                 \<and> f (filter (\<lambda>c. dict_of (map (\<lambda>m. (srm_speaker_id m, m)) mappings) (rc_speaker_id c) = None) cs) = Inr d
                 \<and> z \<in> set (rd_roles d) \<and> rz_speaker_id z = ra_speaker_id a \<and> ra_role a = rz_role z
                 \<and> ra_confidence a = rz_confidence z \<and> ra_evidence a = rz_evidence_ids z))))"
proof -
  define maps where "maps = dict_of (map (\<lambda>m. (srm_speaker_id m, m)) mappings)"
  have ids: "\<forall>s \<in> set segs. is_id (ds_speaker_id s)" using assms(1) diarized_speaker_id by blast
  obtain cs as un as' p where S: "candidates segs = Inr cs" "apply_mappings maps cs [] [] = Inr (as, un)"
      "apply_resolver resolver un as = Inr (as', p)" "\<forall>c \<in> set cs. rc_speaker_id c \<in> fst ` set as'"
      "is_valid validate_RoleResolution r" "rr_assignments r = map (\<lambda>c. the (map_of as' (rc_speaker_id c))) cs"
      "rr_needs_review r = list_ex (\<lambda>a. ra_confidence a < threshold) (rr_assignments r)"
    using resolve_roles_Inr [OF assms(2)] unfolding maps_def by blast
  note E = candidate_evidence [OF S(1) ids]
  have cands: "map rc_speaker_id cs = first_occurrences (map ds_speaker_id segs)"
    using candidates_result [OF S(1) ids] by simp
  then have dist: "distinct (map rc_speaker_id cs)" by simp
  have un: "un = filter (\<lambda>c. maps (rc_speaker_id c) = None) cs"
    and each: "\<And>c. c \<in> set cs \<Longrightarrow> grounded_assignment maps resolver un c (the (map_of as' (rc_speaker_id c)))"
    using loops_grounded [OF S(2,3) dist] E S(4) by fastforce+
  have "map ra_speaker_id (rr_assignments r) = first_occurrences (map ds_speaker_id segs)"
    unfolding cands [symmetric] using each by (auto simp: S(6) intro: grounded_assignment_speaker)
  moreover have "length (rr_assignments r) = 2 \<longrightarrow> both_roles (rr_assignments r)"
    using S(5) by (auto simp: is_valid_iff validate_RoleResolution_def Let_def split: if_splits)
  moreover have "ra_evidence a \<noteq> [] \<and> set (ra_evidence a) \<subseteq> {ds_id s | s. s \<in> set segs \<and> ds_speaker_id s = ra_speaker_id a}
          \<and> (case maps (ra_speaker_id a) of
               Some m \<Rightarrow> ra_source a = METADATA \<and> ra_role a = srm_role m \<and> ra_confidence a = srm_confidence m
                 \<and> ra_evidence a = map ds_id (filter (\<lambda>s. ds_speaker_id s = ra_speaker_id a) segs)
             | None \<Rightarrow> ra_source a = AGENT \<and> (\<exists>f d z. resolver = Some f \<and> f un = Inr d
                 \<and> z \<in> set (rd_roles d) \<and> rz_speaker_id z = ra_speaker_id a \<and> ra_role a = rz_role z
                 \<and> ra_confidence a = rz_confidence z \<and> ra_evidence a = rz_evidence_ids z))"
    if a: "a \<in> set (rr_assignments r)" for a
  proof -
    obtain c where c: "c \<in> set cs" "grounded_assignment maps resolver un c a" using a each by (auto simp: S(6))
    then show ?thesis using E [OF c(1)]
      by (cases "maps (rc_speaker_id c)") (auto simp: grounded_assignment_def metadata_assignment_def agent_assignment_def)
  qed
  ultimately show ?thesis
    using S(1,5,7) unfolding maps_def [symmetric] un by (simp add: list_ex_iff)
qed

definition heard_segments :: "diarized_segment list" where
  "heard_segments =
     [\<lparr>ds_id = 1, ds_speaker_id = lit ''S1'', ds_confidence = Some 1, ds_start = 0, ds_end = 2, ds_text = lit ''hello'', ds_words = []\<rparr>,
      \<lparr>ds_id = 2, ds_speaker_id = lit ''S2'', ds_confidence = None, ds_start = 2, ds_end = 5, ds_text = lit ''my card'', ds_words = []\<rparr>,
      \<lparr>ds_id = 3, ds_speaker_id = lit ''S1'', ds_confidence = Some (1 / 2), ds_start = 5, ds_end = 6, ds_text = lit ''yes'', ds_words = []\<rparr>]"

definition operator_mapping :: "speaker_role_mapping list" where
  "operator_mapping = [\<lparr>srm_speaker_id = lit ''S1'', srm_role = OPERATOR, srm_confidence = 1, srm_evidence = lit ''caller_metadata''\<rparr>]"

definition client_resolver :: resolver where
  "client_resolver cs = Inr \<lparr>rd_roles = map (\<lambda>c. \<lparr>rz_speaker_id = rc_speaker_id c, rz_role = CLIENT, rz_confidence = 1 / 2,
       rz_evidence = lit ''asks'', rz_evidence_ids = rc_evidence_ids c\<rparr>) cs,
     rd_provenance = Some \<lparr>rap_policy_id = lit ''p'', rap_version = lit ''1'', rap_owner = lit ''o'',
       rap_effective_date = lit ''2024-01-01'', rap_sha256 = replicate 64 48\<rparr>\<rparr>"

definition heard_roles :: role_resolution where
  "heard_roles = (case resolve_roles heard_segments operator_mapping (Some client_resolver) (3 / 4) of Inr r \<Rightarrow> r)"

lemma heard_roles_ok: "resolve_roles heard_segments operator_mapping (Some client_resolver) (3 / 4) = Inr heard_roles"
  by code_simp

lemma heard_segments_ok: "\<forall>s \<in> set heard_segments. is_valid validate_DiarizedSegment s"
  by code_simp

theorem resolve_roles_grounded_witness:
  "map ra_speaker_id (rr_assignments heard_roles) = first_occurrences (map ds_speaker_id heard_segments)
   \<and> rr_needs_review heard_roles = (\<exists>a \<in> set (rr_assignments heard_roles). ra_confidence a < 3 / 4)"
  using resolve_roles_grounded [OF heard_segments_ok heard_roles_ok] by blast

end
