(* ===== verification/Engine.thy ===== *)
theory Engine
  imports Speech Results Decimals Json "HOL-Library.Product_Lexorder" "HOL-Library.List_Lexorder"
begin

text \<open>
  The canonical batch transcription (\<^verbatim>\<open>services/speech/adapters.py\<close>, \<^verbatim>\<open>services/speech/engine.py\<close>): recognised
  words with timestamps, the assignment of every word to a speaker turn of the diarization, and
  the transcript snapshot. Doubles are their exact values, and sums are left to right as in Python 3.11, the
  version of the service's images. The recogniser, the diarizer and the hash of a UUID are
  parameters.
\<close>

section \<open>Numbers of a provider's reply\<close>

text \<open>
  \<^verbatim>\<open>float(value)\<close> of a \<^verbatim>\<open>float\<close>, \<^verbatim>\<open>int\<close>, \<^verbatim>\<open>bool\<close> or \<^verbatim>\<open>str\<close>; \<open>parse\<close> is \<^verbatim>\<open>float\<close> on a
  string, \<open>None\<close> where it raises or is not finite. An \<^verbatim>\<open>int\<close> beyond the doubles raises \<^verbatim>\<open>OverflowError\<close>,
  which is not a \<^verbatim>\<open>ValueError\<close>.
\<close>

definition float_limit :: int where
  "float_limit = 2 ^ 1024 - 2 ^ 970"

definition finite_float :: "(pystr \<Rightarrow> double option) \<Rightarrow> json \<Rightarrow> exn + double" where
  "finite_float parse v =
     (case v of
        JFloat x \<Rightarrow> Inr x
      | JInt i \<Rightarrow> if float_limit \<le> \<bar>i\<bar> then Inl OtherError else Inr (dbl (of_int i))
      | JBool b \<Rightarrow> Inr (if b then 1 else 0)
      | JStr s \<Rightarrow> (case parse s of None \<Rightarrow> Inl ValueError | Some x \<Rightarrow> Inr x)
      | _ \<Rightarrow> Inl ValueError)"

definition optional_confidence :: "(pystr \<Rightarrow> double option) \<Rightarrow> json option \<Rightarrow> exn + double option" where
  "optional_confidence parse v =
     (case v of
        None \<Rightarrow> Inr None
      | Some JNull \<Rightarrow> Inr None
      | Some j \<Rightarrow> bindE (finite_float parse j) (\<lambda>x. Inr (if 0 \<le> x \<and> x \<le> 1 then Some x else None)))"

definition overlap_of :: "double \<Rightarrow> double \<Rightarrow> double \<Rightarrow> double \<Rightarrow> double" where
  "overlap_of first_start first_end second_start second_end =
     max 0 (dbl_sub (min first_end second_end) (max first_start second_start))"

section \<open>The local recogniser\<close>

text \<open>A segment and a word as the recogniser's objects carry them.\<close>

record raw_word =
  xw_word :: pystr
  xw_start :: json
  xw_end :: json
  xw_probability :: "json option"

record raw_segment =
  xs_start :: json
  xs_end :: json
  xs_text :: pystr
  xs_words :: "raw_word list option"

text \<open>
  The loop over the words: each starts no earlier than the end of the one before and lasts at
  least a millisecond.
\<close>

fun widen_words :: "(pystr \<Rightarrow> double option) \<Rightarrow> raw_word list \<Rightarrow> double \<Rightarrow> exn + recognized_word list" where
  "widen_words parse [] previous_end = Inr []"
| "widen_words parse (w # ws) previous_end =
     bindE (finite_float parse (xw_start w)) (\<lambda>raw_start.
     let start = max raw_start previous_end in
     bindE (finite_float parse (xw_end w)) (\<lambda>raw_end.
     let fin = max raw_end (dbl_add start (dbl (1 / 1000))) in
     bindE (optional_confidence parse (xw_probability w)) (\<lambda>c.
     bindE (validate_RecognizedWord
              \<lparr>rw_text = py_strip (xw_word w), rw_start = start, rw_end = fin, rw_confidence = c\<rparr>) (\<lambda>v.
     bindE (widen_words parse ws fin) (\<lambda>vs. Inr (v # vs))))))"

definition provider_error :: "(exn \<Rightarrow> bool) \<Rightarrow> exn + 'a \<Rightarrow> exn + 'a" where
  "provider_error caught r =
     (case r of Inl e \<Rightarrow> if e \<noteq> SpeechProviderError \<and> caught e then Inl SpeechProviderError else Inl e | Inr x \<Rightarrow> Inr x)"

definition faster_whisper_segment :: "(pystr \<Rightarrow> double option) \<Rightarrow> raw_segment \<Rightarrow> exn + recognized_segment" where
  "faster_whisper_segment parse g = provider_error is_value_error
     (bindE (finite_float parse (xs_start g)) (\<lambda>segment_start.
      bindE (finite_float parse (xs_end g)) (\<lambda>segment_end.
      bindE (requireE ValueError (xs_words g \<noteq> None \<and> xs_words g \<noteq> Some [])) (\<lambda>_.
      bindE (widen_words parse (the (xs_words g)) 0) (\<lambda>words.
      let text = py_strip (xs_text g) in
      bindE (requireE ValueError (text \<noteq> [] \<and> words \<noteq> [])) (\<lambda>_.
        validate_RecognizedSegment
          \<lparr>rs_start = min segment_start (rw_start (hd words)), rs_end = max segment_end (rw_end (last words)),
           rs_text = text, rs_words = words\<rparr>))))))"

text \<open>
  \<^verbatim>\<open>FasterWhisperTranscriber.transcribe\<close>; the model is a parameter, and every exception of it or
  of the conversion is a \<^verbatim>\<open>SpeechProviderError\<close>.
\<close>

definition faster_whisper_transcribe ::
  "(pystr \<Rightarrow> double option) \<Rightarrow> pystr \<Rightarrow> ('a \<Rightarrow> exn + raw_segment list) \<Rightarrow> 'a \<Rightarrow> pystr \<Rightarrow> exn + transcription_result" where
  "faster_whisper_transcribe parse configured model audio language =
     (if language \<noteq> configured then Inl SpeechProviderError
      else provider_error (\<lambda>_. True)
        (bindE (model audio) (\<lambda>segs.
         bindE (mapE (faster_whisper_segment parse) segs) (\<lambda>recognized.
           validate_TranscriptionResult
             \<lparr>tr_language = language, tr_segments = recognized, tr_provider = None\<rparr>))))"

section \<open>The rolling provider's reply\<close>

text \<open>\<^verbatim>\<open>str(value)\<close> of a value that is not a string is the parameter \<open>to_str\<close>.\<close>

definition text_of :: "(json \<Rightarrow> pystr) \<Rightarrow> json \<Rightarrow> pystr" where
  "text_of to_str v = (case v of JStr s \<Rightarrow> s | _ \<Rightarrow> to_str v)"

definition required_item :: "(pystr \<rightharpoonup> json) \<Rightarrow> string \<Rightarrow> exn + json" where
  "required_item m k = (case m (lit k) of None \<Rightarrow> Inl KeyError | Some v \<Rightarrow> Inr v)"

abbreviation key_or_value_error :: "exn \<Rightarrow> bool" where
  "key_or_value_error e \<equiv> e = KeyError \<or> is_value_error e"

definition recognized_word_of :: "(pystr \<Rightarrow> double option) \<Rightarrow> (json \<Rightarrow> pystr) \<Rightarrow> json \<Rightarrow> exn + recognized_word" where
  "recognized_word_of parse to_str raw =
     (case raw of
        JObj kvs \<Rightarrow> let m = dict_of kvs in provider_error key_or_value_error
          (bindE (required_item m ''start'') (\<lambda>s0. bindE (finite_float parse s0) (\<lambda>s.
           bindE (required_item m ''end'') (\<lambda>e0. bindE (finite_float parse e0) (\<lambda>e.
           bindE (optional_confidence parse (m (lit ''probability''))) (\<lambda>c.
             validate_RecognizedWord
               \<lparr>rw_text = py_strip (case m (lit ''word'') of None \<Rightarrow> [] | Some w \<Rightarrow> text_of to_str w),
                rw_start = s, rw_end = e, rw_confidence = c\<rparr>))))))
      | _ \<Rightarrow> Inl SpeechProviderError)"

definition recognized_segment_of ::
  "(pystr \<Rightarrow> double option) \<Rightarrow> (json \<Rightarrow> pystr) \<Rightarrow> recognized_word list \<Rightarrow> json \<Rightarrow> exn + recognized_segment" where
  "recognized_segment_of parse to_str words raw =
     (case raw of
        JObj kvs \<Rightarrow> let m = dict_of kvs in provider_error key_or_value_error
          (bindE (required_item m ''start'') (\<lambda>s0. bindE (finite_float parse s0) (\<lambda>s.
           bindE (required_item m ''end'') (\<lambda>e0. bindE (finite_float parse e0) (\<lambda>e.
           bindE (required_item m ''text'') (\<lambda>t.
             validate_RecognizedSegment
               \<lparr>rs_start = s, rs_end = e, rs_text = py_strip (text_of to_str t),
                rs_words = filter (\<lambda>w. 0 < overlap_of s e (rw_start w) (rw_end w) \<and> s \<le> rw_start w \<and> rw_end w \<le> e) words\<rparr>))))))
      | _ \<Rightarrow> Inl SpeechProviderError)"

definition usage_seconds :: "(pystr \<Rightarrow> double option) \<Rightarrow> (pystr \<rightharpoonup> json) \<Rightarrow> exn + double option" where
  "usage_seconds parse m =
     (let candidate = (case m (lit ''usage'') of
         Some (JObj u) \<Rightarrow> dict_of u (lit ''seconds'')
       | _ \<Rightarrow> m (lit ''duration''))
      in case candidate of
           None \<Rightarrow> Inr None
         | Some JNull \<Rightarrow> Inr None
         | Some v \<Rightarrow> bindE (finite_float parse v) (\<lambda>x. Inr (if 0 \<le> x then Some x else None)))"

definition groq_result ::
  "(pystr \<Rightarrow> double option) \<Rightarrow> (json \<Rightarrow> pystr) \<Rightarrow> pystr \<Rightarrow> pystr \<Rightarrow> pystr option \<Rightarrow> pystr \<Rightarrow> json \<Rightarrow> exn + transcription_result" where
  "groq_result parse to_str language fingerprint request_id model payload =
     (case payload of
        JObj kvs \<Rightarrow> let m = dict_of kvs in
          (case (m (lit ''segments''), m (lit ''words'')) of
             (Some (JList raw_segments), Some (JList raw_words)) \<Rightarrow>
               bindE (mapE (recognized_word_of parse to_str) raw_words) (\<lambda>words.
               bindE (mapE (recognized_segment_of parse to_str words) raw_segments) (\<lambda>segments.
               if segments = [] then
                 validate_TranscriptionResult \<lparr>tr_language = language, tr_segments = [], tr_provider = None\<rparr>
               else
                 bindE (usage_seconds parse m) (\<lambda>usage.
                 provider_error is_value_error
                   (bindE (validate_ASRProviderMetadata
                       \<lparr>pm_provider = lit ''groq'', pm_model = model, pm_endpoint_fingerprint = fingerprint,
                        pm_request_id = (case request_id of None \<Rightarrow> None
                          | Some s \<Rightarrow> if py_strip s \<noteq> [] then Some (py_strip s) else None),
                        pm_usage_seconds = usage\<rparr>) (\<lambda>meta.
                    validate_TranscriptionResult
                      \<lparr>tr_language = language, tr_segments = segments, tr_provider = Some meta\<rparr>)))))
           | _ \<Rightarrow> Inl SpeechProviderError)
      | _ \<Rightarrow> Inl SpeechProviderError)"

text \<open>
  One request of the rolling transcriber. The HTTP exchange is a parameter: it raises, or gives
  a response whose body arrives in chunks.
\<close>

record http_response =
  hr_status :: int
  hr_encoding :: "pystr option"
  hr_length :: "pystr option"
  hr_request_id :: "pystr option"
  hr_chunks :: "nat list list"

definition ascii_lower :: "nat \<Rightarrow> nat" where
  "ascii_lower c = (if 65 \<le> c \<and> c \<le> 90 then c + 32 else c)"

text \<open>
  \<^verbatim>\<open>value.strip().casefold() == "identity"\<close> of a header, whose characters are below 256; there the
  comparison is that of ASCII letters.
\<close>

definition is_identity :: "pystr \<Rightarrow> bool" where
  "is_identity v \<longleftrightarrow> map ascii_lower (py_strip v) = lit ''identity''"

text \<open>\<^verbatim>\<open>int(value)\<close> of decimal digits; more than 4300 of them raise.\<close>

definition int_of_digits :: "pystr \<Rightarrow> exn + nat" where
  "int_of_digits s = (if 4300 < length s then Inl ValueError else Inr (digits_value s 0))"

fun read_chunks :: "exn \<Rightarrow> nat \<Rightarrow> 'b list list \<Rightarrow> 'b list \<Rightarrow> exn + 'b list" where
  "read_chunks e maximum [] content = Inr content"
| "read_chunks e maximum (c # cs) content =
     (if maximum < length content + length c then Inl e else read_chunks e maximum cs (content @ c))"

definition read_bounded_response :: "http_response \<Rightarrow> nat \<Rightarrow> exn + nat list" where
  "read_bounded_response r maximum =
     bindE (requireE SpeechProviderError
       (is_identity (case hr_encoding r of None \<Rightarrow> lit ''identity'' | Some v \<Rightarrow> v))) (\<lambda>_.
     bindE (case hr_length r of
              None \<Rightarrow> Inr ()
            | Some v \<Rightarrow>
                if v = [] \<or> \<not> list_all digit v then Inl SpeechProviderError
                else bindE (int_of_digits v) (\<lambda>n. requireE SpeechProviderError (n \<le> maximum))) (\<lambda>_.
       read_chunks SpeechProviderError maximum (hr_chunks r) []))"

record groq_settings =
  gq_language :: pystr
  gq_model :: pystr
  gq_fingerprint :: pystr
  gq_max_response_bytes :: nat

definition groq_transcribe ::
  "(pystr \<Rightarrow> double option) \<Rightarrow> (json \<Rightarrow> pystr) \<Rightarrow> (nat list \<Rightarrow> exn + json) \<Rightarrow> groq_settings
     \<Rightarrow> ('a \<Rightarrow> exn + http_response) \<Rightarrow> 'a \<Rightarrow> pystr \<Rightarrow> exn + transcription_result" where
  "groq_transcribe parse to_str loads st exchange audio language =
     (if language \<noteq> gq_language st then Inl SpeechProviderError
      else provider_error (\<lambda>e. is_value_error e \<or> e = HttpError)
        (bindE (exchange audio) (\<lambda>r.
         bindE (read_bounded_response r (gq_max_response_bytes st)) (\<lambda>content.
         bindE (requireE SpeechProviderError (200 \<le> hr_status r \<and> hr_status r < 300)) (\<lambda>_.
         bindE (loads content) (\<lambda>payload.
           groq_result parse to_str language (gq_fingerprint st) (hr_request_id r) (gq_model st) payload))))))"

section \<open>Alignment and speaker assignment\<close>

definition aligned_word :: "recognized_word \<Rightarrow> exn + word_timestamp" where
  "aligned_word w = validate_WordTimestamp
     \<lparr>wt_word = rw_text w, wt_start = rw_start w, wt_end = rw_end w, wt_confidence = rw_confidence w\<rparr>"

text \<open>\<^verbatim>\<open>PassthroughTimestampAligner.align\<close>\<close>

definition align :: "transcription_result \<Rightarrow> pystr \<Rightarrow> exn + aligned_segment list" where
  "align transcription language =
     (if language \<noteq> tr_language transcription then Inl SpeechProviderError
      else mapE (\<lambda>g. bindE (mapE aligned_word (rs_words g)) (\<lambda>ws.
             validate_AlignedSegment
               \<lparr>al_start = rs_start g, al_end = rs_end g, al_text = rs_text g, al_words = ws\<rparr>)) (tr_segments transcription))"

text \<open>\<^verbatim>\<open>round(x, 9)\<close>: the nearest decimal with nine places, as a double.\<close>

definition round9 :: "double \<Rightarrow> double" where
  "round9 x = dbl (of_int (round_half_even (x * 10 ^ 9)) / 10 ^ 9)"

text \<open>The tuples that \<^verbatim>\<open>_best_speaker\<close> sorts, and their keys.\<close>

type_synonym candidate_turn = "double \<times> double \<times> double \<times> pystr"

definition overlap_entry :: "word_timestamp \<Rightarrow> diarization_turn \<Rightarrow> candidate_turn" where
  "overlap_entry w t =
     (overlap_of (wt_start w) (wt_end w) (dt_start t) (dt_end t), dt_start t, dt_end t, dt_speaker_id t)"

definition gap_entry :: "word_timestamp \<Rightarrow> diarization_turn \<Rightarrow> candidate_turn" where
  "gap_entry w t =
     (max (max (dbl_sub (dt_start t) (wt_end w)) (dbl_sub (wt_start w) (dt_end t))) 0, dt_start t, dt_end t, dt_speaker_id t)"

fun overlap_key :: "candidate_turn \<Rightarrow> candidate_turn" where
  "overlap_key (ov, s, e, i) = (- round9 ov, s, e, i)"

fun gap_key :: "candidate_turn \<Rightarrow> candidate_turn" where
  "gap_key (g, s, e, i) = (round9 g, s, e, i)"

definition best_speaker :: "word_timestamp \<Rightarrow> diarization_turn list \<Rightarrow> pystr option \<times> double" where
  "best_speaker w turns =
     (if turns = [] then (None, 0)
      else
        let (overlap, _, _, speaker_id) = hd (sort_key overlap_key (map (overlap_entry w) turns))
        in if 0 < overlap then (Some speaker_id, overlap)
           else let (_, _, _, nearest) = hd (sort_key gap_key (map (gap_entry w) turns)) in (Some nearest, 0))"

record speaker_word =
  sw_word :: word_timestamp
  sw_speaker :: "pystr option"
  sw_overlap :: double

definition attribute :: "diarization_turn list \<Rightarrow> word_timestamp \<Rightarrow> speaker_word" where
  "attribute turns w =
     (let (speaker, overlap) = best_speaker w turns in \<lparr>sw_word = w, sw_speaker = speaker, sw_overlap = overlap\<rparr>)"

definition word_duration :: "word_timestamp \<Rightarrow> double" where
  "word_duration w = dbl_sub (wt_end w) (wt_start w)"

definition dbl_sum :: "double list \<Rightarrow> double" where
  "dbl_sum xs = foldl dbl_add 0 xs"

definition speaker_segment :: "speaker_word list \<Rightarrow> exn + attributed_segment" where
  "speaker_segment grp =
     (let words = map sw_word grp;
          duration = dbl_sum (map word_duration words);
          overlap = dbl_sum (map sw_overlap grp)
      in validate_SpeakerAttributedSegment
           \<lparr>sa_start = wt_start (hd words), sa_end = wt_end (last words), sa_text = join_with [32] (map wt_word words),
            sa_words = words, sa_speaker_id = sw_speaker (hd grp),
            sa_confidence = (if 0 < duration \<and> sw_speaker (hd grp) \<noteq> None then Some (dbl (overlap / duration)) else None)\<rparr>)"

text \<open>The loop of \<^verbatim>\<open>assign\<close>; the accumulator is the grp of words of the current speaker.\<close>

fun assign_loop :: "speaker_word list \<Rightarrow> speaker_word list \<Rightarrow> exn + attributed_segment list" where
  "assign_loop [] grp = (if grp = [] then Inr [] else bindE (speaker_segment grp) (\<lambda>s. Inr [s]))"
| "assign_loop (i # rest) grp =
     (if grp \<noteq> [] \<and> sw_speaker i \<noteq> sw_speaker (last grp) then
        bindE (speaker_segment grp) (\<lambda>s. bindE (assign_loop rest [i]) (\<lambda>r. Inr (s # r)))
      else assign_loop rest (grp @ [i]))"

definition assign :: "aligned_segment list \<Rightarrow> diarization_turn list \<Rightarrow> exn + attributed_segment list" where
  "assign aligned diarization =
     (let words = concat (map al_words aligned)
      in if words = [] then Inl SpeechProviderError
      else assign_loop (map (attribute diarization) words) [])"

section \<open>The engine\<close>

record normalized_audio =
  na_duration :: double
  na_sha256 :: pystr

record component_manifest =
  mf_asr :: component_revision
  mf_diarization :: component_revision
  mf_whisper_model_id :: pystr

record engine_settings =
  es_language :: pystr
  es_pipeline_revision :: pystr

text \<open>What the engine is given: its ports, the hash behind a UUID and the clocks.\<close>

record engine_ports =
  ep_transcribe :: "normalized_audio \<Rightarrow> pystr \<Rightarrow> exn + transcription_result"
  ep_align :: "transcription_result \<Rightarrow> pystr \<Rightarrow> exn + aligned_segment list"
  ep_diarize :: "normalized_audio \<Rightarrow> exn + diarization_turn list"
  ep_assign :: "aligned_segment list \<Rightarrow> diarization_turn list \<Rightarrow> exn + attributed_segment list"
  ep_resolver :: "resolver option"
  ep_uuid5 :: "pystr \<Rightarrow> uuid"
  ep_processing_ms :: int
  ep_clock :: int

definition unassigned_speaker :: pystr where
  "unassigned_speaker = lit ''UNASSIGNED''"

definition speaker_or_unassigned :: "attributed_segment \<Rightarrow> pystr" where
  "speaker_or_unassigned g = (case sa_speaker_id g of None \<Rightarrow> unassigned_speaker | Some s \<Rightarrow> if s = [] then unassigned_speaker else s)"

text \<open>\<^verbatim>\<open>str\<close> of a natural number, and \<^verbatim>\<open>format(x, ".6f")\<close> of a double that is not negative.\<close>

fun decimal_digits :: "nat \<Rightarrow> pystr" where
  "decimal_digits n = (if n < 10 then [48 + n] else decimal_digits (n div 10) @ [48 + n mod 10])"

declare decimal_digits.simps [simp del]

definition fixed6 :: "double \<Rightarrow> pystr" where
  "fixed6 x =
     (let n = nat (round_half_even (x * 10 ^ 6)); f = decimal_digits (n mod 10 ^ 6)
      in decimal_digits (n div 10 ^ 6) @ [46] @ replicate (6 - length f) 48 @ f)"

definition segment_name :: "pystr \<Rightarrow> nat \<Rightarrow> attributed_segment \<Rightarrow> pystr" where
  "segment_name sha index g =
     lit ''mtbank-ai/segment/'' @ sha @ lit ''/'' @ decimal_digits index @ lit ''/'' @ speaker_or_unassigned g
       @ lit ''/'' @ fixed6 (sa_start g) @ lit ''/'' @ fixed6 (sa_end g) @ lit ''/'' @ sa_text g"

definition diarized_of :: "(pystr \<Rightarrow> uuid) \<Rightarrow> pystr \<Rightarrow> nat \<times> attributed_segment \<Rightarrow> exn + diarized_segment" where
  "diarized_of uuid5 sha p =
     (case p of (index, g) \<Rightarrow> validate_DiarizedSegment
        \<lparr>ds_id = uuid5 (segment_name sha index g), ds_speaker_id = speaker_or_unassigned g, ds_confidence = sa_confidence g,
         ds_start = sa_start g, ds_end = sa_end g, ds_text = sa_text g, ds_words = sa_words g\<rparr>)"

definition resolved_segment :: "(pystr \<rightharpoonup> role_assignment) \<Rightarrow> diarized_segment \<Rightarrow> exn + transcript_segment" where
  "resolved_segment assignments s =
     (case assignments (ds_speaker_id s) of
        None \<Rightarrow> Inl KeyError
      | Some a \<Rightarrow> validate_TranscriptSegment
          \<lparr>ts_id = ds_id s, ts_speaker_id = ds_speaker_id s, ts_speaker = ra_role a, ts_role_confidence = ra_confidence a,
           ts_speaker_confidence = ds_confidence s, ts_start = ds_start s, ts_end = ds_end s, ts_text = ds_text s,
           ts_redacted_text = ds_text s, ts_words = ds_words s\<rparr>)"

text \<open>The default threshold of \<^verbatim>\<open>resolve_roles\<close> applies.\<close>

definition snapshot_of ::
  "engine_ports \<Rightarrow> engine_settings \<Rightarrow> component_manifest \<Rightarrow> speaker_role_mapping list \<Rightarrow> normalized_audio
     \<Rightarrow> attributed_segment list \<Rightarrow> asr_provider_metadata option \<Rightarrow> exn + transcript_snapshot" where
  "snapshot_of ports st manifest mappings audio attributed provider =
     bindE (mapE (diarized_of (ep_uuid5 ports) (na_sha256 audio)) (List.enumerate 0 attributed)) (\<lambda>diarized.
     bindE (requireE NoSpeechError (diarized \<noteq> [])) (\<lambda>_.
     bindE (resolve_roles diarized mappings (ep_resolver ports) (3 / 4)) (\<lambda>resolution.
     bindE (mapE (resolved_segment (dict_of (map (\<lambda>a. (ra_speaker_id a, a)) (rr_assignments resolution)))) diarized) (\<lambda>segments.
     bindE (validate_ComponentRevision
        \<lparr>cr_package = lit ''faster-whisper'', cr_package_version = lit ''1.2.1'', cr_model_id = mf_whisper_model_id manifest,
         cr_model_revision = lit ''native-word-timestamps-v1'',
         cr_artifact_sha256 = cr_artifact_sha256 (mf_asr manifest)\<rparr>) (\<lambda>alignment.
     bindE (validate_ASRMetadata
        \<lparr>am_asr = mf_asr manifest, am_alignment = alignment, am_diarization = mf_diarization manifest,
         am_language = es_language st, am_processing_ms = ep_processing_ms ports, am_provider = provider\<rparr>) (\<lambda>asr.
       validate_TranscriptSnapshot
         \<lparr>sn_transcript_id = ep_uuid5 ports (lit ''mtbank-ai/transcript/'' @ na_sha256 audio @ lit ''/'' @ es_pipeline_revision st),
          sn_audio_sha256 = na_sha256 audio, sn_revision = es_pipeline_revision st, sn_language = es_language st,
          sn_duration = na_duration audio, sn_segments = segments, sn_roles = resolution, sn_asr = asr,
          sn_created_at = ep_clock ports\<rparr>))))))"

text \<open>\<^verbatim>\<open>CanonicalBatchEngine.transcribe\<close> on the audio that the normaliser yields.\<close>

definition engine_transcribe ::
  "engine_ports \<Rightarrow> engine_settings \<Rightarrow> component_manifest \<Rightarrow> speaker_role_mapping list \<Rightarrow> normalized_audio
     \<Rightarrow> exn + transcript_snapshot" where
  "engine_transcribe ports st manifest mappings audio =
     bindE (ep_transcribe ports audio (es_language st)) (\<lambda>transcription.
     bindE (requireE NoSpeechError (tr_segments transcription \<noteq> [])) (\<lambda>_.
     bindE (ep_align ports transcription (es_language st)) (\<lambda>aligned.
     bindE (requireE NoSpeechError (aligned \<noteq> [])) (\<lambda>_.
     bindE (ep_diarize ports audio) (\<lambda>diarization.
     bindE (ep_assign ports aligned diarization) (\<lambda>attributed.
     bindE (requireE NoSpeechError (attributed \<noteq> [])) (\<lambda>_.
     bindE (requireE SpeechProviderError (map sa_start attributed = sort (map sa_start attributed))) (\<lambda>_.
       snapshot_of ports st manifest mappings audio attributed (tr_provider transcription)))))))))"

section \<open>Maximal runs\<close>

text \<open>The maximal runs of elements with the same key, as a reference for the loop of \<open>assign\<close>.\<close>

fun runs :: "('a \<Rightarrow> 'k) \<Rightarrow> 'a list \<Rightarrow> 'a list list" where
  "runs f [] = []"
| "runs f (x # xs) =
     (case runs f xs of [] \<Rightarrow> [[x]] | g # gs \<Rightarrow> if f x = f (hd g) then (x # g) # gs else [x] # g # gs)"

lemma runs_Nil_iff [simp]: "runs f xs = [] \<longleftrightarrow> xs = []"
  by (cases xs) (auto split: list.splits)

lemma runs_concat [simp]: "concat (runs f xs) = xs"
  by (induction xs) (auto split: list.splits)

lemma runs_hd: "xs \<noteq> [] \<Longrightarrow> hd (hd (runs f xs)) = hd xs \<and> hd (runs f xs) \<noteq> []"
  by (cases xs) (auto split: list.splits)

lemma runs_nonempty: "g \<in> set (runs f xs) \<Longrightarrow> g \<noteq> []"
  by (induction xs arbitrary: g) (auto split: list.splits if_splits)

lemma runs_constant: "g \<in> set (runs f xs) \<Longrightarrow> x \<in> set g \<Longrightarrow> f x = f (hd g)"
proof (induction xs arbitrary: g x)
  case (Cons y ys)
  show ?case
  proof (cases "runs f ys")
    case (Cons h hs)
    then show ?thesis using Cons.prems Cons.IH by (auto split: if_splits)
  qed (use Cons.prems in auto)
qed simp

lemma runs_adjacent: "Suc i < length (runs f xs) \<Longrightarrow> f (hd (runs f xs ! i)) \<noteq> f (hd (runs f xs ! Suc i))"
proof (induction xs arbitrary: i)
  case (Cons y ys)
  show ?case
  proof (cases "runs f ys")
    case (Cons h hs)
    then show ?thesis
      using Cons.prems Cons.IH [of i] Cons.IH [of "i - 1"] by (cases i) (auto split: if_splits)
  qed (use Cons.prems in auto)
qed simp

lemma runs_prepend:
  "grp \<noteq> [] \<Longrightarrow> (\<forall>x \<in> set grp. f x = k) \<Longrightarrow> f y \<noteq> k \<Longrightarrow> runs f (grp @ y # ys) = grp # runs f (y # ys)"
proof (induction grp)
  case (Cons x grp)
  show ?case
  proof (cases "grp = []")
    case True
    have "hd (hd (runs f (y # ys))) = y" using runs_hd [of "y # ys" f] by simp
    moreover obtain h hs where "runs f (y # ys) = h # hs"
      by (metis list.distinct(1) list.exhaust runs_Nil_iff)
    ultimately show ?thesis using Cons.prems True by (simp del: runs.simps(2) add: runs.simps(2) [of f x])
  next
    case False
    then show ?thesis using Cons by (auto simp del: runs.simps(2) simp: runs.simps(2) [of f x])
  qed
qed simp

lemma runs_one: "grp \<noteq> [] \<Longrightarrow> (\<forall>x \<in> set grp. f x = k) \<Longrightarrow> runs f grp = [grp]"
proof (induction grp)
  case (Cons x grp)
  then show ?case by (cases "grp = []") auto
qed simp

lemma assign_loop_runs:
  "(\<forall>x \<in> set grp. sw_speaker x = k) \<Longrightarrow> assign_loop its grp = mapE speaker_segment (runs sw_speaker (grp @ its))"
proof (induction its grp arbitrary: k rule: assign_loop.induct)
  case (1 grp)
  then show ?case by (cases "grp = []") (simp_all add: runs_one [of grp sw_speaker k])
next
  case (2 i rest grp)
  show ?case
  proof (cases "grp \<noteq> [] \<and> sw_speaker i \<noteq> sw_speaker (last grp)")
    case True
    then have "runs sw_speaker (grp @ i # rest) = grp # runs sw_speaker (i # rest)"
      using 2(3) by (intro runs_prepend [of _ _ k]) auto
    then show ?thesis using True 2(1) [OF True, of _ "sw_speaker i"]
      by (cases "speaker_segment grp") (simp_all del: runs.simps)
  next
    case False
    then have "\<forall>x \<in> set (grp @ [i]). sw_speaker x = (if grp = [] then sw_speaker i else k)"
      using 2(3) by (cases "grp = []") auto
    then show ?thesis using 2(2) [OF False] False by (auto simp del: runs.simps)
  qed
qed

lemma attribute_simps [simp]:
  "sw_word (attribute turns w) = w" "sw_speaker (attribute turns w) = fst (best_speaker w turns)"
  "sw_overlap (attribute turns w) = snd (best_speaker w turns)"
  by (simp_all add: attribute_def case_prod_beta)

lemma assign_runs:
  "assign aligned turns =
     (let words = concat (map al_words aligned)
      in if words = [] then Inl SpeechProviderError
         else mapE speaker_segment (runs sw_speaker (map (attribute turns) words)))"
  using assign_loop_runs [of "[]"]
  by (simp add: assign_def Let_def)

section \<open>The best speaker\<close>

lemma hd_sort_key:
  fixes f :: "'a \<Rightarrow> 'k :: linorder"
  assumes "xs \<noteq> []"
  shows "hd (sort_key f xs) \<in> set xs" and "\<forall>x \<in> set xs. f (hd (sort_key f xs)) \<le> f x"
proof -
  have ne: "sort_key f xs \<noteq> []" using assms by (metis length_0_conv length_sort)
  then show "hd (sort_key f xs) \<in> set xs" by (metis hd_in_set set_sort)
  have "sorted (map f (sort_key f xs))" by simp
  then have "\<forall>x \<in> set (sort_key f xs). f (hd (sort_key f xs)) \<le> f x"
    using ne by (cases "sort_key f xs") auto
  then show "\<forall>x \<in> set xs. f (hd (sort_key f xs)) \<le> f x" by simp
qed

definition turn_overlap :: "word_timestamp \<Rightarrow> diarization_turn \<Rightarrow> double" where
  "turn_overlap w t = overlap_of (wt_start w) (wt_end w) (dt_start t) (dt_end t)"

definition turn_gap :: "word_timestamp \<Rightarrow> diarization_turn \<Rightarrow> double" where
  "turn_gap w t = max (max (dbl_sub (dt_start t) (wt_end w)) (dbl_sub (wt_start w) (dt_end t))) 0"

lemma turn_overlap_nonneg: "0 \<le> turn_overlap w t"
  by (simp add: turn_overlap_def overlap_of_def)

text \<open>Both sorts pick a turn that is least in their order.\<close>

lemma best_speaker_select:
  assumes "turns \<noteq> []"
  obtains t v where "t \<in> set turns" "v \<in> set turns"
    "best_speaker w turns = (if 0 < turn_overlap w t then (Some (dt_speaker_id t), turn_overlap w t) else (Some (dt_speaker_id v), 0))"
    "\<forall>u \<in> set turns. (- round9 (turn_overlap w t), dt_start t, dt_end t, dt_speaker_id t)
                 \<le> (- round9 (turn_overlap w u), dt_start u, dt_end u, dt_speaker_id u)"
    "\<forall>u \<in> set turns. (round9 (turn_gap w v), dt_start v, dt_end v, dt_speaker_id v)
                 \<le> (round9 (turn_gap w u), dt_start u, dt_end u, dt_speaker_id u)"
proof -
  have ne: "map (overlap_entry w) turns \<noteq> []" "map (gap_entry w) turns \<noteq> []" using assms by simp_all
  note C = hd_sort_key [OF ne(1), of overlap_key] and G = hd_sort_key [OF ne(2), of gap_key]
  obtain t where t: "t \<in> set turns" "hd (sort_key overlap_key (map (overlap_entry w) turns)) = overlap_entry w t"
    using C(1) by auto
  obtain v where v: "v \<in> set turns" "hd (sort_key gap_key (map (gap_entry w) turns)) = gap_entry w v"
    using G(1) by auto
  have best: "best_speaker w turns =
      (if 0 < turn_overlap w t then (Some (dt_speaker_id t), turn_overlap w t) else (Some (dt_speaker_id v), 0))"
    using assms unfolding best_speaker_def t(2) v(2) by (simp add: overlap_entry_def gap_entry_def turn_overlap_def)
  have tmax: "\<forall>u \<in> set turns. (- round9 (turn_overlap w t), dt_start t, dt_end t, dt_speaker_id t)
                 \<le> (- round9 (turn_overlap w u), dt_start u, dt_end u, dt_speaker_id u)"
    using C(2) unfolding t(2) by (simp add: overlap_entry_def turn_overlap_def)
  have vmin: "\<forall>u \<in> set turns. (round9 (turn_gap w v), dt_start v, dt_end v, dt_speaker_id v)
                 \<le> (round9 (turn_gap w u), dt_start u, dt_end u, dt_speaker_id u)"
    using G(2) unfolding v(2) by (simp add: gap_entry_def turn_gap_def)
  show ?thesis by (rule that [OF t(1) v(1) best tmax vmin])
qed

lemma best_speaker_value:
  "turns \<noteq> [] \<Longrightarrow> \<exists>t \<in> set turns. \<exists>v \<in> set turns. best_speaker w turns =
     (if 0 < turn_overlap w t then (Some (dt_speaker_id t), turn_overlap w t) else (Some (dt_speaker_id v), 0))"
  by (rule best_speaker_select [of turns w]) blast+

lemma best_speaker_mem:
  "(fst (best_speaker w turns) = None \<and> turns = []) \<or> (\<exists>t \<in> set turns. fst (best_speaker w turns) = Some (dt_speaker_id t))"
proof (cases "turns = []")
  case False
  then show ?thesis by (rule best_speaker_select [of turns w]) auto
qed (simp add: best_speaker_def)

text \<open>
  Property C28. The speaker of a word is that of a turn which overlaps it most (compared with nine decimals, ties by
  start, end and speaker id); when the turn first in that order does not overlap the word, the speaker is that of a turn
  with the smallest gap to it. There is no speaker exactly when there is no turn.
\<close>

theorem best_speaker_maximal:
  "(turns = [] \<longrightarrow> best_speaker w turns = (None, 0))
   \<and> (turns \<noteq> [] \<longrightarrow> (\<exists>t \<in> set turns. fst (best_speaker w turns) = Some (dt_speaker_id t) \<and>
        ((snd (best_speaker w turns) = turn_overlap w t \<and> 0 < turn_overlap w t
            \<and> (\<forall>u \<in> set turns. (- round9 (turn_overlap w t), dt_start t, dt_end t, dt_speaker_id t)
                 \<le> (- round9 (turn_overlap w u), dt_start u, dt_end u, dt_speaker_id u)))
         \<or> (snd (best_speaker w turns) = 0 \<and> (\<forall>u \<in> set turns. round9 (turn_overlap w u) \<le> 0)
            \<and> (\<forall>u \<in> set turns. (round9 (turn_gap w t), dt_start t, dt_end t, dt_speaker_id t)
                 \<le> (round9 (turn_gap w u), dt_start u, dt_end u, dt_speaker_id u))))))"
proof (cases "turns = []")
  case True
  then show ?thesis by (simp add: best_speaker_def)
next
  case False
  obtain t v where T: "t \<in> set turns" "v \<in> set turns"
    and best: "best_speaker w turns =
      (if 0 < turn_overlap w t then (Some (dt_speaker_id t), turn_overlap w t) else (Some (dt_speaker_id v), 0))"
    and tmax: "\<forall>u \<in> set turns. (- round9 (turn_overlap w t), dt_start t, dt_end t, dt_speaker_id t)
                 \<le> (- round9 (turn_overlap w u), dt_start u, dt_end u, dt_speaker_id u)"
    and vmin: "\<forall>u \<in> set turns. (round9 (turn_gap w v), dt_start v, dt_end v, dt_speaker_id v)
                 \<le> (round9 (turn_gap w u), dt_start u, dt_end u, dt_speaker_id u)"
    by (rule best_speaker_select [OF False, of w])
  show ?thesis
  proof (cases "0 < turn_overlap w t")
    case True
    then show ?thesis using False T(1) tmax best by auto
  next
    case F: False
    then have "turn_overlap w t = 0" using turn_overlap_nonneg [of w t] by simp
    then have "round9 (turn_overlap w t) = 0" by (simp add: round9_def round_half_even_def)
    then have "\<forall>u \<in> set turns. round9 (turn_overlap w u) \<le> 0"
      using tmax by (fastforce simp: less_eq_prod_def)
    then show ?thesis using False F T(2) vmin best by auto
  qed
qed

section \<open>The attributed segments\<close>

lemma speaker_segment_Inr:
  assumes "speaker_segment grp = Inr g" and "grp \<noteq> []"
  shows "sa_words g = map sw_word grp \<and> sa_speaker_id g = map_option strip (sw_speaker (hd grp))
    \<and> sa_start g = wt_start (sw_word (hd grp)) \<and> sa_end g = wt_end (sw_word (last grp))
    \<and> sa_text g = strip (join_with [32] (map (wt_word \<circ> sw_word) grp))
    \<and> (\<forall>c. sa_confidence g = Some c \<longrightarrow> 0 \<le> c \<and> c \<le> 1)"
  using assms
  by (auto simp: speaker_segment_def validate_SpeakerAttributedSegment_def result_iffs field_iffs Let_def hd_map last_map)

lemma best_speaker_id:
  assumes "\<forall>t \<in> set turns. is_id (dt_speaker_id t)"
  shows "map_option strip (fst (best_speaker w turns)) = fst (best_speaker w turns)"
  using best_speaker_mem [of w turns] assms by (auto simp: is_text_def)

lemma turn_id: "is_valid validate_DiarizationTurn t \<Longrightarrow> is_id (dt_speaker_id t)"
  by (cases t) (auto simp: is_valid_iff validate_DiarizationTurn_def bindE_Inr_iff dest: non_empty_id_is_id)

lemma concat_map_map: "concat (map (map f) xss) = map f (concat xss)"
  by (induction xss) auto

lemma list_all2_mem1: "list_all2 P xs ys \<Longrightarrow> x \<in> set xs \<Longrightarrow> \<exists>y \<in> set ys. P x y"
  by (induction rule: list_all2_induct) auto

lemma list_all2_mem2: "list_all2 P xs ys \<Longrightarrow> y \<in> set ys \<Longrightarrow> \<exists>x \<in> set xs. P x y"
  by (induction rule: list_all2_induct) auto

lemma list_all2_mono':
  "list_all2 P xs ys \<Longrightarrow> (\<And>x y. x \<in> set xs \<Longrightarrow> P x y \<Longrightarrow> Q x y) \<Longrightarrow> list_all2 Q xs ys"
  by (induction rule: list_all2_induct) auto

lemma assign_segments:
  assumes "assign aligned turns = Inr segs"
  shows "list_all2 (\<lambda>r g. speaker_segment r = Inr g) (runs sw_speaker (map (attribute turns) (concat (map al_words aligned)))) segs"
  using assms unfolding assign_runs Let_def by (auto simp: mapE_Inr_iff split: if_splits)

lemma assign_words:
  assumes "assign aligned turns = Inr segs"
  shows "concat (map sa_words segs) = concat (map al_words aligned)"
proof -
  define ws where "ws = concat (map al_words aligned)"
  have "list_all2 (\<lambda>r g. map sw_word r = sa_words g) (runs sw_speaker (map (attribute turns) ws)) segs"
    unfolding ws_def
  proof (rule list_all2_mono' [OF assign_segments [OF assms]])
    fix r g assume r: "r \<in> set (runs sw_speaker (map (attribute turns) (concat (map al_words aligned))))" "speaker_segment r = Inr g"
    show "map sw_word r = sa_words g" using speaker_segment_Inr [OF r(2) runs_nonempty [OF r(1)]] by simp
  qed
  then have "map sa_words segs = map (map sw_word) (runs sw_speaker (map (attribute turns) ws))"
    by (induction rule: list_all2_induct) simp_all
  then have "concat (map sa_words segs) = map sw_word (concat (runs sw_speaker (map (attribute turns) ws)))"
    by (simp only: concat_map_map)
  then show ?thesis by (simp add: comp_def ws_def)
qed

lemma assign_segment:
  assumes "assign aligned turns = Inr segs" and "g \<in> set segs"
  shows "sa_words g \<noteq> [] \<and> sa_start g = wt_start (hd (sa_words g)) \<and> sa_end g = wt_end (last (sa_words g))
    \<and> sa_text g = strip (join_with [32] (map wt_word (sa_words g)))"
proof -
  obtain r where "r \<noteq> []" "speaker_segment r = Inr g"
    using list_all2_mem2 [OF assign_segments [OF assms(1)] assms(2)] runs_nonempty by blast
  then show ?thesis using speaker_segment_Inr [of r g] by (simp add: hd_map last_map)
qed

text \<open>
  Property C29. The assignment partitions the words: read one after the other, the words of the attributed segments are exactly the words
  of the aligned segments, none lost, repeated or moved; every word of a segment has the segment's speaker as its best
  speaker, neighbouring segments have different speakers, and a segment begins and ends with its first and last
  word and reads as its words.
\<close>

theorem assign_partitions_words:
  assumes "\<forall>t \<in> set turns. is_valid validate_DiarizationTurn t" and "assign aligned turns = Inr segs"
  shows "concat (map sa_words segs) = concat (map al_words aligned)
    \<and> (\<forall>g \<in> set segs. sa_words g \<noteq> [] \<and> (\<forall>w \<in> set (sa_words g). fst (best_speaker w turns) = sa_speaker_id g)
         \<and> sa_start g = wt_start (hd (sa_words g)) \<and> sa_end g = wt_end (last (sa_words g))
         \<and> sa_text g = strip (join_with [32] (map wt_word (sa_words g))))
    \<and> (\<forall>i. Suc i < length segs \<longrightarrow> sa_speaker_id (segs ! i) \<noteq> sa_speaker_id (segs ! Suc i))"
proof -
  define ws where "ws = concat (map al_words aligned)"
  define rs where "rs = runs sw_speaker (map (attribute turns) ws)"
  have all: "list_all2 (\<lambda>r g. speaker_segment r = Inr g) rs segs"
    using assign_segments [OF assms(2)] by (simp add: rs_def ws_def)
  have ids: "\<forall>t \<in> set turns. is_id (dt_speaker_id t)" using assms(1) turn_id by blast
  have speaker: "sa_speaker_id g = sw_speaker (hd r) \<and> (\<forall>w \<in> set (sa_words g). fst (best_speaker w turns) = sa_speaker_id g)"
    if r: "r \<in> set rs" "speaker_segment r = Inr g" for r g
  proof -
    have ne: "r \<noteq> []" using r(1) runs_nonempty by (auto simp: rs_def)
    have "set r \<subseteq> set (concat rs)" using r(1) by auto
    then have mem: "sw_speaker x = fst (best_speaker (sw_word x) turns)" if "x \<in> set r" for x
      using that unfolding rs_def runs_concat by auto
    have const: "sw_speaker x = sw_speaker (hd r)" if "x \<in> set r" for x
      using runs_constant [of r sw_speaker _ x] r(1) that by (auto simp: rs_def)
    have "map_option strip (sw_speaker (hd r)) = sw_speaker (hd r)"
      using mem [OF hd_in_set [OF ne]] best_speaker_id [OF ids] by simp
    moreover have "fst (best_speaker (sw_word x) turns) = sw_speaker (hd r)" if "x \<in> set r" for x
      using mem [OF that] const [OF that] by simp
    ultimately show ?thesis using speaker_segment_Inr [OF r(2) ne] by auto
  qed
  have "\<forall>w \<in> set (sa_words g). fst (best_speaker w turns) = sa_speaker_id g" if "g \<in> set segs" for g
    using list_all2_mem2 [OF all that] speaker by blast
  moreover have "sa_speaker_id (segs ! i) \<noteq> sa_speaker_id (segs ! Suc i)" if "Suc i < length segs" for i
  proof -
    have "Suc i < length rs" using that list_all2_lengthD [OF all] by simp
    then show ?thesis
      using runs_adjacent [of i sw_speaker "map (attribute turns) ws", folded rs_def]
        speaker [OF nth_mem list_all2_nthD [OF all], of i] speaker [OF nth_mem list_all2_nthD [OF all], of "Suc i"]
      by simp
  qed
  ultimately show ?thesis using assign_words [OF assms(2)] assign_segment [OF assms(2)] by simp
qed


definition two_turns :: "diarization_turn list" where
  "two_turns = [\<lparr>dt_speaker_id = lit ''S1'', dt_start = 0, dt_end = 2, dt_confidence = None\<rparr>,
                \<lparr>dt_speaker_id = lit ''S2'', dt_start = 2, dt_end = 5, dt_confidence = None\<rparr>]"

definition spoken_words :: "word_timestamp list" where
  "spoken_words = [\<lparr>wt_word = lit ''hello'', wt_start = 0, wt_end = 1, wt_confidence = None\<rparr>,
                   \<lparr>wt_word = lit ''there'', wt_start = 1, wt_end = 2, wt_confidence = None\<rparr>,
                   \<lparr>wt_word = lit ''yes'', wt_start = 3, wt_end = 4, wt_confidence = None\<rparr>]"

definition spoken_aligned :: "aligned_segment list" where
  "spoken_aligned = [\<lparr>al_start = 0, al_end = 4, al_text = lit ''hello there yes'', al_words = spoken_words\<rparr>]"

definition spoken_attributed :: "attributed_segment list" where
  "spoken_attributed =
     [\<lparr>sa_start = 0, sa_end = 2, sa_text = lit ''hello there'', sa_words = take 2 spoken_words,
       sa_speaker_id = Some (lit ''S1''), sa_confidence = Some 1\<rparr>,
      \<lparr>sa_start = 3, sa_end = 4, sa_text = lit ''yes'', sa_words = drop 2 spoken_words,
       sa_speaker_id = Some (lit ''S2''), sa_confidence = Some 1\<rparr>]"

lemma two_turns_ok: "\<forall>t \<in> set two_turns. is_valid validate_DiarizationTurn t"
  by code_simp

lemma spoken_attributed_ok: "assign spoken_aligned two_turns = Inr spoken_attributed"
  by code_simp

theorem best_speaker_maximal_witness:
  "\<exists>t \<in> set two_turns. fst (best_speaker (hd spoken_words) two_turns) = Some (dt_speaker_id t)"
  using best_speaker_maximal [of two_turns "hd spoken_words"] by (auto simp: two_turns_def)

theorem assign_partitions_words_witness:
  "concat (map sa_words spoken_attributed) = concat (map al_words spoken_aligned)"
  using assign_partitions_words [OF two_turns_ok spoken_attributed_ok] by blast

section \<open>Ordered words are always assigned\<close>

lemma overlap_le_duration:
  "wt_start w \<le> wt_end w \<Longrightarrow> turn_overlap w t \<le> word_duration w"
  unfolding turn_overlap_def overlap_of_def word_duration_def dbl_sub_def
  by (intro max.boundedI dbl_nonneg dbl_mono) auto

lemma best_overlap_le:
  assumes "wt_start w \<le> wt_end w"
  shows "0 \<le> snd (best_speaker w turns) \<and> snd (best_speaker w turns) \<le> word_duration w"
proof (cases "turns = []")
  case True
  then show ?thesis using assms by (simp add: best_speaker_def word_duration_def dbl_sub_def dbl_nonneg)
next
  case False
  have "0 \<le> word_duration w" using assms by (simp add: word_duration_def dbl_sub_def dbl_nonneg)
  moreover have "snd (best_speaker w turns) \<in> insert 0 (range (turn_overlap w))"
    using best_speaker_value [OF False, of w] by auto
  ultimately show ?thesis using overlap_le_duration [OF assms] turn_overlap_nonneg [of w] by auto
qed

text \<open>Words in order of time, each with a text and a positive duration.\<close>

definition ordered_words :: "word_timestamp list \<Rightarrow> bool" where
  "ordered_words ws \<longleftrightarrow> sorted (map wt_start ws) \<and> sorted (map wt_end ws)
     \<and> (\<forall>w \<in> set ws. is_id (wt_word w) \<and> 0 \<le> wt_start w \<and> wt_start w < wt_end w)"

lemma ordered_part: "ordered_words (xs @ ys @ zs) \<Longrightarrow> ordered_words ys"
  by (auto simp: ordered_words_def sorted_append)

lemma sorted_ends:
  fixes f :: "'a \<Rightarrow> 'b :: linorder"
  shows "sorted (map f xs) \<Longrightarrow> x \<in> set xs \<Longrightarrow> f (hd xs) \<le> f x \<and> f x \<le> f (last xs)"
  by (induction xs) auto

lemma joined_text:
  assumes "ws \<noteq> []" and "ordered_words ws"
  shows "strip (join_with [32] (map wt_word ws)) = join_with [32] (map wt_word ws) \<and> join_with [32] (map wt_word ws) \<noteq> []"
proof -
  have "\<forall>x \<in> set (map wt_word ws). x \<noteq> [] \<and> \<not> is_white (hd x) \<and> \<not> is_white (last x)"
    using assms(2) strip_by_ends by (fastforce simp: ordered_words_def is_text_def)
  from join_with_ends [OF _ this, of "[32]"] assms(1) show ?thesis by (auto intro!: strip_by_keeps)
qed

lemma share_bounds:
  assumes "\<forall>x \<in> set grp. 0 \<le> sw_overlap x \<and> sw_overlap x \<le> word_duration (sw_word x)"
    and "0 < dbl_sum (map word_duration (map sw_word grp))"
  shows "0 \<le> dbl (dbl_sum (map sw_overlap grp) / dbl_sum (map word_duration (map sw_word grp)))
    \<and> dbl (dbl_sum (map sw_overlap grp) / dbl_sum (map word_duration (map sw_word grp))) \<le> 1"
proof -
  let ?o = "dbl_sum (map sw_overlap grp)"
  let ?d = "dbl_sum (map word_duration (map sw_word grp))"
  have "?o \<le> ?d"
    unfolding dbl_sum_def using assms(1)
    by (intro dbl.fold_add_mono) (auto simp: list_all2_map1 list_all2_map2 list_all2_same)
  moreover have "0 \<le> ?o" unfolding dbl_sum_def using assms(1) by (intro dbl.fold_add_nonneg) auto
  ultimately have "0 \<le> ?o / ?d" "?o / ?d \<le> 1" using assms(2) by (auto simp: divide_le_eq)
  then show ?thesis using dbl_nonneg dbl_mono [of _ 1] by auto
qed

text \<open>The text of one speaker's turn fits a segment.\<close>

definition turn_fits :: "speaker_word list \<Rightarrow> bool" where
  "turn_fits grp \<longleftrightarrow> length (join_with [32] (map wt_word (map sw_word grp))) \<le> 20000"

lemma speaker_segment_fits:
  assumes "grp \<noteq> []" and "ordered_words (map sw_word grp)" and "speaker_segment grp = Inr g"
  shows "turn_fits grp"
proof -
  have "strip (join_with [32] (map wt_word (map sw_word grp))) = join_with [32] (map wt_word (map sw_word grp))"
    using joined_text [OF _ assms(2)] assms(1) by simp
  then show ?thesis
    using assms(3)
    by (auto simp: speaker_segment_def Let_def validate_SpeakerAttributedSegment_def result_iffs field_iffs turn_fits_def
        is_text_def simp del: map_map)
qed

lemma speaker_segment_ok:
  assumes "grp \<noteq> []" and "ordered_words (map sw_word grp)" and "turn_fits grp"
    and "\<forall>x \<in> set grp. 0 \<le> sw_overlap x \<and> sw_overlap x \<le> word_duration (sw_word x)"
    and "\<forall>i. sw_speaker (hd grp) = Some i \<longrightarrow> is_id i"
  shows "\<exists>g. speaker_segment grp = Inr g"
proof -
  define ws where "ws = map sw_word grp"
  have ws: "ws \<noteq> []" "ordered_words ws" using assms(1,2) by (simp_all add: ws_def)
  have joined: "strip (join_with [32] (map wt_word ws)) = join_with [32] (map wt_word ws)" "join_with [32] (map wt_word ws) \<noteq> []"
    using joined_text [OF ws] by simp_all
  have hl: "hd ws \<in> set ws" "last ws \<in> set ws" using ws(1) by simp_all
  have bounds: "wt_start (hd ws) \<le> wt_start w" "wt_end w \<le> wt_end (last ws)" if "w \<in> set ws" for w
    using sorted_ends [of wt_start ws w] sorted_ends [of wt_end ws w] ws(2) that by (simp_all add: ordered_words_def)
  have spans: "0 \<le> wt_start (hd ws)" "wt_start (hd ws) < wt_end (last ws)"
    using ws(2) hl bounds(2) [OF hl(1)] by (auto simp: ordered_words_def)
  have "check_starts (wt_start (hd ws)) (wt_end (last ws)) (word_spans ws) (wt_start (hd ws)) = Inr ()"
    unfolding check_starts_iff using bounds ws(2)
    by (auto simp: word_spans_def ordered_words_def comp_def)
  moreover note share_bounds [OF assms(4)]
  ultimately show ?thesis
    using spans joined assms(3,5) unfolding speaker_segment_def Let_def ws_def [symmetric] turn_fits_def
    by (auto simp: validate_SpeakerAttributedSegment_def result_iffs field_iffs is_text_def ws_def
        simp del: map_map intro!: exI)
qed

lemma mapE_total: "(\<And>x. x \<in> set xs \<Longrightarrow> \<exists>y. f x = Inr y) \<Longrightarrow> \<exists>ys. mapE f xs = Inr ys"
  by (induction xs) fastforce+

text \<open>
  Property C30. Words in order of time are assigned exactly when every turn of one speaker, a maximal run of words with the
  same best speaker, has a text of at most 20000 characters: then the assignment returns, whatever the diarization
  found, and every speaker confidence is between 0 and 1, which the rounding of the sums to doubles does not break. How long
  the whole call is plays no part.
\<close>

theorem assign_ordered_words:
  assumes "concat (map al_words aligned) \<noteq> []" and "ordered_words (concat (map al_words aligned))"
    and "\<forall>t \<in> set turns. is_valid validate_DiarizationTurn t"
  shows "(is_ok (assign aligned turns)
        \<longleftrightarrow> (\<forall>r \<in> set (runs sw_speaker (map (attribute turns) (concat (map al_words aligned)))). turn_fits r))
    \<and> (\<forall>segs. assign aligned turns = Inr segs \<longrightarrow> segs \<noteq> []
        \<and> (\<forall>g \<in> set segs. \<forall>c. sa_confidence g = Some c \<longrightarrow> 0 \<le> c \<and> c \<le> 1))"
proof -
  define ws where "ws = concat (map al_words aligned)"
  define rs where "rs = runs sw_speaker (map (attribute turns) ws)"
  have run: "assign aligned turns = mapE speaker_segment rs"
    using assms(1) unfolding assign_runs Let_def rs_def ws_def by (simp only: simp_thms if_False)
  have ids: "\<forall>t \<in> set turns. is_id (dt_speaker_id t)" using assms(3) turn_id by blast
  have seg: "r \<noteq> [] \<and> ordered_words (map sw_word r) \<and> (turn_fits r \<longrightarrow> (\<exists>g. speaker_segment r = Inr g))" if r: "r \<in> set rs" for r
  proof -
    have ne: "r \<noteq> []" using r runs_nonempty by (auto simp: rs_def)
    obtain xs ys where "rs = xs @ r # ys" using r by (meson split_list)
    then have "concat rs = concat xs @ r @ concat ys" by simp
    then have split: "map (attribute turns) ws = concat xs @ r @ concat ys" unfolding rs_def by simp
    then have "map sw_word (map (attribute turns) ws) = map sw_word (concat xs) @ map sw_word r @ map sw_word (concat ys)"
      by simp
    then have words: "ws = map sw_word (concat xs) @ map sw_word r @ map sw_word (concat ys)" by (simp add: comp_def)
    have ord: "ordered_words (map sw_word r)" using assms(2) words ordered_part unfolding ws_def by metis
    have mem: "\<exists>w \<in> set ws. x = attribute turns w" if "x \<in> set r" for x
      using that split by (metis (no_types, lifting) Un_iff image_iff set_append set_map)
    have share: "\<forall>x \<in> set r. 0 \<le> sw_overlap x \<and> sw_overlap x \<le> word_duration (sw_word x)"
      using mem assms(2) best_overlap_le by (fastforce simp: ordered_words_def ws_def less_imp_le)
    obtain w where "hd r = attribute turns w" using mem [OF hd_in_set [OF ne]] by blast
    then have "\<forall>i. sw_speaker (hd r) = Some i \<longrightarrow> is_id i" using best_speaker_mem [of w turns] ids by auto
    with ne ord share show ?thesis using speaker_segment_ok by blast
  qed
  have "is_ok (assign aligned turns)" if "\<forall>r \<in> set rs. turn_fits r"
    using mapE_total [of rs speaker_segment] seg that by (auto simp: run is_ok_iff)
  moreover have "(\<forall>r \<in> set rs. turn_fits r) \<and> segs \<noteq> [] \<and> (\<forall>g \<in> set segs. \<forall>c. sa_confidence g = Some c \<longrightarrow> 0 \<le> c \<and> c \<le> 1)"
    if "assign aligned turns = Inr segs" for segs
  proof -
    have all: "list_all2 (\<lambda>r g. speaker_segment r = Inr g) rs segs" using that by (simp add: run mapE_Inr_iff)
    have "turn_fits r" if r: "r \<in> set rs" for r
      using list_all2_mem1 [OF all r] seg [OF r] speaker_segment_fits by blast
    moreover have "\<forall>c. sa_confidence g = Some c \<longrightarrow> 0 \<le> c \<and> c \<le> 1" if g: "g \<in> set segs" for g
    proof -
      obtain r where "r \<in> set rs" "speaker_segment r = Inr g" using list_all2_mem2 [OF all g] by blast
      then show ?thesis using speaker_segment_Inr [of r g] seg by auto
    qed
    moreover have "segs \<noteq> []" using all assms(1) by (auto simp: rs_def ws_def)
    ultimately show ?thesis by blast
  qed
  ultimately show ?thesis unfolding rs_def ws_def is_ok_iff by blast
qed

lemma spoken_ordered: "concat (map al_words spoken_aligned) \<noteq> [] \<and> ordered_words (concat (map al_words spoken_aligned))
   \<and> list_all turn_fits (runs sw_speaker (map (attribute two_turns) (concat (map al_words spoken_aligned))))"
  by code_simp

theorem assign_ordered_words_witness:
  "\<exists>segs. assign spoken_aligned two_turns = Inr segs \<and> segs \<noteq> []
    \<and> (\<forall>g \<in> set segs. \<forall>c. sa_confidence g = Some c \<longrightarrow> 0 \<le> c \<and> c \<le> 1)"
  using assign_ordered_words [of spoken_aligned two_turns] spoken_ordered two_turns_ok
  by (auto simp: list_all_iff is_ok_iff)

section \<open>The snapshot\<close>

lemma resolved_segment_Inr:
  "resolved_segment assignments s = Inr g \<Longrightarrow> ds_text s = strip (ds_text s) \<Longrightarrow>
     ts_id g = ds_id s \<and> ts_words g = ds_words s \<and> ts_text g = ds_text s \<and> ts_redacted_text g = ts_text g
     \<and> ts_start g = ds_start s \<and> ts_end g = ds_end s
     \<and> (\<exists>a. assignments (ds_speaker_id s) = Some a \<and> ts_speaker g = ra_role a)"
  by (auto simp: resolved_segment_def validate_TranscriptSegment_def result_iffs field_iffs split: option.splits)

lemma diarized_of_Inr:
  "diarized_of uuid5 sha (i, g) = Inr d \<Longrightarrow>
     ds_id d = uuid5 (segment_name sha i g) \<and> ds_words d = sa_words g \<and> ds_start d = sa_start g \<and> ds_end d = sa_end g
     \<and> ds_text d = strip (sa_text g) \<and> ds_speaker_id d = strip (speaker_or_unassigned g)"
  by (auto simp: diarized_of_def validate_DiarizedSegment_def result_iffs field_iffs)

lemma validated_snapshot_segments:
  "validate_TranscriptSnapshot t = Inr u \<Longrightarrow> sn_segments u = sn_segments t \<and> sn_roles u = sn_roles t"
  by (auto simp: validate_TranscriptSnapshot_def Let_def bindE_Inr_iff)

text \<open>What the successful construction of a snapshot went through.\<close>

lemma snapshot_of_Inr:
  assumes "snapshot_of ports st manifest mappings audio attributed provider = Inr snap"
  shows "\<exists>diarized. length diarized = length attributed \<and> diarized \<noteq> []
    \<and> (\<forall>i < length attributed. diarized_of (ep_uuid5 ports) (na_sha256 audio) (i, attributed ! i) = Inr (diarized ! i))
    \<and> resolve_roles diarized mappings (ep_resolver ports) (3 / 4) = Inr (sn_roles snap)
    \<and> list_all2 (\<lambda>d g. resolved_segment (dict_of (map (\<lambda>a. (ra_speaker_id a, a)) (rr_assignments (sn_roles snap)))) d = Inr g)
       diarized (sn_segments snap)
    \<and> validate_TranscriptSnapshot snap = Inr snap"
proof -
  obtain diarized resolution segments alignment asr where S:
    "mapE (diarized_of (ep_uuid5 ports) (na_sha256 audio)) (List.enumerate 0 attributed) = Inr diarized"
    "diarized \<noteq> []" "resolve_roles diarized mappings (ep_resolver ports) (3 / 4) = Inr resolution"
    "mapE (resolved_segment (dict_of (map (\<lambda>a. (ra_speaker_id a, a)) (rr_assignments resolution)))) diarized = Inr segments"
    "validate_TranscriptSnapshot
         \<lparr>sn_transcript_id = ep_uuid5 ports (lit ''mtbank-ai/transcript/'' @ na_sha256 audio @ lit ''/'' @ es_pipeline_revision st),
          sn_audio_sha256 = na_sha256 audio, sn_revision = es_pipeline_revision st, sn_language = es_language st,
          sn_duration = na_duration audio, sn_segments = segments, sn_roles = resolution, sn_asr = asr,
          sn_created_at = ep_clock ports\<rparr> = Inr snap"
    using assms unfolding snapshot_of_def bindE_Inr_iff requireE_Inr_iff by blast
  have all: "list_all2 (\<lambda>p d. diarized_of (ep_uuid5 ports) (na_sha256 audio) p = Inr d) (List.enumerate 0 attributed) diarized"
    using S(1) by (simp add: mapE_Inr_iff)
  have "length diarized = length attributed" using list_all2_lengthD [OF all] by simp
  moreover have "diarized_of (ep_uuid5 ports) (na_sha256 audio) (i, attributed ! i) = Inr (diarized ! i)"
    if "i < length attributed" for i
    using list_all2_nthD [OF all, of i] that by (simp add: nth_enumerate_eq)
  ultimately show ?thesis
    using S validated_snapshot_segments [OF S(5)] snapshot_model.normal [OF S(5)]
    by (intro exI [of _ diarized]) (simp add: mapE_Inr_iff)
qed

definition heard_word :: "recognized_word \<Rightarrow> word_timestamp" where
  "heard_word w = \<lparr>wt_word = strip (rw_text w), wt_start = rw_start w, wt_end = rw_end w, wt_confidence = rw_confidence w\<rparr>"

lemma align_words:
  assumes "align r language = Inr gs"
  shows "concat (map al_words gs) = map heard_word (concat (map rs_words (tr_segments r)))"
proof -
  have word: "aligned_word w = Inr v \<Longrightarrow> v = heard_word w" for w v
    by (auto simp: aligned_word_def validate_WordTimestamp_def heard_word_def result_iffs field_iffs)
  have words: "mapE aligned_word ws = Inr vs \<Longrightarrow> vs = map heard_word ws" for ws vs
    by (induction ws arbitrary: vs) (auto simp: result_iffs word)
  have "list_all2 (\<lambda>g a. al_words a = map heard_word (rs_words g)) (tr_segments r) gs"
    using assms unfolding align_def
    by (auto simp: mapE_Inr_iff result_iffs validate_AlignedSegment_def words split: if_splits elim!: list_all2_mono)
  then have "map al_words gs = map (map heard_word \<circ> rs_words) (tr_segments r)"
    by (auto simp: list_all2_conv_all_nth intro!: nth_equalityI)
  then show ?thesis by (simp add: concat_map_map flip: map_map)
qed

text \<open>
  Property C25. A successful batch transcription with the production aligner and speaker assigner loses no word: the words of the
  snapshot's segments, read in order, are exactly the recognised words of the transcription with
  their times and confidences. The snapshot is consistent, a segment carries the role that the
  resolution gave to its speaker and reads the same redacted as not, and its id is the hash of its name.
\<close>

theorem engine_transcribe_faithful:
  assumes "ep_align ports = align" and "ep_assign ports = assign"
    and "\<forall>audio ts. ep_diarize ports audio = Inr ts \<longrightarrow> (\<forall>t \<in> set ts. is_valid validate_DiarizationTurn t)"
    and "engine_transcribe ports st manifest mappings audio = Inr snap"
  shows "validate_TranscriptSnapshot snap = Inr snap
    \<and> (\<exists>r. ep_transcribe ports audio (es_language st) = Inr r \<and>
        concat (map ts_words (sn_segments snap)) = map heard_word (concat (map rs_words (tr_segments r))))
    \<and> (\<forall>g \<in> set (sn_segments snap). ts_redacted_text g = ts_text g \<and> ts_words g \<noteq> []
         \<and> ts_start g = wt_start (hd (ts_words g)) \<and> ts_end g = wt_end (last (ts_words g)))
    \<and> (\<forall>i < length (sn_segments snap). \<exists>g. ts_id (sn_segments snap ! i) = ep_uuid5 ports (segment_name (na_sha256 audio) i g)
         \<and> sa_words g = ts_words (sn_segments snap ! i))"
proof -
  obtain r aligned turns attributed where E:
    "ep_transcribe ports audio (es_language st) = Inr r" "align r (es_language st) = Inr aligned"
    "ep_diarize ports audio = Inr turns" "assign aligned turns = Inr attributed"
    "snapshot_of ports st manifest mappings audio attributed (tr_provider r) = Inr snap"
    using assms(4) unfolding engine_transcribe_def bindE_Inr_iff requireE_Inr_iff assms(1,2) by blast
  have turns: "\<forall>t \<in> set turns. is_valid validate_DiarizationTurn t" using assms(3) E(3) by blast
  obtain diarized where D: "length diarized = length attributed" "diarized \<noteq> []"
    "\<forall>i < length attributed. diarized_of (ep_uuid5 ports) (na_sha256 audio) (i, attributed ! i) = Inr (diarized ! i)"
    "resolve_roles diarized mappings (ep_resolver ports) (3 / 4) = Inr (sn_roles snap)"
    "list_all2 (\<lambda>d g. resolved_segment (dict_of (map (\<lambda>a. (ra_speaker_id a, a)) (rr_assignments (sn_roles snap)))) d = Inr g)
       diarized (sn_segments snap)"
    "validate_TranscriptSnapshot snap = Inr snap"
    using snapshot_of_Inr [OF E(5)] by blast
  note len = D(1) list_all2_lengthD [OF D(5)]
  have seg: "ts_id (sn_segments snap ! i) = ep_uuid5 ports (segment_name (na_sha256 audio) i (attributed ! i))
      \<and> ts_words (sn_segments snap ! i) = sa_words (attributed ! i) \<and> ts_redacted_text (sn_segments snap ! i) = ts_text (sn_segments snap ! i)
      \<and> ts_start (sn_segments snap ! i) = sa_start (attributed ! i) \<and> ts_end (sn_segments snap ! i) = sa_end (attributed ! i)"
    if i: "i < length attributed" for i
    using diarized_of_Inr [OF D(3) [rule_format, OF i]] resolved_segment_Inr [OF list_all2_nthD [OF D(5), of i]] i len by auto
  have "map ts_words (sn_segments snap) = map sa_words attributed"
    using len seg by (intro nth_equalityI) auto
  then have "concat (map ts_words (sn_segments snap)) = map heard_word (concat (map rs_words (tr_segments r)))"
    using assign_words [OF E(4)] align_words [OF E(2)] by simp
  moreover have "ts_redacted_text g = ts_text g \<and> ts_words g \<noteq> [] \<and> ts_start g = wt_start (hd (ts_words g)) \<and> ts_end g = wt_end (last (ts_words g))"
    if g: "g \<in> set (sn_segments snap)" for g
  proof -
    obtain i where "i < length (sn_segments snap)" "g = sn_segments snap ! i" using g
      by (auto simp: in_set_conv_nth)
    then have i: "i < length attributed" "g = sn_segments snap ! i" using len by simp_all
    then show ?thesis using seg [OF i(1)] assign_segment [OF E(4) nth_mem [OF i(1)]] by simp
  qed
  moreover have "\<exists>g. ts_id (sn_segments snap ! i) = ep_uuid5 ports (segment_name (na_sha256 audio) i g)
         \<and> sa_words g = ts_words (sn_segments snap ! i)" if "i < length (sn_segments snap)" for i
    using seg [of i] that len by (intro exI [of _ "attributed ! i"]) simp
  ultimately show ?thesis using D(6) E(1) by blast
qed

definition spoken_transcription :: transcription_result where
  "spoken_transcription = \<lparr>tr_language = lit ''ru'',
     tr_segments = [\<lparr>rs_start = 0, rs_end = 4, rs_text = lit ''hello there yes'',
       rs_words = map (\<lambda>w. \<lparr>rw_text = wt_word w, rw_start = wt_start w, rw_end = wt_end w, rw_confidence = None\<rparr>) spoken_words\<rparr>],
     tr_provider = None\<rparr>"

definition spoken_ports :: engine_ports where
  "spoken_ports = \<lparr>ep_transcribe = (\<lambda>_ _. Inr spoken_transcription), ep_align = align, ep_diarize = (\<lambda>_. Inr two_turns),
     ep_assign = assign, ep_resolver = None, ep_uuid5 = length, ep_processing_ms = 12, ep_clock = 0\<rparr>"

definition spoken_settings :: engine_settings where
  "spoken_settings = \<lparr>es_language = lit ''ru'', es_pipeline_revision = lit ''speech/v1''\<rparr>"

definition spoken_manifest :: component_manifest where
  "spoken_manifest = \<lparr>mf_asr = call_revision, mf_diarization = call_revision, mf_whisper_model_id = lit ''whisper''\<rparr>"

definition spoken_mappings :: "speaker_role_mapping list" where
  "spoken_mappings = [\<lparr>srm_speaker_id = lit ''S1'', srm_role = OPERATOR, srm_confidence = 1, srm_evidence = lit ''caller''\<rparr>,
     \<lparr>srm_speaker_id = lit ''S2'', srm_role = CLIENT, srm_confidence = 1, srm_evidence = lit ''caller''\<rparr>]"

definition spoken_audio :: normalized_audio where
  "spoken_audio = \<lparr>na_duration = 6, na_sha256 = replicate 64 48\<rparr>"

definition spoken_diarized :: "diarized_segment list" where
  "spoken_diarized =
     [\<lparr>ds_id = 117, ds_speaker_id = lit ''S1'', ds_confidence = Some 1, ds_start = 0, ds_end = 2, ds_text = lit ''hello there'',
       ds_words = take 2 spoken_words\<rparr>,
      \<lparr>ds_id = 109, ds_speaker_id = lit ''S2'', ds_confidence = Some 1, ds_start = 3, ds_end = 4, ds_text = lit ''yes'',
       ds_words = drop 2 spoken_words\<rparr>]"

definition spoken_roles :: role_resolution where
  "spoken_roles = \<lparr>rr_assignments = map (\<lambda>(s, r, i). \<lparr>ra_speaker_id = s, ra_role = r, ra_confidence = 1, ra_evidence = [i],
       ra_source = METADATA, ra_resolution_evidence = lit ''caller''\<rparr>) [(lit ''S1'', OPERATOR, 117), (lit ''S2'', CLIENT, 109)],
     rr_needs_review = False, rr_agent_provenance = None\<rparr>"

definition spoken_segments :: "transcript_segment list" where
  "spoken_segments =
     [\<lparr>ts_id = 117, ts_speaker_id = lit ''S1'', ts_speaker = OPERATOR, ts_role_confidence = 1, ts_speaker_confidence = Some 1,
       ts_start = 0, ts_end = 2, ts_text = lit ''hello there'', ts_redacted_text = lit ''hello there'', ts_words = take 2 spoken_words\<rparr>,
      \<lparr>ts_id = 109, ts_speaker_id = lit ''S2'', ts_speaker = CLIENT, ts_role_confidence = 1, ts_speaker_confidence = Some 1,
       ts_start = 3, ts_end = 4, ts_text = lit ''yes'', ts_redacted_text = lit ''yes'', ts_words = drop 2 spoken_words\<rparr>]"

definition spoken_asr :: asr_metadata where
  "spoken_asr = \<lparr>am_asr = call_revision,
     am_alignment = \<lparr>cr_package = lit ''faster-whisper'', cr_package_version = lit ''1.2.1'', cr_model_id = lit ''whisper'',
       cr_model_revision = lit ''native-word-timestamps-v1'', cr_artifact_sha256 = None\<rparr>,
     am_diarization = call_revision, am_language = lit ''ru'', am_processing_ms = 12, am_provider = None\<rparr>"

definition spoken_snapshot :: transcript_snapshot where
  "spoken_snapshot = \<lparr>sn_transcript_id = length (lit ''mtbank-ai/transcript/'' @ replicate 64 48 @ lit ''/'' @ lit ''speech/v1''),
     sn_audio_sha256 = replicate 64 48, sn_revision = lit ''speech/v1'', sn_language = lit ''ru'', sn_duration = 6,
     sn_segments = spoken_segments, sn_roles = spoken_roles, sn_asr = spoken_asr, sn_created_at = 0\<rparr>"

lemma spoken_aligned_ok: "align spoken_transcription (lit ''ru'') = Inr spoken_aligned"
  by code_simp

lemma spoken_diarized_ok: "mapE (diarized_of length (replicate 64 48)) (List.enumerate 0 spoken_attributed) = Inr spoken_diarized"
  by code_simp

lemma spoken_roles_ok: "resolve_roles spoken_diarized spoken_mappings None (3 / 4) = Inr spoken_roles"
  by code_simp

lemma spoken_segments_ok:
  "mapE (resolved_segment (dict_of (map (\<lambda>a. (ra_speaker_id a, a)) (rr_assignments spoken_roles)))) spoken_diarized = Inr spoken_segments"
  by code_simp

lemma spoken_asr_ok: "validate_ComponentRevision (am_alignment spoken_asr) = Inr (am_alignment spoken_asr)"
    "validate_ASRMetadata spoken_asr = Inr spoken_asr"
  by code_simp+

lemma spoken_valid: "validate_TranscriptSnapshot spoken_snapshot = Inr spoken_snapshot"
  by code_simp

lemma spoken_in_order: "map sa_start spoken_attributed = sort (map sa_start spoken_attributed)"
  by code_simp

lemma spoken_ports_simps:
  "ep_transcribe spoken_ports a l = Inr spoken_transcription" "ep_align spoken_ports = align"
  "ep_diarize spoken_ports a = Inr two_turns" "ep_assign spoken_ports = assign" "es_language spoken_settings = lit ''ru''"
  by (simp_all add: spoken_ports_def spoken_settings_def)

lemma spoken_snapshot_ok:
  "engine_transcribe spoken_ports spoken_settings spoken_manifest spoken_mappings spoken_audio = Inr spoken_snapshot"
proof -
  have "snapshot_of spoken_ports spoken_settings spoken_manifest spoken_mappings spoken_audio spoken_attributed None
      = Inr spoken_snapshot"
    using spoken_asr_ok spoken_valid
    unfolding snapshot_of_def spoken_ports_def spoken_settings_def spoken_manifest_def spoken_audio_def
      engine_ports.simps engine_settings.simps component_manifest.simps normalized_audio.simps
      spoken_diarized_ok spoken_roles_ok spoken_segments_ok bindE.simps
    by (simp add: spoken_asr_def spoken_snapshot_def call_revision_def requireE_def)
       (simp add: spoken_diarized_def)
  moreover have "tr_segments spoken_transcription \<noteq> []" "spoken_aligned \<noteq> []" "spoken_attributed \<noteq> []"
      "tr_provider spoken_transcription = None"
    by (simp_all add: spoken_transcription_def spoken_aligned_def spoken_attributed_def)
  ultimately show ?thesis
    unfolding engine_transcribe_def
    by (simp only: spoken_ports_simps spoken_aligned_ok spoken_attributed_ok spoken_in_order [symmetric] requireE_def bindE.simps
        simp_thms if_True)
qed

lemma spoken_ports_ok: "ep_align spoken_ports = align" "ep_assign spoken_ports = assign"
  "\<forall>audio ts. ep_diarize spoken_ports audio = Inr ts \<longrightarrow> (\<forall>t \<in> set ts. is_valid validate_DiarizationTurn t)"
  using two_turns_ok by (auto simp: spoken_ports_def)

theorem engine_transcribe_faithful_witness:
  "validate_TranscriptSnapshot spoken_snapshot = Inr spoken_snapshot"
  using engine_transcribe_faithful [OF spoken_ports_ok spoken_snapshot_ok] by blast

section \<open>Recognised words do not overlap\<close>

lemma widen_words_ordered:
  "widen_words parse ws p = Inr vs \<Longrightarrow>
     sorted_wrt (\<lambda>a b. rw_end a \<le> rw_start b) vs \<and> (\<forall>v \<in> set vs. p \<le> rw_start v \<and> rw_start v < rw_end v)
     \<and> length vs = length ws"
proof (induction ws arbitrary: p vs)
  case (Cons w ws)
  have word: "validate_RecognizedWord x = Inr v \<Longrightarrow> rw_start x = rw_start v \<and> rw_end x = rw_end v \<and> rw_start v < rw_end v" for x v
    by (auto simp: validate_RecognizedWord_def result_iffs field_iffs)
  obtain v vs' where v: "p \<le> rw_start v" "rw_start v < rw_end v" "widen_words parse ws (rw_end v) = Inr vs'" "vs = v # vs'"
    using Cons.prems by (fastforce simp: result_iffs Let_def dest: word)
  then show ?case using Cons.IH [OF v(3)] by fastforce
qed simp

lemma widen_words_Inl: "widen_words parse ws p = Inl e \<Longrightarrow> is_value_error e \<or> e = OtherError"
proof (induction ws arbitrary: p)
  case (Cons w ws)
  have ff: "finite_float parse j = Inl e \<Longrightarrow> is_value_error e \<or> e = OtherError" for j
    by (auto simp: finite_float_def split: json.splits if_splits option.splits)
  have oc: "optional_confidence parse j = Inl e \<Longrightarrow> is_value_error e \<or> e = OtherError" for j
    by (auto simp: optional_confidence_def result_iffs split: option.splits json.splits dest: ff)
  have wv: "validate_RecognizedWord x = Inl e \<Longrightarrow> e = ValidationError" for x
    by (auto simp: validate_RecognizedWord_def non_empty_id_def constrained_str_Inl_iff non_negative_def positive_def
        confidence_def result_iffs split: if_splits option.splits elim: optional.elims)
  show ?case using Cons by (auto simp: result_iffs Let_def dest: ff oc wv)
qed simp

text \<open>
  Property C31. A segment of the local recogniser has words, in the number that were recognised, none of which begins before
  the one before it has ended or ends where it begins, whatever times the recogniser gave them, and all of them lie within the segment.
\<close>

theorem faster_whisper_words_disjoint:
  assumes "faster_whisper_segment parse g = Inr s"
  shows "rs_words s \<noteq> [] \<and> length (rs_words s) = length (the (xs_words g))
    \<and> sorted_wrt (\<lambda>a b. rw_end a \<le> rw_start b) (rs_words s)
    \<and> (\<forall>w \<in> set (rs_words s). rs_start s \<le> rw_start w \<and> rw_start w < rw_end w \<and> rw_end w \<le> rs_end s)"
proof -
  obtain ws where w: "widen_words parse (the (xs_words g)) 0 = Inr ws" "ws \<noteq> []" "rs_words s = ws"
      "check_starts (rs_start s) (rs_end s) (recognized_spans (rs_words s)) (rs_start s) = Inr ()"
    using assms
    by (auto simp: faster_whisper_segment_def provider_error_def result_iffs Let_def validate_RecognizedSegment_def field_iffs
        split: sum.splits if_splits)
  then show ?thesis using widen_words_ordered [OF w(1)] unfolding check_starts_iff
    by (auto simp: recognized_spans_def)
qed

definition overlapping_segment :: raw_segment where
  "overlapping_segment = \<lparr>xs_start = JFloat 1, xs_end = JFloat 3, xs_text = lit '' hello there '',
     xs_words = Some [\<lparr>xw_word = lit '' hello'', xw_start = JFloat (1 / 2), xw_end = JFloat 2, xw_probability = Some (JFloat 1)\<rparr>,
                      \<lparr>xw_word = lit '' there'', xw_start = JFloat 1, xw_end = JFloat 4, xw_probability = None\<rparr>]\<rparr>"

lemma overlapping_ends: "dbl_add (1 / 2) (dbl (1 / 1000)) \<le> 2" "dbl_add 2 (dbl (1 / 1000)) \<le> 4"
proof -
  have "dbl (1 / 1000) \<le> dbl 1" by (rule dbl_mono) simp
  then have "dbl (1 / 1000) \<le> 1" by simp
  then have "dbl_add (1 / 2) (dbl (1 / 1000)) \<le> dbl (of_int 2)" "dbl_add 2 (dbl (1 / 1000)) \<le> dbl (of_int 4)"
    unfolding dbl_add_def by (intro dbl_mono; simp)+
  then show "dbl_add (1 / 2) (dbl (1 / 1000)) \<le> 2" "dbl_add 2 (dbl (1 / 1000)) \<le> 4"
    using dbl_exact [of 2 0] dbl_exact [of 4 0] by simp_all
qed

lemma overlapping_words: "\<forall>w \<in> {lit ''hello'', lit ''there''}. non_empty_id (py_strip (32 # w)) = Inr w"
  by code_simp

lemma overlapping_text: "py_strip (lit '' hello there '') = lit ''hello there''" "long_text (lit ''hello there'') = Inr (lit ''hello there'')"
  by code_simp+

lemma overlapping_ok: "is_ok (faster_whisper_segment (\<lambda>_. None) overlapping_segment)"
  using overlapping_ends overlapping_words overlapping_text
  by (simp add: faster_whisper_segment_def overlapping_segment_def provider_error_def finite_float_def optional_confidence_def
      Let_def validate_RecognizedWord_def validate_RecognizedSegment_def requireE_def non_negative_def positive_def confidence_def
      recognized_spans_def max_def min_def lit_def)

theorem faster_whisper_words_disjoint_witness:
  "\<exists>s. faster_whisper_segment (\<lambda>_. None) overlapping_segment = Inr s \<and> length (rs_words s) = 2
     \<and> sorted_wrt (\<lambda>a b. rw_end a \<le> rw_start b) (rs_words s)"
proof -
  obtain s where s: "faster_whisper_segment (\<lambda>_. None) overlapping_segment = Inr s"
    using overlapping_ok by (auto simp: is_ok_iff)
  then show ?thesis using faster_whisper_words_disjoint [OF s] by (auto simp: overlapping_segment_def)
qed

text \<open>
  An integer timestamp beyond the doubles leaves the rolling transcriber as the \<^verbatim>\<open>OverflowError\<close> that
  \<^verbatim>\<open>float\<close> raises: it is neither a \<^verbatim>\<open>ValueError\<close> nor one of the other classes the transcriber turns into a
  \<^verbatim>\<open>SpeechProviderError\<close>.
\<close>

definition huge_reply :: json where
  "huge_reply = JObj [(lit ''segments'', JList []),
     (lit ''words'', JList [JObj [(lit ''word'', JStr (lit ''x'')), (lit ''start'', JInt (2 ^ 1024)), (lit ''end'', JInt 1)]])]"

lemma identity_header: "map ascii_lower (py_strip (lit ''identity'')) = lit ''identity''"
  by code_simp

lemma groq_overflow_escapes:
  "groq_transcribe (\<lambda>_. None) (\<lambda>_. []) (\<lambda>_. Inr huge_reply)
     \<lparr>gq_language = lit ''ru'', gq_model = lit ''m'', gq_fingerprint = [], gq_max_response_bytes = 100\<rparr>
     (\<lambda>_. Inr \<lparr>hr_status = 200, hr_encoding = None, hr_length = None, hr_request_id = None, hr_chunks = []\<rparr>)
     () (lit ''ru'') = Inl OtherError"
  by (simp add: groq_transcribe_def read_bounded_response_def is_identity_def requireE_def groq_result_def huge_reply_def
      dict_of_def recognized_word_of_def required_item_def finite_float_def float_limit_def provider_error_def Let_def
      identity_header)

end
