(* ===== verification/Ogg.thy ===== *)
theory Ogg
  imports Errors "HOL-Library.Word" "HOL-Library.Sublist"
begin

unbundle bit_operations_syntax

text \<open>
  The validator of one contiguous Ogg logical stream (\<^verbatim>\<open>services/speech/streaming.py\<close>), which sees
  the upload in frames of any size before the decoder does. The specification is a list of pages;
  the validator accepts a sequence of frames exactly when the frames spell such a list.
\<close>

type_synonym byte = "8 word"
type_synonym bytes = "byte list"

section \<open>The validator\<close>

definition ogg_fixed_header :: nat where
  "ogg_fixed_header = 27"

definition ogg_max_page :: nat where
  "ogg_max_page = 27 + 255 + 255 * 255"

definition capture_pattern :: bytes where
  "capture_pattern = [0x4F, 0x67, 0x67, 0x53]"

definition opus_head :: bytes where
  "opus_head = [0x4F, 0x70, 0x75, 0x73, 0x48, 0x65, 0x61, 0x64]"

text \<open>\<^verbatim>\<open>int.from_bytes(.., "little")\<close> of four bytes.\<close>

definition le32 :: "bytes \<Rightarrow> 32 word" where
  "le32 bs = word_rcat (rev bs)"

fun starts_with :: "'a list \<Rightarrow> 'a list \<Rightarrow> bool" where
  "starts_with [] s = True"
| "starts_with (x # xs) [] = False"
| "starts_with (x # xs) (y # ys) = (x = y \<and> starts_with xs ys)"

record ogg =
  og_pending :: bytes
  og_max_pending :: nat
  og_serial :: "32 word option"
  og_expected :: "32 word option"
  og_pages :: nat
  og_eos :: bool

definition new_ogg :: "nat \<Rightarrow> ogg" where
  "new_ogg max_frame = \<lparr>og_pending = [], og_max_pending = max_frame + max max_frame ogg_max_page,
     og_serial = None, og_expected = None, og_pages = 0, og_eos = False\<rparr>"

definition rejected :: exn where
  "rejected = StreamingAdapterUnavailable"

text \<open>\<^verbatim>\<open>_validate_page\<close>; the page sequence number is kept at its width, so its successor wraps.\<close>

definition validate_page :: "32 word \<Rightarrow> 32 word \<Rightarrow> byte \<Rightarrow> bytes \<Rightarrow> ogg \<Rightarrow> exn + ogg" where
  "validate_page serial page_sequence header_type body st =
     bindE
       (if og_pages st = 0 then
          if header_type AND 2 = 0 \<or> header_type AND 1 \<noteq> 0 \<or> page_sequence \<noteq> 0
              \<or> \<not> starts_with opus_head body
            then Inl rejected else Inr (st\<lparr>og_serial := Some serial\<rparr>)
        else if header_type AND 2 \<noteq> 0 \<or> Some serial \<noteq> og_serial st \<or> Some page_sequence \<noteq> og_expected st
          then Inl rejected
        else Inr st) (\<lambda>st1.
       Inr (st1\<lparr>og_pages := og_pages st1 + 1, og_expected := Some (page_sequence + 1),
               og_eos := (og_eos st1 \<or> header_type AND 4 \<noteq> 0)\<rparr>))"

text \<open>What the head of the pending bytes is: incomplete, malformed, or a page with its header.\<close>

datatype scan = Incomplete | Malformed | PageAt nat nat

definition scan_page :: "bytes \<Rightarrow> scan" where
  "scan_page p =
     (if length p < ogg_fixed_header then Incomplete
      else if \<not> starts_with capture_pattern p then Malformed
      else
        let header_bytes = ogg_fixed_header + unat (p ! 26) in
        if p ! 4 \<noteq> 0 \<or> p ! 5 AND NOT 7 \<noteq> 0 then Malformed
        else if length p < header_bytes then Incomplete
        else
          let page_bytes = header_bytes + sum_list (map unat (drop ogg_fixed_header (take header_bytes p))) in
          if ogg_max_page < page_bytes then Malformed
          else if length p < page_bytes then Incomplete
          else PageAt header_bytes page_bytes)"

lemma scan_page_positive: "scan_page p = PageAt h n \<Longrightarrow> 0 < n \<and> n \<le> length p"
  by (auto simp: scan_page_def ogg_fixed_header_def Let_def split: if_splits)

text \<open>The loop of \<^verbatim>\<open>feed\<close>; the state is returned with a raise, too.\<close>

function feed_loop :: "ogg \<Rightarrow> bytes \<Rightarrow> (exn + bytes) \<times> ogg" where
  "feed_loop st validated =
     (case scan_page (og_pending st) of
        Incomplete \<Rightarrow> (Inr validated, st)
      | Malformed \<Rightarrow> (Inl rejected, st)
      | PageAt header_bytes page_bytes \<Rightarrow>
          let page = take page_bytes (og_pending st) in
          (case validate_page (le32 (take 4 (drop 14 page))) (le32 (take 4 (drop 18 page))) (page ! 5)
                  (drop header_bytes page) st of
             Inl e \<Rightarrow> (Inl e, st)
           | Inr st1 \<Rightarrow>
               let st2 = st1\<lparr>og_pending := drop page_bytes (og_pending st)\<rparr> in
               if og_eos st2 then
                 if og_pending st2 \<noteq> [] then (Inl rejected, st2) else (Inr (validated @ page), st2)
               else feed_loop st2 (validated @ page)))"
  by pat_completeness auto
termination
  by (relation "measure (\<lambda>(st, v). length (og_pending st))") (auto dest: scan_page_positive)

declare feed_loop.simps [simp del]

definition feed :: "bytes \<Rightarrow> ogg \<Rightarrow> (exn + bytes) \<times> ogg" where
  "feed payload st =
     (if og_eos st \<or> og_max_pending st < length (og_pending st) + length payload then (Inl rejected, st)
      else feed_loop (st\<lparr>og_pending := og_pending st @ payload\<rparr>) [])"

definition finish_ogg :: "ogg \<Rightarrow> exn + unit" where
  "finish_ogg st = requireE rejected (\<not> (og_pending st \<noteq> [] \<or> og_pages st = 0 \<or> \<not> og_eos st))"

text \<open>The frames of a session, then its end.\<close>

fun feed_all :: "bytes list \<Rightarrow> ogg \<Rightarrow> (exn + bytes list) \<times> ogg" where
  "feed_all [] st = (Inr [], st)"
| "feed_all (c # cs) st =
     (case feed c st of
        (Inl e, st') \<Rightarrow> (Inl e, st')
      | (Inr out, st') \<Rightarrow>
          (case feed_all cs st' of (Inl e, st'') \<Rightarrow> (Inl e, st'') | (Inr outs, st'') \<Rightarrow> (Inr (out # outs), st'')))"

definition validate_stream :: "nat \<Rightarrow> bytes list \<Rightarrow> exn + bytes" where
  "validate_stream max_frame frames =
     (case feed_all frames (new_ogg max_frame) of
        (Inl e, st) \<Rightarrow> Inl e
      | (Inr outs, st) \<Rightarrow> bindE (finish_ogg st) (\<lambda>_. Inr (concat outs)))"

section \<open>The specification: pages of a logical stream\<close>

record page =
  pg_flags :: byte
  pg_granule :: bytes
  pg_serial :: bytes
  pg_sequence :: bytes
  pg_checksum :: bytes
  pg_segments :: bytes
  pg_body :: bytes

definition wf_page :: "page \<Rightarrow> bool" where
  "wf_page p \<longleftrightarrow> pg_flags p AND NOT 7 = 0 \<and> length (pg_granule p) = 8 \<and> length (pg_serial p) = 4
     \<and> length (pg_sequence p) = 4 \<and> length (pg_checksum p) = 4 \<and> length (pg_segments p) \<le> 255
     \<and> length (pg_body p) = sum_list (map unat (pg_segments p))"

definition encode_page :: "page \<Rightarrow> bytes" where
  "encode_page p = capture_pattern @ [0, pg_flags p] @ pg_granule p @ pg_serial p @ pg_sequence p @ pg_checksum p
     @ [word_of_nat (length (pg_segments p))] @ pg_segments p @ pg_body p"

definition encode_pages :: "page list \<Rightarrow> bytes" where
  "encode_pages ps = concat (map encode_page ps)"

text \<open>
  The pages before the end of a logical stream: the first begins it with an Opus header, the
  others continue it with the same serial number and successive page numbers modulo \<open>2\<^sup>3\<^sup>2\<close>, and no
  page but the last is marked as its end.
\<close>

definition page_follows :: "page list \<Rightarrow> page \<Rightarrow> bool" where
  "page_follows ps p \<longleftrightarrow>
     (if ps = [] then pg_flags p AND 2 \<noteq> 0 \<and> pg_flags p AND 1 = 0 \<and> le32 (pg_sequence p) = 0
        \<and> starts_with opus_head (pg_body p)
      else pg_flags p AND 2 = 0 \<and> le32 (pg_serial p) = le32 (pg_serial (hd ps))
        \<and> le32 (pg_sequence p) = le32 (pg_sequence (last ps)) + 1
        \<and> pg_flags (last ps) AND 4 = 0)"

definition stream_prefix :: "page list \<Rightarrow> bool" where
  "stream_prefix ps \<longleftrightarrow> (\<forall>k < length ps. wf_page (ps ! k) \<and> page_follows (take k ps) (ps ! k))"

definition logical_stream :: "page list \<Rightarrow> bool" where
  "logical_stream ps \<longleftrightarrow> ps \<noteq> [] \<and> stream_prefix ps \<and> pg_flags (last ps) AND 4 \<noteq> 0"

section \<open>Scanning a page\<close>

lemma length_4: "length xs = 4 \<longleftrightarrow> (\<exists>a b c d. xs = [a, b, c, d])"
  by (auto simp: numeral_eq_Suc length_Suc_conv)

lemma length_8: "length xs = 8 \<longleftrightarrow> (\<exists>a b c d e f g h. xs = [a, b, c, d, e, f, g, h])"
  by (auto simp: numeral_eq_Suc length_Suc_conv)

definition page_head :: "page \<Rightarrow> bytes" where
  "page_head p = capture_pattern @ [0, pg_flags p] @ pg_granule p @ pg_serial p @ pg_sequence p @ pg_checksum p
     @ [word_of_nat (length (pg_segments p))]"

lemma encode_page_head: "encode_page p = page_head p @ pg_segments p @ pg_body p"
  by (simp add: encode_page_def page_head_def)

lemma head_fields:
  assumes "wf_page p"
  shows "length (page_head p) = 27"
    and "starts_with capture_pattern (page_head p @ r)"
    and "(page_head p @ r) ! 4 = 0" and "(page_head p @ r) ! 5 = pg_flags p"
    and "unat ((page_head p @ r) ! 26) = length (pg_segments p)"
    and "take 4 (drop 14 (page_head p @ r)) = pg_serial p" and "take 4 (drop 18 (page_head p @ r)) = pg_sequence p"
proof -
  obtain g0 g1 g2 g3 g4 g5 g6 g7 s0 s1 s2 s3 n0 n1 n2 n3 c0 c1 c2 c3
    where f: "pg_granule p = [g0, g1, g2, g3, g4, g5, g6, g7]" "pg_serial p = [s0, s1, s2, s3]"
      "pg_sequence p = [n0, n1, n2, n3]" "pg_checksum p = [c0, c1, c2, c3]" "length (pg_segments p) \<le> 255"
    using assms unfolding wf_page_def length_4 length_8 by blast
  have "unat (word_of_nat (length (pg_segments p)) :: 8 word) = length (pg_segments p)"
    using f(5) by (simp add: unat_of_nat)
  then show "unat ((page_head p @ r) ! 26) = length (pg_segments p)"
    by (simp add: page_head_def f(1-4) capture_pattern_def)
qed (use assms in \<open>auto simp: page_head_def wf_page_def length_4 length_8 capture_pattern_def\<close>)

lemma byte_bound: "unat (x :: byte) \<le> 255"
proof -
  have "unat x < 2 ^ LENGTH(8)" by (rule unsigned_less)
  then show ?thesis by simp
qed

lemma append_split: "xs @ ys = zs @ us \<Longrightarrow> length xs \<le> length zs \<Longrightarrow> \<exists>ws. zs = xs @ ws \<and> ys = ws @ us"
  by (metis append_eq_append_conv_if append_take_drop_id)

lemma scan_encode:
  assumes "wf_page p"
  shows "scan_page (encode_page p @ r) = PageAt (27 + length (pg_segments p)) (length (encode_page p))"
proof -
  note H = head_fields [OF assms]
  have body: "length (pg_body p) = sum_list (map unat (pg_segments p))" and segs: "length (pg_segments p) \<le> 255"
    and flags: "pg_flags p AND NOT 7 = 0"
    using assms by (simp_all add: wf_page_def)
  have "sum_list (map unat (pg_segments p)) \<le> sum_list (map (\<lambda>_. 255) (pg_segments p))"
    by (rule sum_list_mono) (simp add: byte_bound)
  then have "length (encode_page p) \<le> ogg_max_page"
    using segs by (simp add: encode_page_head H(1) body ogg_max_page_def sum_list_triv)
  moreover have e: "encode_page p @ r = page_head p @ (pg_segments p @ pg_body p @ r)" by (simp add: encode_page_head)
  moreover have "drop 27 (take (27 + length (pg_segments p)) (page_head p @ (pg_segments p @ pg_body p @ r))) = pg_segments p"
    using H(1) by simp
  ultimately show ?thesis
    unfolding scan_page_def e H(3-5) ogg_fixed_header_def Let_def
    using H(1,2) flags body by (simp add: encode_page_head)
qed

lemma scan_short:
  assumes "wf_page p" and "encode_page p = q @ z" and "z \<noteq> []"
  shows "scan_page q = Incomplete"
proof (cases "length q < 27")
  case True
  then show ?thesis by (simp add: scan_page_def ogg_fixed_header_def)
next
  case False
  note H = head_fields [OF assms(1)]
  from assms(2) have "page_head p @ (pg_segments p @ pg_body p) = q @ z" by (simp add: encode_page_head)
  with False H(1) obtain r where q: "q = page_head p @ r" and rz: "pg_segments p @ pg_body p = r @ z"
    using append_split [of "page_head p" _ q z] by auto
  have flags: "pg_flags p AND NOT 7 = 0" and body: "length (pg_body p) = sum_list (map unat (pg_segments p))"
    using assms(1) by (simp_all add: wf_page_def)
  show ?thesis
  proof (cases "length r < length (pg_segments p)")
    case True
    then show ?thesis
      unfolding q scan_page_def ogg_fixed_header_def Let_def H(3-5) using H(1,2) flags by simp
  next
    case F: False
    with rz obtain b where r: "r = pg_segments p @ b" and b: "pg_body p = b @ z"
      using append_split [of "pg_segments p" _ r z] by auto
    have "drop 27 (take (27 + length (pg_segments p)) (page_head p @ r)) = pg_segments p"
      using H(1) by (simp add: r)
    moreover have "length b < sum_list (map unat (pg_segments p))" using body b assms(3) by (cases z) auto
    moreover have "27 + length (pg_segments p) + sum_list (map unat (pg_segments p)) \<le> ogg_max_page"
      using scan_encode [OF assms(1), of "[]"] unfolding scan_page_def
      by (auto simp: Let_def ogg_fixed_header_def encode_page_head H(1) body split: if_splits)
    ultimately show ?thesis
      unfolding q scan_page_def ogg_fixed_header_def Let_def H(3-5) using H(1,2) flags by (simp add: r)
  qed
qed
definition decode_page :: "nat \<Rightarrow> bytes \<Rightarrow> page" where
  "decode_page n p = \<lparr>pg_flags = p ! 5, pg_granule = take 8 (drop 6 p), pg_serial = take 4 (drop 14 p),
     pg_sequence = take 4 (drop 18 p), pg_checksum = take 4 (drop 22 p),
     pg_segments = take (unat (p ! 26)) (drop 27 p),
     pg_body = take (n - 27 - unat (p ! 26)) (drop (27 + unat (p ! 26)) p)\<rparr>"

lemma starts_with_take: "starts_with xs p \<Longrightarrow> take (length xs) p = xs"
  by (induction xs p rule: starts_with.induct) auto

lemma take_field: "m \<le> n \<Longrightarrow> take n p = take m p @ take (n - m) (drop m p)"
  by (metis le_add_diff_inverse take_add)

lemma take_byte: "m < length p \<Longrightarrow> take (Suc 0) (drop m p) = [p ! m]"
  by (simp add: Cons_nth_drop_Suc [symmetric])

lemma take_header:
  assumes "27 \<le> length p"
  shows "take 27 p = take 4 p @ [p ! 4, p ! 5] @ take 8 (drop 6 p) @ take 4 (drop 14 p) @ take 4 (drop 18 p)
    @ take 4 (drop 22 p) @ [p ! 26]"
proof -
  have "take 27 p = take 26 p @ [p ! 26]" using take_field [of 26 27 p] take_byte [of 26 p] assms by simp
  moreover have "take 26 p = take 22 p @ take 4 (drop 22 p)" using take_field [of 22 26 p] by simp
  moreover have "take 22 p = take 18 p @ take 4 (drop 18 p)" using take_field [of 18 22 p] by simp
  moreover have "take 18 p = take 14 p @ take 4 (drop 14 p)" using take_field [of 14 18 p] by simp
  moreover have "take 14 p = take 6 p @ take 8 (drop 6 p)" using take_field [of 6 14 p] by simp
  moreover have "take 6 p = take 5 p @ [p ! 5]" using take_field [of 5 6 p] take_byte [of 5 p] assms by simp
  moreover have "take 5 p = take 4 p @ [p ! 4]" using take_field [of 4 5 p] take_byte [of 4 p] assms by simp
  ultimately show ?thesis by simp
qed

lemma page_head_decode:
  assumes "27 \<le> length p" and "starts_with capture_pattern p" and "p ! 4 = 0" and "27 + unat (p ! 26) \<le> length p"
  shows "page_head (decode_page n p) = take 27 p"
proof -
  have "min (length p - 27) (unat (p ! 26)) = unat (p ! 26)" using assms(4) by simp
  moreover have "length capture_pattern = 4" by (simp add: capture_pattern_def)
  with starts_with_take [OF assms(2)] have "take 4 p = capture_pattern" by simp
  ultimately show ?thesis unfolding take_header [OF assms(1)]
    by (simp add: page_head_def decode_page_def assms(3))
qed

lemma scan_decode:
  assumes "scan_page p = PageAt h n"
  shows "wf_page (decode_page n p) \<and> encode_page (decode_page n p) = take n p
    \<and> h = 27 + length (pg_segments (decode_page n p))"
proof -
  have S: "27 \<le> length p" "starts_with capture_pattern p" "p ! 4 = 0" "p ! 5 AND NOT 7 = 0"
    "27 + unat (p ! 26) \<le> length p" "h = 27 + unat (p ! 26)"
    "n = h + sum_list (map unat (drop 27 (take h p)))" "n \<le> length p"
    using assms by (auto simp: scan_page_def ogg_fixed_header_def Let_def split: if_splits)
  define k where "k = unat (p ! 26)"
  have k: "k \<le> 255" using byte_bound by (simp add: k_def)
  have h: "h = 27 + k" using S(6) by (simp add: k_def)
  have segs: "drop 27 (take h p) = take k (drop 27 p)" by (simp add: h drop_take)
  have n: "n = 27 + k + sum_list (map unat (take k (drop 27 p)))" using S(7) unfolding segs by (simp add: h)
  have wf: "wf_page (decode_page n p)"
    using S(1,4,5,8) k n by (simp add: wf_page_def decode_page_def k_def [symmetric])
  have head: "page_head (decode_page n p) = take 27 p"
    by (rule page_head_decode [OF S(1-3,5)])
  have "encode_page (decode_page n p) = take 27 p @ take k (drop 27 p) @ take (n - 27 - k) (drop (27 + k) p)"
    unfolding encode_page_head head by (simp add: decode_page_def k_def)
  also have "\<dots> = take n p"
    using take_field [of "27 + k" n p] take_field [of 27 "27 + k" p] n by simp
  finally show ?thesis using wf S(5,6) by (simp add: decode_page_def k_def)
qed

lemma scan_incomplete_length: "scan_page p = Incomplete \<Longrightarrow> length p \<le> ogg_max_page"
  using byte_bound [of "p ! 26"]
  by (auto simp: scan_page_def ogg_fixed_header_def ogg_max_page_def Let_def split: if_splits)

lemma scan_nil [simp]: "scan_page [] = Incomplete"
  by (simp add: scan_page_def ogg_fixed_header_def)

section \<open>The state after the pages read so far\<close>

definition rep :: "page list \<Rightarrow> ogg \<Rightarrow> bool" where
  "rep ps st \<longleftrightarrow> stream_prefix ps \<and> og_pages st = length ps
     \<and> (if ps = [] then \<not> og_eos st
        else og_serial st = Some (le32 (pg_serial (hd ps)))
          \<and> og_expected st = Some (le32 (pg_sequence (last ps)) + 1)
          \<and> og_eos st = (pg_flags (last ps) AND 4 \<noteq> 0))"

lemma stream_prefix_Nil [simp]: "stream_prefix []"
  by (simp add: stream_prefix_def)

lemma stream_prefix_snoc: "stream_prefix (ps @ [p]) \<longleftrightarrow> stream_prefix ps \<and> wf_page p \<and> page_follows ps p"
  by (auto simp: stream_prefix_def nth_append less_Suc_eq)

lemma stream_prefix_append: "stream_prefix (ps @ qs) \<Longrightarrow> stream_prefix ps"
  by (induction qs rule: rev_induct) (auto simp: append_assoc [symmetric] stream_prefix_snoc simp del: append_assoc)

lemma stream_prefix_next: "stream_prefix (ps @ q # qs) \<Longrightarrow> wf_page q \<and> page_follows ps q"
  using stream_prefix_append [of "ps @ [q]" qs] by (simp add: stream_prefix_snoc)

lemma rep_step:
  assumes "rep ps st" and "\<not> og_eos st" and "wf_page p"
  shows "validate_page (le32 (pg_serial p)) (le32 (pg_sequence p)) (pg_flags p) (pg_body p) st =
      (if page_follows ps p then
         Inr (st\<lparr>og_serial := Some (le32 (pg_serial (hd (ps @ [p])))), og_pages := og_pages st + 1,
           og_expected := Some (le32 (pg_sequence p) + 1), og_eos := (pg_flags p AND 4 \<noteq> 0)\<rparr>)
       else Inl rejected)"
  using assms
  by (cases st) (auto simp: rep_def validate_page_def page_follows_def split: if_splits)

lemma rep_snoc:
  assumes "rep ps st" and "\<not> og_eos st" and "wf_page p" and "page_follows ps p"
  shows "rep (ps @ [p]) (st\<lparr>og_serial := Some (le32 (pg_serial (hd (ps @ [p])))), og_pages := og_pages st + 1,
           og_expected := Some (le32 (pg_sequence p) + 1), og_eos := (pg_flags p AND 4 \<noteq> 0), og_pending := z\<rparr>)"
  using assms by (simp add: rep_def stream_prefix_snoc)

lemma encode_pages_simps [simp]:
  "encode_pages [] = []" "encode_pages (p # ps) = encode_page p @ encode_pages ps"
  "encode_pages (ps @ qs) = encode_pages ps @ encode_pages qs"
  by (simp_all add: encode_pages_def)

lemma encode_page_nonempty [simp]: "encode_page p \<noteq> []"
  by (simp add: encode_page_def)

lemma page_fields:
  assumes "wf_page p"
  shows "take 4 (drop 14 (encode_page p)) = pg_serial p" and "take 4 (drop 18 (encode_page p)) = pg_sequence p"
    and "encode_page p ! 5 = pg_flags p" and "drop (27 + length (pg_segments p)) (encode_page p) = pg_body p"
  using head_fields [OF assms] unfolding encode_page_head by simp_all

section \<open>Accepted bytes are the encoding of a stream\<close>

text \<open>One round of the loop on a state that represents \<open>ps\<close>, in terms of the page it meets.\<close>

lemma feed_loop_page:
  assumes "rep ps st" and "\<not> og_eos st" and "wf_page p" and "og_pending st = encode_page p @ r"
  shows "feed_loop st v =
     (if page_follows ps p then
        let st2 = st\<lparr>og_serial := Some (le32 (pg_serial (hd (ps @ [p])))), og_pages := og_pages st + 1,
           og_expected := Some (le32 (pg_sequence p) + 1), og_eos := (pg_flags p AND 4 \<noteq> 0), og_pending := r\<rparr> in
        if og_eos st2 then
          if r \<noteq> [] then (Inl rejected, st2) else (Inr (v @ encode_page p), st2)
        else feed_loop st2 (v @ encode_page p)
      else (Inl rejected, st))"
  unfolding feed_loop.simps [of st v] assms(4) scan_encode [OF assms(3)]
  using page_fields [OF assms(3)] rep_step [OF assms(1-3)] by (simp add: Let_def)

lemma feed_loop_sound:
  assumes "feed_loop st v = (Inr out, st')" and "rep ps st" and "\<not> og_eos st"
  shows "\<exists>qs. rep (ps @ qs) st' \<and> out = v @ encode_pages qs \<and> og_pending st = encode_pages qs @ og_pending st'"
  using assms
proof (induction "length (og_pending st)" arbitrary: st v ps rule: less_induct)
  case less
  show ?case
  proof (cases "scan_page (og_pending st)")
    case Incomplete
    then show ?thesis using less(2,3) by (simp add: feed_loop.simps [of st v]) (rule exI [of _ "[]"], simp)
  next
    case Malformed
    then show ?thesis using less(2) by (simp add: feed_loop.simps [of st v])
  next
    case (PageAt h n)
    define p where "p = decode_page n (og_pending st)"
    define r where "r = drop n (og_pending st)"
    note D = scan_decode [OF PageAt, folded p_def]
    have pend: "og_pending st = encode_page p @ r" using D unfolding r_def by (metis append_take_drop_id)
    have wf: "wf_page p" using D by simp
    define st2 where "st2 = st\<lparr>og_serial := Some (le32 (pg_serial (hd (ps @ [p])))), og_pages := og_pages st + 1,
           og_expected := Some (le32 (pg_sequence p) + 1), og_eos := (pg_flags p AND 4 \<noteq> 0), og_pending := r\<rparr>"
    note L = feed_loop_page [OF less(3,4) wf pend, of v, folded st2_def, unfolded Let_def]
    have pf: "page_follows ps p" using less(2) unfolding L by (auto split: if_splits)
    have rep2: "rep (ps @ [p]) st2" unfolding st2_def by (rule rep_snoc [OF less(3,4) wf pf])
    have r2: "og_pending st2 = r" by (simp add: st2_def)
    show ?thesis
    proof (cases "og_eos st2")
      case True
      with less(2) pf rep2 r2 show ?thesis unfolding L by (auto split: if_splits simp: pend intro!: exI [of _ "[p]"])
    next
      case False
      have "feed_loop st2 (v @ encode_page p) = (Inr out, st')" using less(2) pf False unfolding L by simp
      moreover have "length (og_pending st2) < length (og_pending st)" by (simp add: r2 pend)
      ultimately obtain qs where "rep ((ps @ [p]) @ qs) st'" "out = (v @ encode_page p) @ encode_pages qs"
          "r = encode_pages qs @ og_pending st'"
        using less(1) [OF _ _ rep2 False] unfolding r2 by blast
      then show ?thesis by (intro exI [of _ "p # qs"]) (simp add: pend)
    qed
  qed
qed

lemma feed_sound:
  assumes "feed c st = (Inr out, st')" and "rep ps st"
  shows "\<exists>qs. rep (ps @ qs) st' \<and> out = encode_pages qs \<and> og_pending st @ c = encode_pages qs @ og_pending st'"
proof -
  have f: "feed_loop (st\<lparr>og_pending := og_pending st @ c\<rparr>) [] = (Inr out, st')" "\<not> og_eos st"
    using assms(1) by (auto simp: feed_def split: if_splits)
  moreover have "rep ps (st\<lparr>og_pending := og_pending st @ c\<rparr>)" using assms(2) by (simp add: rep_def)
  ultimately show ?thesis using feed_loop_sound [OF f(1)] by simp
qed

lemma feed_all_sound:
  "feed_all cs st = (Inr outs, st') \<Longrightarrow> rep ps st \<Longrightarrow>
   \<exists>qs. rep (ps @ qs) st' \<and> concat outs = encode_pages qs \<and> og_pending st @ concat cs = encode_pages qs @ og_pending st'"
proof (induction cs arbitrary: st outs ps)
  case Nil
  then show ?case by (intro exI [of _ "[]"]) simp
next
  case (Cons c cs)
  obtain out st1 outs' where s: "feed c st = (Inr out, st1)" "feed_all cs st1 = (Inr outs', st')" "outs = out # outs'"
    using Cons.prems(1) by (auto split: prod.splits sum.splits)
  obtain qs where q: "rep (ps @ qs) st1" "out = encode_pages qs" "og_pending st @ c = encode_pages qs @ og_pending st1"
    using feed_sound [OF s(1) Cons.prems(2)] by blast
  obtain qs' where "rep ((ps @ qs) @ qs') st'" "concat outs' = encode_pages qs'"
      "og_pending st1 @ concat cs = encode_pages qs' @ og_pending st'"
    using Cons.IH [OF s(2) q(1)] by blast
  moreover from this q(3) have "og_pending st @ concat (c # cs) = encode_pages (qs @ qs') @ og_pending st'"
    by (metis append.assoc concat.simps(2) encode_pages_simps(3))
  ultimately show ?case using q(2) s(3) by (intro exI [of _ "qs @ qs'"]) simp
qed

section \<open>The encoding of a stream is accepted\<close>

text \<open>The loop stops where the next page is incomplete, or after the last page of the stream.\<close>

lemma feed_loop_complete:
  assumes "rep ps st" and "\<not> og_eos st" and "og_pending st @ z = encode_pages rs" and "logical_stream (ps @ rs)"
  shows "\<exists>qs rs' st'. rs = qs @ rs' \<and> feed_loop st v = (Inr (v @ encode_pages qs), st') \<and> rep (ps @ qs) st'
    \<and> og_pending st' @ z = encode_pages rs' \<and> scan_page (og_pending st') = Incomplete
    \<and> og_max_pending st' = og_max_pending st"
  using assms
proof (induction rs arbitrary: ps st v)
  case Nil
  then show ?case by (simp add: feed_loop.simps [of st v]) 
next
  case (Cons r rs)
  have step: "wf_page r" "page_follows ps r"
    using Cons.prems(4) stream_prefix_next by (auto simp: logical_stream_def)
  show ?case
  proof (cases "length (og_pending st) < length (encode_page r)")
    case True
    then obtain y where y: "encode_page r = og_pending st @ y" "y \<noteq> []"
      using append_split [of "og_pending st" z "encode_page r" "encode_pages rs"] Cons.prems(3) by auto
    have "scan_page (og_pending st) = Incomplete" by (rule scan_short [OF step(1) y])
    then show ?thesis using Cons.prems
      by (intro exI [of _ "[]"] exI [of _ "r # rs"] exI [of _ st]) (simp add: feed_loop.simps [of st v])
  next
    case False
    then obtain w where w: "og_pending st = encode_page r @ w" "w @ z = encode_pages rs"
      using append_split [of "encode_page r" "encode_pages rs" "og_pending st" z] Cons.prems(3) by auto
    define st2 where "st2 = st\<lparr>og_serial := Some (le32 (pg_serial (hd (ps @ [r])))), og_pages := og_pages st + 1,
           og_expected := Some (le32 (pg_sequence r) + 1), og_eos := (pg_flags r AND 4 \<noteq> 0), og_pending := w\<rparr>"
    note L = feed_loop_page [OF Cons.prems(1,2) step(1) w(1), of v, folded st2_def, unfolded Let_def]
    have rep2: "rep (ps @ [r]) st2" unfolding st2_def by (rule rep_snoc [OF Cons.prems(1,2) step])
    have p2: "og_pending st2 = w" "og_max_pending st2 = og_max_pending st" by (simp_all add: st2_def)
    have ls: "logical_stream ((ps @ [r]) @ rs)" using Cons.prems(4) by simp
    show ?thesis
    proof (cases "og_eos st2")
      case True
      have "rs = []"
      proof (rule ccontr)
        assume "rs \<noteq> []"
        then obtain q qs where "rs = q # qs" by (cases rs) auto
        then have "page_follows (ps @ [r]) q"
          using ls stream_prefix_next [of "ps @ [r]" q qs] by (simp add: logical_stream_def)
        then show False using True by (simp add: page_follows_def st2_def)
      qed
      then show ?thesis using w(2) rep2 True step(2) p2
        by (intro exI [of _ "[r]"] exI [of _ "[]"] exI [of _ st2]) (simp add: L)
    next
      case False
      obtain qs rs' st' where "rs = qs @ rs'" "feed_loop st2 (v @ encode_page r) = (Inr ((v @ encode_page r) @ encode_pages qs), st')"
          "rep ((ps @ [r]) @ qs) st'" "og_pending st' @ z = encode_pages rs'" "scan_page (og_pending st') = Incomplete"
          "og_max_pending st' = og_max_pending st2"
        using Cons.IH [OF rep2 False _ ls, of "v @ encode_page r"] w(2) p2(1) by auto
      then show ?thesis using step(2) False p2(2)
        by (intro exI [of _ "r # qs"] exI [of _ rs'] exI [of _ st']) (simp add: L)
    qed
  qed
qed

lemma feed_all_complete:
  assumes "rep ps st" and "og_pending st @ concat cs = encode_pages rs" and "logical_stream (ps @ rs)"
    and "scan_page (og_pending st) = Incomplete" and "og_max_pending st = max_frame + max max_frame ogg_max_page"
    and "\<forall>c \<in> set cs. c \<noteq> [] \<and> length c \<le> max_frame"
  shows "\<exists>outs st'. feed_all cs st = (Inr outs, st') \<and> concat outs = encode_pages rs \<and> rep (ps @ rs) st'
    \<and> og_pending st' = []"
  using assms
proof (induction cs arbitrary: st ps rs)
  case Nil
  have "rs = []"
  proof (cases rs)
    case (Cons r rs')
    then have "wf_page r" using Nil(3) stream_prefix_next by (auto simp: logical_stream_def)
    then show ?thesis using Nil(2,4) Cons scan_encode by simp
  qed
  then show ?case using Nil by simp
next
  case (Cons c cs)
  have "encode_pages rs \<noteq> []" using Cons.prems(2,6) by (metis append_is_Nil_conv concat.simps(2) list.set_intros(1))
  then obtain r rs1 where rs: "rs = r # rs1" by (cases rs) auto
  have "page_follows ps r" using Cons.prems(3) stream_prefix_next by (auto simp: logical_stream_def rs)
  then have eos: "\<not> og_eos st" using Cons.prems(1) by (auto simp: rep_def page_follows_def split: if_splits)
  define st1 where "st1 = st\<lparr>og_pending := og_pending st @ c\<rparr>"
  have rep1: "rep ps st1" using Cons.prems(1) by (simp add: rep_def st1_def)
  have p1: "og_pending st1 @ concat cs = encode_pages rs" using Cons.prems(2) by (simp add: st1_def)
  have bound: "length (og_pending st) + length c \<le> og_max_pending st"
    using scan_incomplete_length [OF Cons.prems(4)] Cons.prems(5,6) by (simp add: add.commute add_mono max.coboundedI2)
  have feed: "feed c st = feed_loop st1 []" using eos bound by (simp add: feed_def st1_def)
  obtain qs rs' st' where f: "rs = qs @ rs'" "feed_loop st1 [] = (Inr (encode_pages qs), st')" "rep (ps @ qs) st'"
      "og_pending st' @ concat cs = encode_pages rs'" "scan_page (og_pending st') = Incomplete"
      "og_max_pending st' = og_max_pending st"
    using feed_loop_complete [OF rep1 _ p1 Cons.prems(3), of "[]"] eos by (auto simp: st1_def)
  have "logical_stream ((ps @ qs) @ rs')" using Cons.prems(3) f(1) by simp
  then obtain outs st'' where "feed_all cs st' = (Inr outs, st'')" "concat outs = encode_pages rs'"
      "rep ((ps @ qs) @ rs') st''" "og_pending st'' = []"
    using Cons.IH [OF f(3,4) _ f(5)] f(6) Cons.prems(5,6) by auto
  then show ?case using f(1,2) by (simp add: feed)
qed

lemma rep_new: "rep [] (new_ogg max_frame)"
  by (simp add: rep_def new_ogg_def)

lemma finish_accepts: "rep ps st \<Longrightarrow> finish_ogg st = Inr () \<longleftrightarrow> og_pending st = [] \<and> logical_stream ps"
  by (auto simp: finish_ogg_def rep_def logical_stream_def requireE_def split: if_splits)

text \<open>
  Property C26. The validator passes a sequence of non-empty frames within the frame limit exactly when the
  bytes of the frames, put together, are the pages of one logical Opus stream: a first page that begins
  a stream, starts with an Opus header and has number zero, then pages of the same serial number and of successive numbers
  modulo 2^32, the last of them, and no other, marked as the end; and what it passes to the decoder are the bytes it was given.
\<close>

theorem validate_stream_iff_logical_stream:
  assumes "\<forall>c \<in> set frames. c \<noteq> [] \<and> length c \<le> max_frame"
  shows "validate_stream max_frame frames = Inr out \<longleftrightarrow>
    out = concat frames \<and> (\<exists>ps. logical_stream ps \<and> concat frames = encode_pages ps)"
proof
  assume "validate_stream max_frame frames = Inr out"
  then obtain outs st where f: "feed_all frames (new_ogg max_frame) = (Inr outs, st)" "finish_ogg st = Inr ()" "out = concat outs"
    by (auto simp: validate_stream_def result_iffs split: prod.splits sum.splits)
  then show "out = concat frames \<and> (\<exists>ps. logical_stream ps \<and> concat frames = encode_pages ps)"
    using feed_all_sound [OF f(1) rep_new] finish_accepts by (fastforce simp: new_ogg_def)
next
  assume r: "out = concat frames \<and> (\<exists>ps. logical_stream ps \<and> concat frames = encode_pages ps)"
  then obtain ps where ps: "logical_stream ps" "concat frames = encode_pages ps" by blast
  obtain outs st where f: "feed_all frames (new_ogg max_frame) = (Inr outs, st)" "concat outs = encode_pages ps"
      "rep ps st" "og_pending st = []"
    using feed_all_complete [OF rep_new, of max_frame frames ps max_frame] ps assms by (auto simp: new_ogg_def)
  have "finish_ogg st = Inr ()" using finish_accepts [OF f(3)] f(4) ps(1) by simp
  then show "validate_stream max_frame frames = Inr out" using f r ps by (simp add: validate_stream_def)
qed

definition opus_page :: "byte \<Rightarrow> bytes \<Rightarrow> bytes \<Rightarrow> page" where
  "opus_page flags seqno body = \<lparr>pg_flags = flags, pg_granule = replicate 8 0, pg_serial = [7, 0, 0, 0],
     pg_sequence = seqno, pg_checksum = replicate 4 0, pg_segments = [word_of_nat (length body)], pg_body = body\<rparr>"

definition small_stream :: "page list" where
  "small_stream = [opus_page 2 [0, 0, 0, 0] (opus_head @ [1, 1]), opus_page 0 [1, 0, 0, 0] [9, 9, 9], opus_page 4 [2, 0, 0, 0] [5]]"

definition small_frames :: "bytes list" where
  "small_frames = [take 30 (encode_pages small_stream), drop 30 (encode_pages small_stream)]"

lemma small_frames_ok: "\<forall>c \<in> set small_frames. c \<noteq> [] \<and> length c \<le> 100"
  by code_simp

lemma small_stream_accepted: "validate_stream 100 small_frames = Inr (concat small_frames)"
  by code_simp

theorem validate_stream_iff_logical_stream_witness:
  "\<exists>ps. logical_stream ps \<and> concat small_frames = encode_pages ps"
  using validate_stream_iff_logical_stream [OF small_frames_ok, of "concat small_frames"] small_stream_accepted by simp

end
