(* ===== verification/Streaming.thy ===== *)
theory Streaming
  imports Ogg Json Effects
begin

text \<open>
  The streaming protocol between the public service and the speech service (\<^verbatim>\<open>speech/streaming.py\<close>): its
  messages, and the client end of a session. A text message of the WebSocket is represented by what
  \<^verbatim>\<open>json.loads\<close> makes of it (\<open>None\<close> where it raises); the connection is a parameter whose operations
  may raise anything.
\<close>

section \<open>Messages\<close>

datatype stream_codec = PCM_S16LE | OGG_OPUS

fun codec_value :: "stream_codec \<Rightarrow> pystr" where
  "codec_value PCM_S16LE = lit ''pcm_s16le''"
| "codec_value OGG_OPUS = lit ''ogg_opus''"

definition codec_of :: "pystr \<Rightarrow> stream_codec option" where
  "codec_of s = (if s = codec_value PCM_S16LE then Some PCM_S16LE
     else if s = codec_value OGG_OPUS then Some OGG_OPUS else None)"

record streaming_start =
  ss_codec :: stream_codec
  ss_sample_rate :: int
  ss_channels :: int

definition validate_StreamingStart :: "streaming_start \<Rightarrow> exn + streaming_start" where
  "validate_StreamingStart s =
     (case ss_codec s of
        PCM_S16LE \<Rightarrow> if ss_sample_rate s = 16000 \<and> ss_channels s = 1 then Inr s else Inl StreamingProtocolError
      | OGG_OPUS \<Rightarrow> if ss_sample_rate s = 48000 \<and> ss_channels s = 1 then Inr s else Inl StreamingProtocolError)"

record streaming_update =
  up_sequence :: int
  up_text :: pystr
  up_stable_prefix :: bool
  up_final :: bool

definition validate_StreamingUpdate :: "streaming_update \<Rightarrow> exn + streaming_update" where
  "validate_StreamingUpdate u =
     (if up_sequence u \<le> 0 \<or> py_strip (up_text u) = [] then Inl StreamingProtocolError else Inr u)"

type_synonym payload = "(pystr \<times> json) list"

definition has_keys :: "string list \<Rightarrow> payload \<Rightarrow> bool" where
  "has_keys ks p \<longleftrightarrow> list_all (\<lambda>k. lit k \<in> set (map fst p)) ks \<and> list_all (\<lambda>kv. fst kv \<in> set (map lit ks)) p"

abbreviation get :: "payload \<Rightarrow> string \<Rightarrow> json option" where
  "get p k \<equiv> dict_of p (lit k)"

definition parse_streaming_start :: "payload \<Rightarrow> exn + streaming_start" where
  "parse_streaming_start p =
     (if \<not> has_keys [''type'', ''sequence'', ''codec'', ''sample_rate_hz'', ''channels''] p
         \<or> get p ''type'' \<noteq> Some (JStr (lit ''start'')) \<or> get p ''sequence'' \<noteq> Some (JInt 0)
      then Inl StreamingProtocolError
      else
        (case (get p ''codec'', get p ''sample_rate_hz'', get p ''channels'') of
           (Some (JStr c), Some (JInt rate), Some (JInt channels)) \<Rightarrow>
             (case codec_of c of
                None \<Rightarrow> Inl StreamingProtocolError
              | Some codec \<Rightarrow> validate_StreamingStart \<lparr>ss_codec = codec, ss_sample_rate = rate, ss_channels = channels\<rparr>)
         | _ \<Rightarrow> Inl StreamingProtocolError))"

definition start_payload :: "streaming_start \<Rightarrow> payload" where
  "start_payload s = [(lit ''type'', JStr (lit ''start'')), (lit ''sequence'', JInt 0), (lit ''codec'', JStr (codec_value (ss_codec s))),
     (lit ''sample_rate_hz'', JInt (ss_sample_rate s)), (lit ''channels'', JInt (ss_channels s))]"

text \<open>\<^verbatim>\<open>int.from_bytes(.., "big")\<close> of four bytes, and \<^verbatim>\<open>sequence.to_bytes(4, "big")\<close>, which raises \<^verbatim>\<open>OverflowError\<close>.\<close>

definition be_value :: "bytes \<Rightarrow> nat" where
  "be_value bs = foldl (\<lambda>n b. 256 * n + unat b) 0 bs"

definition to_be32 :: "nat \<Rightarrow> exn + bytes" where
  "to_be32 n = (if n < 2 ^ 32 then Inr [word_of_nat (n div 2 ^ 24), word_of_nat (n div 2 ^ 16), word_of_nat (n div 2 ^ 8), word_of_nat n]
     else Inl OtherError)"

definition parse_streaming_binary_frame :: "bytes \<Rightarrow> nat \<Rightarrow> exn + (nat \<times> bytes)" where
  "parse_streaming_binary_frame v expected =
     (if length v \<le> 4 then Inl StreamingProtocolError
      else if be_value (take 4 v) \<noteq> expected then Inl StreamingProtocolError
      else Inr (be_value (take 4 v), drop 4 v))"

definition parse_streaming_end :: "payload \<Rightarrow> nat \<Rightarrow> exn + unit" where
  "parse_streaming_end p expected =
     (if \<not> has_keys [''type'', ''sequence''] p \<or> get p ''type'' \<noteq> Some (JStr (lit ''end''))
         \<or> get p ''sequence'' \<noteq> Some (JInt (int expected))
      then Inl StreamingProtocolError else Inr ())"

definition end_payload :: "nat \<Rightarrow> payload" where
  "end_payload n = [(lit ''type'', JStr (lit ''end'')), (lit ''sequence'', JInt (int n))]"

definition validate_stream_frame :: "streaming_start \<Rightarrow> bytes \<Rightarrow> bool \<Rightarrow> exn + unit" where
  "validate_stream_frame s frame first_frame =
     (if frame = [] then Inl StreamingProtocolError
      else case ss_codec s of
        PCM_S16LE \<Rightarrow> if length frame mod 2 \<noteq> 0 then Inl StreamingProtocolError else Inr ()
      | OGG_OPUS \<Rightarrow> if first_frame \<and> \<not> starts_with capture_pattern frame then Inl StreamingProtocolError else Inr ())"

definition update_from_payload :: "payload \<Rightarrow> exn + streaming_update" where
  "update_from_payload p =
     (if \<not> has_keys [''type'', ''sequence'', ''text'', ''stable_prefix'', ''final''] p
         \<or> get p ''type'' \<noteq> Some (JStr (lit ''update'')) then Inl StreamingAdapterUnavailable
      else
        (case (get p ''sequence'', get p ''text'', get p ''stable_prefix'', get p ''final'') of
           (Some (JInt n), Some (JStr t), Some (JBool s), Some (JBool f)) \<Rightarrow>
             (case validate_StreamingUpdate \<lparr>up_sequence = n, up_text = t, up_stable_prefix = s, up_final = f\<rparr> of
                Inl e \<Rightarrow> Inl StreamingAdapterUnavailable
              | Inr u \<Rightarrow> Inr u)
         | _ \<Rightarrow> Inl StreamingAdapterUnavailable))"

section \<open>Text on the wire\<close>

text \<open>\<^verbatim>\<open>len(text.encode("utf-8"))\<close>; a surrogate raises \<^verbatim>\<open>UnicodeEncodeError\<close>, a \<^verbatim>\<open>ValueError\<close>.\<close>

definition utf8_width :: "nat \<Rightarrow> nat" where
  "utf8_width c = (if c < 128 then 1 else if c < 2048 then 2 else if c < 65536 then 3 else 4)"

definition utf8_length :: "pystr \<Rightarrow> exn + nat" where
  "utf8_length s = (if list_ex (\<lambda>c. 55296 \<le> c \<and> c \<le> 57343) s then Inl ValueError else Inr (sum_list (map utf8_width s)))"

datatype message = TextMessage "json option" | BinaryMessage bytes

definition json_object :: "message \<Rightarrow> exn + payload" where
  "json_object m = (case m of TextMessage (Some (JObj p)) \<Rightarrow> Inr p | _ \<Rightarrow> Inl StreamingAdapterUnavailable)"

definition json_message :: "payload \<Rightarrow> message" where
  "json_message p = TextMessage (Some (JObj p))"

text \<open>
  \<^verbatim>\<open>payload == {"type": t, "sequence": n}\<close>: Python compares numbers by value, so a sequence
  sent as \<^verbatim>\<open>true\<close> or as a float equals the integer.
\<close>

fun number_value :: "json \<Rightarrow> rat option" where
  "number_value (JBool b) = Some (if b then 1 else 0)"
| "number_value (JInt i) = Some (of_int i)"
| "number_value (JFloat x) = Some x"
| "number_value _ = None"

definition is_reply :: "string \<Rightarrow> nat \<Rightarrow> payload \<Rightarrow> bool" where
  "is_reply t n p \<longleftrightarrow> has_keys [''type'', ''sequence''] p \<and> get p ''type'' = Some (JStr (lit t))
     \<and> Option.bind (get p ''sequence'') number_value = Some (of_nat n)"

definition reply_payload :: "string \<Rightarrow> nat \<Rightarrow> payload" where
  "reply_payload t n = [(lit ''type'', JStr (lit t)), (lit ''sequence'', JInt (int n))]"

section \<open>The client end of a session\<close>

text \<open>The connection and its operations on an outside world \<open>'w\<close>.\<close>

record 'w connection =
  cn_connect :: "('w, unit) comp"
  cn_enter :: "('w, unit) comp"
  cn_send :: "message \<Rightarrow> ('w, unit) comp"
  cn_recv :: "('w, message) comp"
  cn_close :: "('w, unit) comp"
  cn_exit :: "('w, unit) comp"

record websocket_limits =
  wl_max_message_bytes :: nat
  wl_max_updates :: nat

record 'w ws_client =
  cl_next_sequence :: nat
  cl_closed :: bool
  cl_world :: 'w

definition outside :: "('w, 'a) comp \<Rightarrow> ('w ws_client, 'a) comp" where
  "outside m s = (case m (cl_world s) of (r, w) \<Rightarrow> (r, s\<lparr>cl_world := w\<rparr>))"

text \<open>\<^verbatim>\<open>_within_timeout\<close>: the wait itself raises \<^verbatim>\<open>TimeoutError\<close>.\<close>

definition within_timeout :: "('s, 'a) comp \<Rightarrow> ('s, 'a) comp" where
  "within_timeout m = catchM m (\<lambda>e. raiseM (if e = TimeoutError then StreamingAdapterUnavailable else e))"

definition swallow :: "('s, 'a) comp \<Rightarrow> ('s, unit) comp" where
  "swallow m = catchM (bindM m (\<lambda>_. returnM ())) (\<lambda>_. returnM ())"

text \<open>One round of \<^verbatim>\<open>_receive_until\<close>: an update, or the end of the operation.\<close>

definition receive_message ::
  "'w connection \<Rightarrow> websocket_limits \<Rightarrow> string \<Rightarrow> nat \<Rightarrow> nat \<Rightarrow> ('w ws_client, streaming_update option) comp" where
  "receive_message c wl terminal n count =
     bindM (within_timeout (outside (cn_recv c))) (\<lambda>m.
     bindM (liftE (json_object m)) (\<lambda>p.
       if get p ''type'' = Some (JStr (lit ''update'')) then
         bindM (guardM StreamingAdapterUnavailable (count < wl_max_updates wl)) (\<lambda>_.
         bindM (liftE (update_from_payload p)) (\<lambda>u.
         bindM (liftE (utf8_length (up_text u))) (\<lambda>len.
         bindM (guardM StreamingAdapterUnavailable (len \<le> wl_max_message_bytes wl)) (\<lambda>_. returnM (Some u)))))
       else if is_reply terminal n p then returnM None
       else raiseM StreamingAdapterUnavailable))"

text \<open>
  \<open>fuel\<close> counts the rounds that are left; the limit on updates ends the loop after at most
  \<open>wl_max_updates wl + 1\<close> rounds, so it never runs out.
\<close>

fun receive_rounds ::
  "nat \<Rightarrow> 'w connection \<Rightarrow> websocket_limits \<Rightarrow> string \<Rightarrow> nat \<Rightarrow> streaming_update list \<Rightarrow> ('w ws_client, streaming_update list option) comp" where
  "receive_rounds 0 c wl terminal n updates = returnM None"
| "receive_rounds (Suc fuel) c wl terminal n updates =
     bindM (receive_message c wl terminal n (length updates)) (\<lambda>r.
       case r of None \<Rightarrow> returnM (Some updates) | Some u \<Rightarrow> receive_rounds fuel c wl terminal n (updates @ [u]))"

definition receive_until ::
  "'w connection \<Rightarrow> websocket_limits \<Rightarrow> string \<Rightarrow> nat \<Rightarrow> ('w ws_client, streaming_update list) comp" where
  "receive_until c wl terminal n =
     bindM (receive_rounds (Suc (wl_max_updates wl)) c wl terminal n []) (\<lambda>r. returnM (the r))"

text \<open>A message and its answers.\<close>

definition exchange ::
  "'w connection \<Rightarrow> websocket_limits \<Rightarrow> message \<Rightarrow> string \<Rightarrow> nat \<Rightarrow> ('w ws_client, streaming_update list) comp" where
  "exchange c wl m terminal n = bindM (within_timeout (outside (cn_send c m))) (\<lambda>_. receive_until c wl terminal n)"

definition client_close :: "'w connection \<Rightarrow> ('w ws_client, unit) comp" where
  "client_close c =
     bindM (readM cl_closed) (\<lambda>closed.
       if closed then returnM ()
       else
         bindM (modifyM (\<lambda>s. s\<lparr>cl_closed := True\<rparr>)) (\<lambda>_.
         bindM (swallow (within_timeout (outside (cn_close c)))) (\<lambda>_. swallow (outside (cn_exit c)))))"

definition next_sequence :: "('w ws_client, unit) comp" where
  "next_sequence = modifyM (\<lambda>s. s\<lparr>cl_next_sequence := cl_next_sequence s + 1\<rparr>)"

definition client_push :: "'w connection \<Rightarrow> websocket_limits \<Rightarrow> bytes \<Rightarrow> nat \<Rightarrow> ('w ws_client, streaming_update list) comp" where
  "client_push c wl frame n =
     bindM (readM (\<lambda>s. cl_closed s \<or> n \<noteq> cl_next_sequence s \<or> frame = [])) (\<lambda>refused.
     bindM (guardM StreamingAdapterUnavailable (\<not> refused)) (\<lambda>_.
     catchM
       (bindM (liftE (to_be32 n)) (\<lambda>header.
        bindM (exchange c wl (BinaryMessage (header @ frame)) ''ack'' n) (\<lambda>updates.
        bindM next_sequence (\<lambda>_. returnM updates))))
       (\<lambda>e. bindM (client_close c) (\<lambda>_. raiseM StreamingAdapterUnavailable))))"

text \<open>\<^verbatim>\<open>finish\<close>: the \<^verbatim>\<open>finally\<close> closes on every way out.\<close>

definition client_finish :: "'w connection \<Rightarrow> websocket_limits \<Rightarrow> ('w ws_client, streaming_update list) comp" where
  "client_finish c wl =
     bindM (readM cl_closed) (\<lambda>closed.
       if closed then returnM []
       else
         bindM (readM cl_next_sequence) (\<lambda>n.
         catchM
           (bindM (exchange c wl (json_message (end_payload n)) ''finished'' n) (\<lambda>updates.
            bindM next_sequence (\<lambda>_.
            bindM (client_close c) (\<lambda>_. returnM updates))))
           (\<lambda>e. bindM (client_close c) (\<lambda>_. raiseM StreamingAdapterUnavailable))))"

section \<open>Opening a session\<close>

definition cleaning :: "('s, unit) comp \<Rightarrow> ('s, 'a) comp \<Rightarrow> ('s, 'a) comp" where
  "cleaning cleanup m = catchM m (\<lambda>e. bindM cleanup (\<lambda>_. raiseM StreamingAdapterUnavailable))"

text \<open>\<^verbatim>\<open>_abort_open_connection\<close> with and without a WebSocket.\<close>

definition abort_connection :: "'w connection \<Rightarrow> ('w, unit) comp" where
  "abort_connection c = swallow (within_timeout (cn_exit c))"

definition abort_websocket :: "'w connection \<Rightarrow> ('w, unit) comp" where
  "abort_websocket c = bindM (swallow (within_timeout (cn_close c))) (\<lambda>_. abort_connection c)"

text \<open>
  \<^verbatim>\<open>InternalSpeechWebSocketAdapter.open\<close> and its remote counterpart, which differ in the
  connector's arguments only. Every failure is \<^verbatim>\<open>StreamingAdapterUnavailable\<close>, after what was opened has been closed.
\<close>

definition open_session :: "'w connection \<Rightarrow> streaming_start \<Rightarrow> 'w \<Rightarrow> (exn + 'w ws_client) \<times> 'w" where
  "open_session c start =
     bindM (cleaning (returnM ()) (cn_connect c)) (\<lambda>_.
     bindM (cleaning (abort_connection c) (cn_enter c)) (\<lambda>_.
     bindM (cleaning (abort_websocket c)
       (bindM (within_timeout (cn_send c (json_message (start_payload start)))) (\<lambda>_.
        bindM (within_timeout (cn_recv c)) (\<lambda>m.
        bindM (liftE (json_object m)) (\<lambda>p.
          guardM StreamingAdapterUnavailable (is_reply ''started'' 0 p)))))) (\<lambda>_.
     readM (\<lambda>w. \<lparr>cl_next_sequence = 1, cl_closed = False, cl_world = w\<rparr>))))"


section \<open>Round trips of the messages\<close>

lemma bytes_of_nat:
  "256 * (256 * (256 * (n div 16777216) + n div 65536 mod 256) + n div 256 mod 256) + n mod 256 = (n :: nat)"
proof -
  have step: "256 * (x div 256) + x mod 256 = x" for x :: nat
    by simp
  have "n div 65536 = n div 256 div 256" "n div 16777216 = n div 65536 div 256"
    by (simp_all flip: div_mult2_eq)
  then show ?thesis by (simp only: step)
qed

lemma be_value_to_be32: "to_be32 n = Inr h \<Longrightarrow> length h = 4 \<and> be_value h = n"
  using bytes_of_nat [of n] by (auto simp: to_be32_def be_value_def unsigned_of_nat take_bit_eq_mod algebra_simps split: if_splits)

lemma to_be32_ok: "n < 2 ^ 32 \<Longrightarrow> \<exists>h. to_be32 n = Inr h"
  by (simp add: to_be32_def)

lemma binary_frame_roundtrip:
  "to_be32 n = Inr h \<Longrightarrow> frame \<noteq> [] \<Longrightarrow> parse_streaming_binary_frame (h @ frame) n = Inr (n, frame)"
  using be_value_to_be32 [of n h] by (auto simp: parse_streaming_binary_frame_def)

lemma end_roundtrip: "parse_streaming_end (end_payload n) n = Inr ()"
  by (simp add: parse_streaming_end_def end_payload_def has_keys_def dict_of_def)

lemma codec_of_value: "codec_of (codec_value c) = Some c"
  by (cases c) (simp_all add: codec_of_def)

lemma validate_start_iff [result_iffs]: "validate_StreamingStart s = Inr t \<longleftrightarrow>
    t = s \<and> ss_sample_rate s = (case ss_codec s of PCM_S16LE \<Rightarrow> 16000 | OGG_OPUS \<Rightarrow> 48000) \<and> ss_channels s = 1"
  by (auto simp: validate_StreamingStart_def split: stream_codec.splits)

lemma validate_update_iff [result_iffs]: "validate_StreamingUpdate u = Inr v \<longleftrightarrow> v = u \<and> 0 < up_sequence u \<and> py_strip (up_text u) \<noteq> []"
  by (auto simp: validate_StreamingUpdate_def)

lemma start_roundtrip: "is_valid validate_StreamingStart s \<Longrightarrow> parse_streaming_start (start_payload s) = Inr s"
  by (cases s) (simp add: is_valid_iff result_iffs parse_streaming_start_def start_payload_def has_keys_def dict_of_def codec_of_value)

section \<open>The contract of a session\<close>

text \<open>What the code that drives a session relies on: bounded, valid updates, and an end that is final.\<close>

definition update_ok :: "nat \<Rightarrow> streaming_update \<Rightarrow> bool" where
  "update_ok max_bytes u \<longleftrightarrow> is_valid validate_StreamingUpdate u
     \<and> (case utf8_length (up_text u) of Inl e \<Rightarrow> False | Inr n \<Rightarrow> n \<le> max_bytes)"

locale stream_session =
  fixes push :: "bytes \<Rightarrow> nat \<Rightarrow> ('s, streaming_update list) comp"
    and finish :: "('s, streaming_update list) comp"
    and close :: "('s, unit) comp"
    and valid closed :: "'s \<Rightarrow> bool"
    and max_bytes max_updates :: nat
  assumes push_valid: "keeps valid (push frame n)"
    and finish_valid: "keeps valid finish"
    and close_valid: "keeps valid close"
    and push_updates: "valid s \<Longrightarrow> push frame n s = (Inr us, s') \<Longrightarrow> length us \<le> max_updates \<and> list_all (update_ok max_bytes) us"
    and finish_updates: "valid s \<Longrightarrow> finish s = (Inr us, s') \<Longrightarrow> length us \<le> max_updates \<and> list_all (update_ok max_bytes) us"
    and push_closed: "closed s \<Longrightarrow> push frame n s = (r, s') \<Longrightarrow> \<not> is_ok r \<and> closed s'"
    and finish_closes: "finish s = (r, s') \<Longrightarrow> closed s'"
    and finish_closed: "closed s \<Longrightarrow> finish s = (Inr [], s)"
    and close_closes: "valid s \<Longrightarrow> close s = (q, s') \<Longrightarrow> closed s'"
    and close_closed: "closed s \<Longrightarrow> close s = (Inr (), s)"

text \<open>The frames of a call in order, then the end of the stream, as both services drive a session.\<close>

fun push_all :: "(bytes \<Rightarrow> nat \<Rightarrow> ('s, streaming_update list) comp) \<Rightarrow> nat \<Rightarrow> bytes list \<Rightarrow> ('s, streaming_update list) comp" where
  "push_all push n [] = returnM []"
| "push_all push n (f # fs) = bindM (push f n) (\<lambda>us. bindM (push_all push (Suc n) fs) (\<lambda>vs. returnM (us @ vs)))"

context stream_session
begin

lemma push_all_valid: "keeps valid (push_all push n fs)"
  by (induction fs arbitrary: n) (auto intro!: hoare_rules push_valid)

lemma push_all_updates:
  "valid s \<Longrightarrow> push_all push n fs s = (Inr us, s') \<Longrightarrow> length us \<le> length fs * max_updates \<and> list_all (update_ok max_bytes) us"
proof (induction fs arbitrary: n s us)
  case (Cons f fs)
  then obtain us1 s1 us2 where run: "push f n s = (Inr us1, s1)" "push_all push (Suc n) fs s1 = (Inr us2, s')" "us = us1 @ us2"
    by (auto simp: comp_iffs)
  have "valid s1" by (rule keepsD [OF push_valid Cons.prems(1) run(1)])
  then show ?case using push_updates [OF Cons.prems(1) run(1)] Cons.IH [OF _ run(2)] run(3) by auto
qed (simp add: comp_iffs)

lemma ended_refuses: "finish s = (r, s') \<Longrightarrow> push frame n s' = (r', s'') \<Longrightarrow> \<not> is_ok r' \<and> closed s''"
  using finish_closes push_closed by blast

lemma finish_twice: "finish s = (r, s') \<Longrightarrow> finish s' = (Inr [], s') \<and> close s' = (Inr (), s')"
  using finish_closes finish_closed close_closed by blast

end

section \<open>The client keeps the contract\<close>

lemma outside_local:
  assumes "\<And>s w. P (s\<lparr>cl_world := w\<rparr>) \<longleftrightarrow> P s"
  shows "keeps P (outside m)"
  by (rule keepsI) (auto simp: outside_def assms split: prod.splits)

lemma keeps_within_timeout [hoare_rules]: "keeps P m \<Longrightarrow> keeps P (within_timeout m)"
  unfolding within_timeout_def by (intro hoare_rules)

lemma keeps_swallow [hoare_rules]: "keeps P m \<Longrightarrow> keeps P (swallow m)"
  unfolding swallow_def by (intro hoare_rules)

lemma receive_message_local:
  assumes "\<And>s w. P (s\<lparr>cl_world := w\<rparr>) \<longleftrightarrow> P s"
  shows "keeps P (receive_message c wl terminal n k)"
  unfolding receive_message_def by (intro hoare_rules outside_local assms)

lemma receive_rounds_local:
  assumes "\<And>s w. P (s\<lparr>cl_world := w\<rparr>) \<longleftrightarrow> P s"
  shows "keeps P (receive_rounds fuel c wl terminal n us)"
  by (induction fuel arbitrary: us) (auto intro!: hoare_rules receive_message_local assms)

lemma receive_until_local:
  assumes "\<And>s w. P (s\<lparr>cl_world := w\<rparr>) \<longleftrightarrow> P s"
  shows "keeps P (receive_until c wl terminal n)"
  unfolding receive_until_def by (intro hoare_rules receive_rounds_local assms)

lemma update_from_payload_ok: "update_from_payload p = Inr u \<Longrightarrow> is_valid validate_StreamingUpdate u"
  by (auto simp: update_from_payload_def is_valid_iff result_iffs split: if_splits option.splits json.splits sum.splits)

lemma receive_message_update:
  "receive_message c wl terminal n k s = (Inr (Some u), s') \<Longrightarrow> k < wl_max_updates wl \<and> update_ok (wl_max_message_bytes wl) u"
  unfolding receive_message_def
  by (auto simp: comp_iffs update_ok_def dest: update_from_payload_ok split: if_splits)

lemma receive_rounds_updates:
  "receive_rounds fuel c wl terminal n us s = (Inr (Some vs), s') \<Longrightarrow> list_all (update_ok (wl_max_message_bytes wl)) us
     \<Longrightarrow> length us \<le> wl_max_updates wl \<Longrightarrow> length vs \<le> wl_max_updates wl \<and> list_all (update_ok (wl_max_message_bytes wl)) vs"
proof (induction fuel arbitrary: us s)
  case (Suc fuel)
  show ?case
  proof (cases "receive_message c wl terminal n (length us) s")
    case (Pair r s1)
    then show ?thesis
      using Suc receive_message_update [of c wl terminal n "length us" s]
      by (auto simp: comp_iffs returnM_Inr_iff split: option.splits) 
  qed
qed (simp add: comp_iffs)

text \<open>The rounds never run out.\<close>

lemma receive_rounds_fuel:
  "receive_rounds fuel c wl terminal n us s = (Inr r, s') \<Longrightarrow> length us \<le> wl_max_updates wl
     \<Longrightarrow> wl_max_updates wl < fuel + length us \<Longrightarrow> r \<noteq> None"
proof (induction fuel arbitrary: us s)
  case (Suc fuel)
  then show ?case
    using receive_message_update [of c wl terminal n "length us" s]
    by (fastforce simp: comp_iffs split: option.splits)
qed simp

lemma receive_until_updates:
  assumes "receive_until c wl terminal n s = (Inr us, s')"
  shows "length us \<le> wl_max_updates wl \<and> list_all (update_ok (wl_max_message_bytes wl)) us"
proof -
  obtain r where r: "receive_rounds (Suc (wl_max_updates wl)) c wl terminal n [] s = (Inr r, s')" "us = the r"
    using assms by (auto simp: receive_until_def comp_iffs)
  have "r \<noteq> None" by (rule receive_rounds_fuel [OF r(1)]) simp_all
  then obtain vs where "r = Some vs" by blast
  with r receive_rounds_updates [of "Suc (wl_max_updates wl)" c wl terminal n "[]" s vs s'] show ?thesis by simp
qed

definition client_at :: "nat \<Rightarrow> bool \<Rightarrow> 'w ws_client \<Rightarrow> bool" where
  "client_at n b s \<longleftrightarrow> cl_next_sequence s = n \<and> cl_closed s = b"

lemma client_at_outside [simp]: "client_at n b (s\<lparr>cl_world := w\<rparr>) \<longleftrightarrow> client_at n b s"
  by (simp add: client_at_def)

lemma hoare_swallow: "keeps P m \<Longrightarrow> hoare P (swallow m) (\<lambda>_. P) (\<lambda>_ _. False)"
  unfolding swallow_def keeps_def
  by (rule hoare_catch, rule hoare_bind, assumption) (auto intro: hoare_return)

lemma client_close_outcome: "hoare (client_at n b) (client_close c) (\<lambda>_. client_at n True) (\<lambda>_ _. False)"
  unfolding client_close_def
proof (rule hoare_bind [where R = "\<lambda>x s. client_at n b s \<and> x = b"], goal_cases)
  case 1
  show ?case by (rule hoare_read) (simp add: client_at_def)
next
  case (2 x)
  show ?case
  proof (rule hoare_if)
    assume x
    then show "hoare (\<lambda>s. client_at n b s \<and> x = b) (returnM ()) (\<lambda>_. client_at n True) (\<lambda>_ _. False)"
      by (auto intro!: hoare_return)
  next
    show "hoare (\<lambda>s. client_at n b s \<and> x = b)
        (bindM (modifyM (\<lambda>s. s\<lparr>cl_closed := True\<rparr>)) (\<lambda>_. bindM (swallow (within_timeout (outside (cn_close c))))
          (\<lambda>_. swallow (outside (cn_exit c))))) (\<lambda>_. client_at n True) (\<lambda>_ _. False)"
      by (rule hoare_bind [where R = "\<lambda>_. client_at n True"], rule hoare_modify, simp add: client_at_def,
          rule hoare_bind [where R = "\<lambda>_. client_at n True"]; intro hoare_swallow hoare_rules outside_local client_at_outside)
  qed
qed

lemma client_close_closes: "client_close c s = (r, s') \<Longrightarrow> cl_closed s' \<and> r = Inr ()"
  using hoare_ok [OF client_close_outcome [of "cl_next_sequence s" "cl_closed s" c], of s]
    hoare_fail [OF client_close_outcome [of "cl_next_sequence s" "cl_closed s" c], of s]
  by (cases r) (auto simp: client_at_def)

lemma client_close_closed: "cl_closed s \<Longrightarrow> client_close c s = (Inr (), s)"
  by (simp add: client_close_def bindM_def readM_def returnM_def)

lemma failed_outcome:
  "hoare (client_at n b) (bindM (client_close c) (\<lambda>_. raiseM StreamingAdapterUnavailable)) Q
     (\<lambda>e s. e = StreamingAdapterUnavailable \<and> client_at n True s)"
  by (rule hoare_bind [where R = "\<lambda>_. client_at n True"], rule hoare_weaken [OF client_close_outcome])
    (auto intro: hoare_raise)

lemma exchange_outcome:
  "hoare (client_at n b) (exchange c wl m terminal k)
     (\<lambda>us s. client_at n b s \<and> length us \<le> wl_max_updates wl \<and> list_all (update_ok (wl_max_message_bytes wl)) us)
     (\<lambda>_. client_at n b)"
  unfolding exchange_def
proof (rule hoare_bind)
  show "hoare (client_at n b) (within_timeout (outside (cn_send c m))) (\<lambda>_. client_at n b) (\<lambda>_. client_at n b)"
    by (intro hoare_keeps hoare_rules outside_local) simp
  have "hoare (client_at n b) (receive_until c wl terminal k) (\<lambda>_. client_at n b) (\<lambda>_. client_at n b)"
    by (intro hoare_keeps receive_until_local) simp
  then show "hoare (client_at n b) (receive_until c wl terminal k)
      (\<lambda>us s. client_at n b s \<and> length us \<le> wl_max_updates wl \<and> list_all (update_ok (wl_max_message_bytes wl)) us)
      (\<lambda>_. client_at n b)"
    using receive_until_updates by (intro hoareI conjI) (blast dest: hoare_ok hoare_fail)+
qed

lemma next_sequence_outcome:
  "hoare (\<lambda>s. client_at n b s \<and> P) next_sequence (\<lambda>_ s. client_at (Suc n) b s \<and> P) E"
  unfolding next_sequence_def by (rule hoare_modify) (simp add: client_at_def)

lemma client_push_outcome:
  assumes "\<not> b" "k = n" "frame \<noteq> []"
  shows "hoare (client_at n b) (client_push c wl frame k)
    (\<lambda>us s. client_at (Suc n) False s \<and> length us \<le> wl_max_updates wl \<and> list_all (update_ok (wl_max_message_bytes wl)) us)
    (\<lambda>e s. e = StreamingAdapterUnavailable \<and> client_at n True s)"
proof -
  let ?ok = "\<lambda>us. length us \<le> wl_max_updates wl \<and> list_all (update_ok (wl_max_message_bytes wl)) us"
  have body: "hoare (client_at n b)
      (bindM (liftE (to_be32 k)) (\<lambda>header. bindM (exchange c wl (BinaryMessage (header @ frame)) ''ack'' k)
        (\<lambda>updates. bindM next_sequence (\<lambda>_. returnM updates))))
      (\<lambda>us s. client_at (Suc n) b s \<and> ?ok us) (\<lambda>_. client_at n b)"
    by (rule hoare_bind [OF hoare_lift [where Q = "\<lambda>_. client_at n b"]], assumption, assumption,
        rule hoare_bind [OF exchange_outcome], rule hoare_bind [OF next_sequence_outcome], rule hoare_return)
  show ?thesis
    unfolding client_push_def
  proof (rule hoare_bind [where R = "\<lambda>x s. client_at n b s \<and> \<not> x"], goal_cases)
    case 1
    show ?case by (rule hoare_read) (use assms in \<open>simp add: client_at_def\<close>)
  next
    case (2 x)
    show ?case
      by (rule hoare_bind [where R = "\<lambda>_. client_at n b"], rule hoare_guard, simp, simp,
          rule hoare_catch, rule hoare_weaken [OF body], assumption, use assms in simp, assumption, rule failed_outcome)
  qed
qed

lemma client_push_refused:
  "cl_closed s \<or> n \<noteq> cl_next_sequence s \<or> frame = [] \<Longrightarrow> client_push c wl frame n s = (Inl StreamingAdapterUnavailable, s)"
  by (simp add: client_push_def bindM_def readM_def guardM_def)

lemma client_finish_outcome:
  "hoare (client_at n False) (client_finish c wl)
     (\<lambda>us s. client_at (Suc n) True s \<and> length us \<le> wl_max_updates wl \<and> list_all (update_ok (wl_max_message_bytes wl)) us)
     (\<lambda>e s. e = StreamingAdapterUnavailable \<and> (client_at n True s \<or> client_at (Suc n) True s))"
    (is "hoare _ _ (\<lambda>us s. _ s \<and> ?ok us) _")
proof -
  have failed: "hoare (\<lambda>s. client_at n False s \<or> client_at (Suc n) False s)
      (bindM (client_close c) (\<lambda>_. raiseM StreamingAdapterUnavailable)) Q
      (\<lambda>e s. e = StreamingAdapterUnavailable \<and> (client_at n True s \<or> client_at (Suc n) True s))" for Q :: "streaming_update list \<Rightarrow> 'a ws_client \<Rightarrow> bool"
    using failed_outcome [of n False c Q] failed_outcome [of "Suc n" False c Q] unfolding hoare_def by blast
  have body: "hoare (client_at n False)
      (bindM (exchange c wl (json_message (end_payload k)) ''finished'' k) (\<lambda>updates.
       bindM next_sequence (\<lambda>_. bindM (client_close c) (\<lambda>_. returnM updates))))
      (\<lambda>us s. client_at (Suc n) True s \<and> ?ok us) (\<lambda>_ s. client_at n False s \<or> client_at (Suc n) False s)" for k
  proof (rule hoare_bind, rule hoare_weaken [OF exchange_outcome], assumption, assumption, simp, rule hoare_bind, rule next_sequence_outcome)
    fix us :: "streaming_update list"
    show "hoare (\<lambda>s. client_at (Suc n) False s \<and> ?ok us) (bindM (client_close c) (\<lambda>_. returnM us))
       (\<lambda>us s. client_at (Suc n) True s \<and> ?ok us) (\<lambda>_ s. client_at n False s \<or> client_at (Suc n) False s)"
      by (rule hoare_bind [where R = "\<lambda>_ s. client_at (Suc n) True s \<and> ?ok us"])
        (auto simp: returnM_def dest: hoare_ok [OF client_close_outcome] hoare_fail [OF client_close_outcome] intro!: hoareI)
  qed
  show ?thesis
    unfolding client_finish_def
  proof (rule hoare_bind [where R = "\<lambda>x s. client_at n False s \<and> \<not> x"], goal_cases)
    case 1
    show ?case by (rule hoare_read) (simp add: client_at_def)
  next
    case (2 x)
    show ?case
    proof (rule hoare_if, goal_cases)
      case 1
      then show ?case by (simp add: hoare_def)
    next
      case 2
      show ?case
        by (rule hoare_bind [where R = "\<lambda>_. client_at n False"], rule hoare_read, simp,
            rule hoare_catch, rule body, rule failed)
    qed
  qed
qed

interpretation cl: stream_session "client_push c wl" "client_finish c wl" "client_close c" "\<lambda>_. True" cl_closed
    "wl_max_message_bytes wl" "wl_max_updates wl" for c wl
proof
  fix frame :: bytes and n us and s s' :: "'a ws_client" and r :: "exn + streaming_update list" and q
  show "keeps (\<lambda>_. True) (client_push c wl frame n)" "keeps (\<lambda>_. True) (client_finish c wl)" "keeps (\<lambda>_. True) (client_close c)"
    by (simp_all add: keepsI)
  show "length us \<le> wl_max_updates wl \<and> list_all (update_ok (wl_max_message_bytes wl)) us"
    if a: "client_push c wl frame n s = (Inr us, s')"
  proof (cases "cl_closed s \<or> n \<noteq> cl_next_sequence s \<or> frame = []")
    case True
    then show ?thesis using a client_push_refused [OF True, of c wl] by simp
  next
    case False
    then show ?thesis
      using hoare_ok [OF client_push_outcome [of False n n frame c wl] _ a] by (simp add: client_at_def)
  qed
  show finish: "length us \<le> wl_max_updates wl \<and> list_all (update_ok (wl_max_message_bytes wl)) us"
    if a: "client_finish c wl s = (Inr us, s')"
  proof (cases "cl_closed s")
    case True
    then show ?thesis using a by (simp add: client_finish_def bindM_def readM_def returnM_def)
  next
    case False
    then show ?thesis
      using hoare_ok [OF client_finish_outcome [of "cl_next_sequence s" c wl] _ a] by (simp add: client_at_def)
  qed
  show "\<not> is_ok r \<and> cl_closed s'" if "cl_closed s" "client_push c wl frame n s = (r, s')"
    using that client_push_refused [of s n frame c wl] by auto
  show closed_finish: "client_finish c wl s = (Inr [], s)" if "cl_closed s" for s :: "'a ws_client"
    using that by (simp add: client_finish_def bindM_def readM_def returnM_def)
  show "cl_closed s'" if a: "client_finish c wl s = (r, s')"
  proof (cases "cl_closed s")
    case False
    then show ?thesis
      using hoare_ok [OF client_finish_outcome [of "cl_next_sequence s" c wl], of s]
        hoare_fail [OF client_finish_outcome [of "cl_next_sequence s" c wl], of s] a
      by (cases r) (auto simp: client_at_def)
  qed (use a closed_finish in auto)
  show "cl_closed s'" if "client_close c s = (q, s')"
    using client_close_closes [OF that] by simp
  show "client_close c s = (Inr (), s)" if "cl_closed s"
    by (rule client_close_closed [OF that])
qed

section \<open>Properties\<close>

text \<open>
  Property C35. Every way out of a push of the WebSocket client. A frame is accepted only by an open session, in
  sequence; the sequence then advances by one, the session stays open and the updates are valid and
  within both limits. Everything else raises \<^verbatim>\<open>StreamingAdapterUnavailable\<close> and leaves the sequence
  alone: a refused frame leaves the whole state, any failure on the wire leaves the session closed.
\<close>

theorem client_push_outcomes:
  "case client_push c wl frame n s of
     (Inr us, s') \<Rightarrow> \<not> cl_closed s \<and> n = cl_next_sequence s \<and> frame \<noteq> [] \<and> cl_next_sequence s' = n + 1 \<and> \<not> cl_closed s'
       \<and> length us \<le> wl_max_updates wl \<and> list_all (update_ok (wl_max_message_bytes wl)) us
   | (Inl e, s') \<Rightarrow> e = StreamingAdapterUnavailable \<and> cl_next_sequence s' = cl_next_sequence s
       \<and> (if cl_closed s \<or> n \<noteq> cl_next_sequence s \<or> frame = [] then s' = s else cl_closed s')"
proof (cases "cl_closed s \<or> n \<noteq> cl_next_sequence s \<or> frame = []")
  case False
  then have start: "client_at n False s" "\<not> False" "n = n" "frame \<noteq> []" by (auto simp: client_at_def)
  obtain r s' where run: "client_push c wl frame n s = (r, s')" by fastforce
  show ?thesis
  proof (cases r)
    case (Inl e)
    then show ?thesis
      using hoare_fail [OF client_push_outcome [OF start(2-4)] start(1) run [unfolded Inl]] run False
      by (simp add: client_at_def)
  next
    case (Inr us)
    then show ?thesis
      using hoare_ok [OF client_push_outcome [OF start(2-4)] start(1) run [unfolded Inr]] run False
      by (simp add: client_at_def)
  qed
qed (simp add: client_push_refused)

text \<open>A connection that accepts every message and answers from a list.\<close>

definition scripted :: "message list connection" where
  "scripted = \<lparr>cn_connect = returnM (), cn_enter = returnM (), cn_send = (\<lambda>m. returnM ()),
     cn_recv = (\<lambda>w. case w of [] \<Rightarrow> (Inl TimeoutError, w) | m # ms \<Rightarrow> (Inr m, ms)), cn_close = returnM (), cn_exit = returnM ()\<rparr>"

theorem client_push_outcomes_witness:
  "\<exists>s'. client_push scripted \<lparr>wl_max_message_bytes = 10, wl_max_updates = 1\<rparr> [7] 1
      \<lparr>cl_next_sequence = 1, cl_closed = False, cl_world = [json_message (reply_payload ''ack'' 1)]\<rparr> = (Inr [], s')
    \<and> cl_next_sequence s' = 2"
proof -
  let ?s = "\<lparr>cl_next_sequence = 1, cl_closed = False, cl_world = [json_message (reply_payload ''ack'' 1)]\<rparr>"
  have "\<exists>s'. client_push scripted \<lparr>wl_max_message_bytes = 10, wl_max_updates = 1\<rparr> [7] 1 ?s = (Inr [], s')"
    by (simp add: client_push_def exchange_def receive_until_def receive_message_def within_timeout_def outside_def scripted_def
        json_message_def json_object_def reply_payload_def dict_of_def is_reply_def has_keys_def to_be32_def next_sequence_def
        bindM_def readM_def guardM_def catchM_def liftE_def modifyM_def returnM_def raiseM_def)
  then show ?thesis
    using client_push_outcomes [where c = scripted and wl = "\<lparr>wl_max_message_bytes = 10, wl_max_updates = 1\<rparr>" and frame = "[7]" and n = 1 and s = ?s] by fastforce
qed

text \<open>
  Property C36. The messages of the protocol survive the wire: what the client writes for a valid start, for an
  audio frame and for the end of the stream is parsed by the service to the same value.
\<close>

theorem protocol_roundtrip:
  assumes "is_valid validate_StreamingStart start" "n < 2 ^ 32" "frame \<noteq> []"
  shows "parse_streaming_start (start_payload start) = Inr start
    \<and> bindE (to_be32 n) (\<lambda>header. parse_streaming_binary_frame (header @ frame) n) = Inr (n, frame)
    \<and> parse_streaming_end (end_payload n) n = Inr ()"
proof -
  obtain h where "to_be32 n = Inr h" using to_be32_ok [OF assms(2)] by blast
  then show ?thesis
    by (simp add: start_roundtrip assms binary_frame_roundtrip end_roundtrip)
qed

theorem protocol_roundtrip_witness:
  "parse_streaming_start (start_payload \<lparr>ss_codec = OGG_OPUS, ss_sample_rate = 48000, ss_channels = 1\<rparr>)
     = Inr \<lparr>ss_codec = OGG_OPUS, ss_sample_rate = 48000, ss_channels = 1\<rparr>"
  using protocol_roundtrip [of "\<lparr>ss_codec = OGG_OPUS, ss_sample_rate = 48000, ss_channels = 1\<rparr>" 7 "[0x4F]"]
  by (simp add: is_valid_iff result_iffs)

end
