(* ===== verification/Rolling.thy ===== *)
theory Rolling
  imports Streaming Decimals "HOL-Library.Sublist"
begin

text \<open>
  The rolling transcription session of the speech service (\<^verbatim>\<open>RollingStreamingSession\<close> of
  \<^verbatim>\<open>services/speech/streaming.py\<close>). The clock, the FFmpeg decoder and the transcriber are operations
  on an outside world; the wait for a transcription may raise \<^verbatim>\<open>TimeoutError\<close>. The constructor's rule that a
  session has a decoder exactly when its codec is Ogg/Opus is built in.
\<close>

section \<open>Words, prefixes and samples\<close>

fun split_by :: "('a \<Rightarrow> bool) \<Rightarrow> 'a list \<Rightarrow> 'a list list" where
  "split_by P [] = [[]]"
| "split_by P (x # xs) =
     (if P x then [] # split_by P xs else (case split_by P xs of [] \<Rightarrow> [[x]] | w # ws \<Rightarrow> (x # w) # ws))"

text \<open>\<^verbatim>\<open>text.split()\<close> and \<^verbatim>\<open>" ".join(words)\<close>.\<close>

definition py_split :: "pystr \<Rightarrow> pystr list" where
  "py_split s = filter (\<lambda>w. w \<noteq> []) (split_by is_py_space s)"

fun join_space :: "pystr list \<Rightarrow> pystr" where
  "join_space [] = []"
| "join_space [w] = w"
| "join_space (w # v # ws) = w @ 32 # join_space (v # ws)"

fun common_prefix :: "'a list \<Rightarrow> 'a list \<Rightarrow> 'a list" where
  "common_prefix (x # xs) (y # ys) = (if x \<noteq> y then [] else x # common_prefix xs ys)"
| "common_prefix xs ys = []"

definition signed_value :: "nat \<Rightarrow> nat \<Rightarrow> int" where
  "signed_value bits v = (if v < 2 ^ (bits - 1) then int v else int v - 2 ^ bits)"

fun has_pcm_energy :: "nat \<Rightarrow> bytes \<Rightarrow> bool" where
  "has_pcm_energy threshold [] = False"
| "has_pcm_energy threshold [a] = (int threshold \<le> \<bar>signed_value 8 (unat a)\<bar>)"
| "has_pcm_energy threshold (a # b # bs) =
     (int threshold \<le> \<bar>signed_value 16 (unat a + 256 * unat b)\<bar> \<or> has_pcm_energy threshold bs)"

fun contains :: "'a list \<Rightarrow> 'a list \<Rightarrow> bool" where
  "contains p [] = (p = [])"
| "contains p (x # xs) = (starts_with p (x # xs) \<or> contains p xs)"

section \<open>The session\<close>

record rolling_config =
  rc_start :: streaming_start
  rc_max_frame_bytes :: nat
  rc_max_session_bytes :: nat
  rc_max_duration :: double
  rc_window_seconds :: double
  rc_step_seconds :: double
  rc_max_calls :: nat
  rc_max_audio :: double
  rc_energy_threshold :: nat
  rc_max_text_bytes :: nat

record 'w rolling_services =
  rv_clock :: "'w \<Rightarrow> double \<times> 'w"
  rv_feed :: "bytes \<Rightarrow> ('w, bytes) comp"
  rv_finish :: "('w, bytes) comp"
  rv_close :: "('w, unit) comp"
  rv_transcribe :: "bytes \<Rightarrow> ('w, pystr) comp"

record 'w rolling =
  ro_ogg :: ogg
  ro_ring :: bytes
  ro_received :: nat
  ro_last_rolling :: nat
  ro_calls :: nat
  ro_audio :: double
  ro_exhausted :: bool
  ro_last_sequence :: nat
  ro_bytes_received :: nat
  ro_first_frame :: bool
  ro_previous :: "pystr list"
  ro_committed :: "pystr list"
  ro_latest :: pystr
  ro_closed :: bool
  ro_opened_at :: double
  ro_header :: bytes
  ro_header_verified :: bool
  ro_world :: 'w

text \<open>\<^verbatim>\<open>int(seconds * _PCM_BYTES_PER_SECOND)\<close> of a positive number of seconds.\<close>

definition pcm_bytes :: "double \<Rightarrow> nat" where
  "pcm_bytes seconds = nat \<lfloor>dbl_mul seconds 32000\<rfloor>"

definition is_ogg :: "rolling_config \<Rightarrow> bool" where
  "is_ogg cfg \<longleftrightarrow> ss_codec (rc_start cfg) = OGG_OPUS"

definition new_rolling :: "rolling_config \<Rightarrow> 'w rolling_services \<Rightarrow> 'w \<Rightarrow> 'w rolling" where
  "new_rolling cfg sv w = (case rv_clock sv w of (t, w') \<Rightarrow>
     \<lparr>ro_ogg = new_ogg (rc_max_frame_bytes cfg), ro_ring = [], ro_received = 0, ro_last_rolling = 0, ro_calls = 0,
      ro_audio = 0, ro_exhausted = False, ro_last_sequence = 0, ro_bytes_received = 0, ro_first_frame = True,
      ro_previous = [], ro_committed = [], ro_latest = [], ro_closed = False, ro_opened_at = t, ro_header = [],
      ro_header_verified = (\<not> is_ogg cfg), ro_world = w'\<rparr>)"

definition in_world :: "('w, 'a) comp \<Rightarrow> ('w rolling, 'a) comp" where
  "in_world m s = (case m (ro_world s) of (r, w) \<Rightarrow> (r, s\<lparr>ro_world := w\<rparr>))"

definition ensure_within_duration :: "rolling_config \<Rightarrow> 'w rolling_services \<Rightarrow> ('w rolling, unit) comp" where
  "ensure_within_duration cfg sv =
     bindM (in_world (\<lambda>w. case rv_clock sv w of (t, w') \<Rightarrow> (Inr t, w'))) (\<lambda>t.
       requireM StreamingAdapterUnavailable (\<lambda>s. dbl_sub t (ro_opened_at s) \<le> rc_max_duration cfg))"

definition feed_ogg :: "bytes \<Rightarrow> ('w rolling, bytes) comp" where
  "feed_ogg frame s = (case feed frame (ro_ogg s) of (r, v) \<Rightarrow> (r, s\<lparr>ro_ogg := v\<rparr>))"

definition decode :: "rolling_config \<Rightarrow> 'w rolling_services \<Rightarrow> bytes \<Rightarrow> ('w rolling, bytes) comp" where
  "decode cfg sv frame =
     (if \<not> is_ogg cfg then returnM frame
      else
        bindM (feed_ogg frame) (\<lambda>pages.
          if pages = [] then returnM []
          else
            bindM (readM ro_header_verified) (\<lambda>verified.
              if verified then in_world (rv_feed sv pages)
              else
                bindM (modifyM (\<lambda>s. s\<lparr>ro_header := ro_header s @ pages\<rparr>)) (\<lambda>_.
                bindM (readM ro_header) (\<lambda>header.
                  if \<not> contains opus_head header then
                    bindM (guardM StreamingAdapterUnavailable (length header \<le> 8 * 1024)) (\<lambda>_. returnM [])
                  else
                    bindM (modifyM (\<lambda>s. s\<lparr>ro_header_verified := True, ro_header := []\<rparr>)) (\<lambda>_.
                      in_world (rv_feed sv header)))))))"

definition finish_decoder :: "rolling_config \<Rightarrow> 'w rolling_services \<Rightarrow> ('w rolling, bytes) comp" where
  "finish_decoder cfg sv =
     (if \<not> is_ogg cfg then returnM []
      else
        bindM (readM (\<lambda>s. finish_ogg (ro_ogg s))) (\<lambda>complete.
        bindM (liftE complete) (\<lambda>_.
        bindM (requireM StreamingAdapterUnavailable ro_header_verified) (\<lambda>_. in_world (rv_finish sv)))))"

definition make_update :: "nat \<Rightarrow> pystr \<Rightarrow> bool \<Rightarrow> bool \<Rightarrow> exn + streaming_update" where
  "make_update n t is_stable final =
     validate_StreamingUpdate \<lparr>up_sequence = int (max 1 n), up_text = t, up_stable_prefix = is_stable, up_final = final\<rparr>"

definition stable_updates :: "rolling_config \<Rightarrow> pystr \<Rightarrow> nat \<Rightarrow> ('w rolling, streaming_update list) comp" where
  "stable_updates cfg t n =
     (let normalized = join_space (py_split t) in
      if normalized = [] then returnM []
      else
        bindM (liftE (utf8_length normalized)) (\<lambda>len.
        bindM (guardM StreamingAdapterUnavailable (len \<le> rc_max_text_bytes cfg)) (\<lambda>_.
          let tokens = split_by (\<lambda>c. c = 32) normalized in
          bindM (readM ro_previous) (\<lambda>previous.
          bindM (modifyM (\<lambda>s. s\<lparr>ro_previous := tokens, ro_latest := normalized\<rparr>)) (\<lambda>_.
            if previous = [] then bindM (liftE (make_update n normalized False False)) (\<lambda>u. returnM [u])
            else
              let stable = common_prefix previous tokens in
              bindM (readM ro_committed) (\<lambda>committed.
                if length stable \<le> length committed then returnM []
                else
                  bindM (modifyM (\<lambda>s. s\<lparr>ro_committed := stable\<rparr>)) (\<lambda>_.
                  bindM (liftE (make_update n (join_space stable) True False)) (\<lambda>u. returnM [u]))))))))"

text \<open>The duration of PCM audio in seconds, and the budget that a call would spend.\<close>

definition audio_seconds :: "bytes \<Rightarrow> double" where
  "audio_seconds pcm = dbl (of_nat (length pcm) / 32000)"

definition rolling_update :: "rolling_config \<Rightarrow> 'w rolling_services \<Rightarrow> nat \<Rightarrow> ('w rolling, streaming_update list) comp" where
  "rolling_update cfg sv n =
     bindM (readM ro_ring) (\<lambda>pcm.
     bindM (readM (\<lambda>s. ro_exhausted s \<or> pcm = [] \<or> \<not> has_pcm_energy (rc_energy_threshold cfg) pcm)) (\<lambda>skip.
       if skip then returnM []
       else
         bindM (readM (\<lambda>s. rc_max_calls cfg \<le> ro_calls s \<or> rc_max_audio cfg < dbl_add (ro_audio s) (audio_seconds pcm))) (\<lambda>spent.
           if spent then bindM (modifyM (\<lambda>s. s\<lparr>ro_exhausted := True\<rparr>)) (\<lambda>_. returnM [])
           else
             bindM (modifyM (\<lambda>s. s\<lparr>ro_calls := ro_calls s + 1, ro_audio := dbl_add (ro_audio s) (audio_seconds pcm)\<rparr>)) (\<lambda>_.
             bindM
               (catchM (bindM (in_world (rv_transcribe sv pcm)) (\<lambda>t. returnM (Some t)))
                 (\<lambda>e. if e = SpeechProviderError \<or> e = TimeoutError then returnM None else raiseM e)) (\<lambda>t.
               case t of None \<Rightarrow> returnM [] | Some t \<Rightarrow> stable_updates cfg t n)))))"

text \<open>The ring keeps the last bytes of the window.\<close>

definition last_bytes :: "nat \<Rightarrow> 'a list \<Rightarrow> 'a list" where
  "last_bytes n xs = drop (length xs - n) xs"

definition consume_pcm ::
  "rolling_config \<Rightarrow> 'w rolling_services \<Rightarrow> bytes \<Rightarrow> nat \<Rightarrow> bool \<Rightarrow> ('w rolling, streaming_update list) comp" where
  "consume_pcm cfg sv pcm n forced =
     bindM (guardM StreamingAdapterUnavailable (length pcm mod 2 = 0)) (\<lambda>_.
       if pcm = [] then returnM []
       else
         bindM (modifyM (\<lambda>s. s\<lparr>ro_received := ro_received s + length pcm,
           ro_ring := last_bytes (pcm_bytes (rc_window_seconds cfg)) (ro_ring s @ pcm)\<rparr>)) (\<lambda>_.
         bindM (readM (\<lambda>s. pcm_bytes (rc_step_seconds cfg) \<le> ro_received s - ro_last_rolling s)) (\<lambda>ready.
           if \<not> forced \<and> \<not> ready then returnM []
           else bindM (modifyM (\<lambda>s. s\<lparr>ro_last_rolling := ro_received s\<rparr>)) (\<lambda>_. rolling_update cfg sv n))))"

definition rolling_push ::
  "rolling_config \<Rightarrow> 'w rolling_services \<Rightarrow> bytes \<Rightarrow> nat \<Rightarrow> ('w rolling, streaming_update list) comp" where
  "rolling_push cfg sv frame n =
     bindM (ensure_within_duration cfg sv) (\<lambda>_.
     bindM (requireM StreamingAdapterUnavailable (\<lambda>s. \<not> ro_closed s \<and> n = ro_last_sequence s + 1)) (\<lambda>_.
     bindM (readM ro_first_frame) (\<lambda>first.
     bindM (liftE (validate_stream_frame (rc_start cfg) frame first)) (\<lambda>_.
     bindM (modifyM (\<lambda>s. s\<lparr>ro_first_frame := False, ro_last_sequence := n,
       ro_bytes_received := ro_bytes_received s + length frame\<rparr>)) (\<lambda>_.
     bindM (requireM StreamingAdapterUnavailable (\<lambda>s. length frame \<le> rc_max_frame_bytes cfg
       \<and> ro_bytes_received s \<le> rc_max_session_bytes cfg)) (\<lambda>_.
     bindM (decode cfg sv frame) (\<lambda>pcm. consume_pcm cfg sv pcm n False)))))))"

definition rolling_close :: "rolling_config \<Rightarrow> 'w rolling_services \<Rightarrow> ('w rolling, unit) comp" where
  "rolling_close cfg sv =
     bindM (readM ro_closed) (\<lambda>closed.
       if closed then returnM ()
       else
         bindM (modifyM (\<lambda>s. s\<lparr>ro_closed := True\<rparr>)) (\<lambda>_.
           if is_ogg cfg then in_world (rv_close sv) else returnM ()))"

text \<open>The last update becomes the final one, or the latest text is sent once more.\<close>

definition finalise :: "streaming_update list \<Rightarrow> ('w rolling, streaming_update list) comp" where
  "finalise ups =
     bindM (readM (\<lambda>s. s)) (\<lambda>s.
       if ro_latest s = [] then returnM ups
       else if ups \<noteq> [] \<and> up_text (last ups) = ro_latest s then
         bindM (liftE (validate_StreamingUpdate ((last ups)\<lparr>up_final := True\<rparr>))) (\<lambda>u. returnM (butlast ups @ [u]))
       else
         bindM (liftE (make_update (ro_last_sequence s) (ro_latest s) (ro_committed s \<noteq> []) True)) (\<lambda>u. returnM (ups @ [u])))"

definition finish_updates :: "rolling_config \<Rightarrow> 'w rolling_services \<Rightarrow> ('w rolling, streaming_update list) comp" where
  "finish_updates cfg sv =
     bindM (ensure_within_duration cfg sv) (\<lambda>_.
     bindM (finish_decoder cfg sv) (\<lambda>pcm.
     bindM (readM ro_last_sequence) (\<lambda>n.
     bindM (consume_pcm cfg sv pcm n True) (\<lambda>ups.
     bindM (readM (\<lambda>s. pcm = [] \<and> ro_last_rolling s < ro_received s)) (\<lambda>pending.
     bindM
       (if pending then bindM (modifyM (\<lambda>s. s\<lparr>ro_last_rolling := ro_received s\<rparr>)) (\<lambda>_. rolling_update cfg sv n) else returnM [])
       (\<lambda>more. finalise (ups @ more)))))))"

definition rolling_finish :: "rolling_config \<Rightarrow> 'w rolling_services \<Rightarrow> ('w rolling, streaming_update list) comp" where
  "rolling_finish cfg sv =
     bindM (readM ro_closed) (\<lambda>closed.
       if closed then returnM [] else finallyM (finish_updates cfg sv) (rolling_close cfg sv))"

section \<open>Words\<close>

definition words_ok :: "pystr list \<Rightarrow> bool" where
  "words_ok ws \<longleftrightarrow> list_all (\<lambda>w. w \<noteq> [] \<and> list_all (\<lambda>c. \<not> is_py_space c) w) ws"

lemma split_by_nonempty [simp]: "split_by P s \<noteq> []"
  by (cases s) (simp_all split: list.splits)

lemma split_by_word: "list_all (\<lambda>c. \<not> P c) w \<Longrightarrow> split_by P w = [w]"
  by (induction w) auto

lemma split_by_append: "list_all (\<lambda>c. \<not> P c) w \<Longrightarrow> P x \<Longrightarrow> split_by P (w @ x # s) = w # split_by P s"
  by (induction w) auto

lemma split_by_words: "w \<in> set (split_by P s) \<Longrightarrow> list_all (\<lambda>c. \<not> P c) w"
  by (induction s arbitrary: w) (auto split: list.splits if_splits)

lemma py_split_ok [simp]: "words_ok (py_split s)"
  by (auto simp: words_ok_def py_split_def list_all_iff dest!: split_by_words)

lemma words_ok_space: "words_ok ws \<Longrightarrow> w \<in> set ws \<Longrightarrow> list_all (\<lambda>c. \<not> c = 32) w"
  by (auto simp: words_ok_def list_all_iff is_py_space_def is_white_def)

lemma split_join_space: "ws \<noteq> [] \<Longrightarrow> words_ok ws \<Longrightarrow> split_by (\<lambda>c. c = 32) (join_space ws) = ws"
proof (induction ws rule: join_space.induct)
  case (3 w v ws)
  then show ?case using words_ok_space [OF 3(3), of w] by (simp add: split_by_append words_ok_def)
qed (auto dest: words_ok_space intro!: split_by_word)

lemma join_space_Nil_iff [simp]: "words_ok ws \<Longrightarrow> join_space ws = [] \<longleftrightarrow> ws = []"
  by (cases ws rule: join_space.cases) (auto simp: words_ok_def)

lemma join_space_append: "ws \<noteq> [] \<Longrightarrow> vs \<noteq> [] \<Longrightarrow> join_space (ws @ vs) = join_space ws @ 32 # join_space vs"
  by (induction ws rule: join_space.induct) (auto simp: neq_Nil_conv)

lemma join_space_prefix: "prefix ws vs \<Longrightarrow> prefix (join_space ws) (join_space vs)"
  by (cases "ws = []"; cases "ws = vs") (auto simp: prefix_def join_space_append)

lemma join_space_strip:
  assumes "words_ok ws" "ws \<noteq> []"
  shows "py_strip (join_space ws) \<noteq> []"
proof -
  obtain c cs where "join_space ws = c # cs" "\<not> is_py_space c"
    using assms by (cases ws rule: join_space.cases) (auto simp: words_ok_def neq_Nil_conv)
  then show ?thesis by (simp add: strip_by_def dropWhile_append)
qed

lemma common_prefix_left: "prefix (common_prefix xs ys) xs"
  by (induction xs ys rule: common_prefix.induct) auto

lemma common_prefix_right: "prefix (common_prefix xs ys) ys"
  by (induction xs ys rule: common_prefix.induct) auto

lemma common_prefix_greatest: "prefix zs xs \<Longrightarrow> prefix zs ys \<Longrightarrow> prefix zs (common_prefix xs ys)"
  by (induction xs ys arbitrary: zs rule: common_prefix.induct) (auto simp: prefix_Cons)

lemma words_ok_prefix: "words_ok vs \<Longrightarrow> prefix ws vs \<Longrightarrow> words_ok ws"
  by (auto simp: words_ok_def list_all_iff dest: set_mono_prefix)

section \<open>Bytes of an update\<close>

definition text_fits :: "nat \<Rightarrow> pystr \<Rightarrow> bool" where
  "text_fits m t \<longleftrightarrow> (case utf8_length t of Inl e \<Rightarrow> False | Inr n \<Rightarrow> n \<le> m)"

lemma text_fits_prefix: "prefix s t \<Longrightarrow> text_fits m t \<Longrightarrow> text_fits m s"
  by (auto simp: text_fits_def utf8_length_def prefix_def split: if_splits)

lemma update_ok_iff: "update_ok m u \<longleftrightarrow> 0 < up_sequence u \<and> py_strip (up_text u) \<noteq> [] \<and> text_fits m (up_text u)"
  by (auto simp: update_ok_def is_valid_iff result_iffs text_fits_def)

lemma update_ok_final: "update_ok m (u\<lparr>up_final := b\<rparr>) \<longleftrightarrow> update_ok m u"
  by (simp add: update_ok_iff)

lemma make_update_ok:
  "words_ok ws \<Longrightarrow> ws \<noteq> [] \<Longrightarrow> make_update n (join_space ws) a b =
     Inr \<lparr>up_sequence = int (max 1 n), up_text = join_space ws, up_stable_prefix = a, up_final = b\<rparr>"
  by (simp add: make_update_def validate_StreamingUpdate_def join_space_strip)

section \<open>The invariant of a session\<close>

definition rolling_inv :: "rolling_config \<Rightarrow> 'w rolling \<Rightarrow> bool" where
  "rolling_inv cfg s \<longleftrightarrow>
     length (ro_ring s) \<le> pcm_bytes (rc_window_seconds cfg) \<and> ro_last_rolling s \<le> ro_received s
     \<and> ro_calls s \<le> rc_max_calls cfg \<and> ro_audio s \<le> max 0 (rc_max_audio cfg)
     \<and> ro_latest s = join_space (ro_previous s) \<and> words_ok (ro_previous s)
     \<and> (ro_previous s \<noteq> [] \<longrightarrow> text_fits (rc_max_text_bytes cfg) (ro_latest s))"

lemma rolling_inv_frame [simp]:
  "rolling_inv cfg (s\<lparr>ro_world := w\<rparr>) \<longleftrightarrow> rolling_inv cfg s"
  "rolling_inv cfg (s\<lparr>ro_ogg := v\<rparr>) \<longleftrightarrow> rolling_inv cfg s"
  "rolling_inv cfg (s\<lparr>ro_header := h\<rparr>) \<longleftrightarrow> rolling_inv cfg s"
  "rolling_inv cfg (s\<lparr>ro_header_verified := b\<rparr>) \<longleftrightarrow> rolling_inv cfg s"
  "rolling_inv cfg (s\<lparr>ro_exhausted := b\<rparr>) \<longleftrightarrow> rolling_inv cfg s"
  "rolling_inv cfg (s\<lparr>ro_closed := b\<rparr>) \<longleftrightarrow> rolling_inv cfg s"
  "rolling_inv cfg (s\<lparr>ro_committed := ws\<rparr>) \<longleftrightarrow> rolling_inv cfg s"
  "rolling_inv cfg (s\<lparr>ro_first_frame := b, ro_last_sequence := n, ro_bytes_received := k\<rparr>) \<longleftrightarrow> rolling_inv cfg s"
  by (simp_all add: rolling_inv_def)

lemma new_rolling_inv: "rolling_inv cfg (new_rolling cfg sv w)"
  by (simp add: rolling_inv_def new_rolling_def words_ok_def split: prod.splits)

text \<open>\<^verbatim>\<open>_stable_updates\<close> as one equation.\<close>

definition plain_update :: "nat \<Rightarrow> pystr \<Rightarrow> bool \<Rightarrow> streaming_update" where
  "plain_update n t b = \<lparr>up_sequence = int (max 1 n), up_text = t, up_stable_prefix = b, up_final = False\<rparr>"

lemma stable_updates_eq:
  "words_ok (ro_previous s) \<Longrightarrow> stable_updates cfg t n s =
     (let ws = py_split t; s' = s\<lparr>ro_previous := ws, ro_latest := join_space ws\<rparr>; stable = common_prefix (ro_previous s) ws in
      if ws = [] then (Inr [], s)
      else case utf8_length (join_space ws) of
        Inl e \<Rightarrow> (Inl e, s)
      | Inr len \<Rightarrow>
          if rc_max_text_bytes cfg < len then (Inl StreamingAdapterUnavailable, s)
          else if ro_previous s = [] then (Inr [plain_update n (join_space ws) False], s')
          else if length stable \<le> length (ro_committed s) then (Inr [], s')
          else (Inr [plain_update n (join_space stable) True], s'\<lparr>ro_committed := stable\<rparr>))"
  using words_ok_prefix [OF _ common_prefix_left, of "ro_previous s" "py_split t"]
  by (cases "common_prefix (ro_previous s) (py_split t) = []") (auto simp: stable_updates_def Let_def bindM_def liftE_def guardM_def readM_def modifyM_def returnM_def split_join_space
      make_update_ok plain_update_def split: sum.splits)

definition bounded_updates :: "rolling_config \<Rightarrow> streaming_update list \<Rightarrow> bool" where
  "bounded_updates cfg us \<longleftrightarrow> length us \<le> 1 \<and> list_all (\<lambda>u. update_ok (rc_max_text_bytes cfg) u \<and> \<not> up_final u) us"

lemma bounded_updates_Nil [simp]: "bounded_updates cfg []"
  by (simp add: bounded_updates_def)

lemma plain_update_ok:
  "words_ok ws \<Longrightarrow> ws \<noteq> [] \<Longrightarrow> text_fits (rc_max_text_bytes cfg) (join_space ws) \<Longrightarrow> bounded_updates cfg [plain_update n (join_space ws) b]"
  by (simp add: bounded_updates_def update_ok_iff plain_update_def join_space_strip)

abbreviation rolls :: "rolling_config \<Rightarrow> ('w rolling, streaming_update list) comp \<Rightarrow> bool" where
  "rolls cfg m \<equiv> hoare (rolling_inv cfg) m (\<lambda>us s. rolling_inv cfg s \<and> bounded_updates cfg us) (\<lambda>_. rolling_inv cfg)"

lemma stable_updates_rolls: "rolls cfg (stable_updates cfg t n)"
proof (rule hoareI)
  fix s s' :: "'w rolling" and us
  assume inv: "rolling_inv cfg s" and run: "stable_updates cfg t n s = (Inr us, s')"
  have ok: "words_ok (ro_previous s)" using inv by (simp add: rolling_inv_def)
  let ?c = "common_prefix (ro_previous s) (py_split t)"
  have prefix: "prefix (join_space ?c) (join_space (py_split t))" "words_ok ?c"
    by (rule join_space_prefix [OF common_prefix_right]) (rule words_ok_prefix [OF ok common_prefix_left])
  show "rolling_inv cfg s' \<and> bounded_updates cfg us"
  proof (cases "py_split t = []")
    case False
    then obtain len where len: "utf8_length (join_space (py_split t)) = Inr len" "len \<le> rc_max_text_bytes cfg"
      using run by (auto simp: stable_updates_eq [OF ok] Let_def split: sum.splits if_splits)
    then have fits: "text_fits (rc_max_text_bytes cfg) (join_space (py_split t))" by (simp add: text_fits_def)
    have inv': "rolling_inv cfg (s\<lparr>ro_previous := py_split t, ro_latest := join_space (py_split t)\<rparr>)"
      using inv fits by (simp add: rolling_inv_def)
    show ?thesis
      using run len False inv' plain_update_ok [OF py_split_ok False fits, of n False]
        plain_update_ok [OF prefix(2) _ text_fits_prefix [OF prefix(1) fits], of n True]
      by (cases "?c = []") (auto simp: stable_updates_eq [OF ok] Let_def split: if_splits)
  qed (use run inv in \<open>simp add: stable_updates_eq [OF ok] Let_def\<close>)
next
  fix s s' :: "'w rolling" and e
  assume inv: "rolling_inv cfg s" and run: "stable_updates cfg t n s = (Inl e, s')"
  have ok: "words_ok (ro_previous s)" using inv by (simp add: rolling_inv_def)
  show "rolling_inv cfg s'"
    using run inv by (auto simp: stable_updates_eq [OF ok] Let_def split: sum.splits if_splits)
qed

lemma in_world_local:
  assumes "\<And>s w. P (s\<lparr>ro_world := w\<rparr>) \<longleftrightarrow> P s"
  shows "keeps P (in_world m)"
  by (rule keepsI) (auto simp: in_world_def assms split: prod.splits)


lemma ensure_local:
  assumes "\<And>s w. P (s\<lparr>ro_world := w\<rparr>) \<longleftrightarrow> P s"
  shows "keeps P (ensure_within_duration cfg sv)"
  unfolding ensure_within_duration_def by (intro hoare_rules in_world_local assms)

lemma decode_keeps: "keeps (rolling_inv cfg) (decode cfg sv frame)"
proof -
  have "keeps (rolling_inv cfg) (feed_ogg frame)"
    by (rule keepsI) (auto simp: feed_ogg_def split: prod.splits)
  then show ?thesis
    unfolding decode_def by (intro hoare_rules in_world_local keeps_modify) simp_all
qed

lemma finish_decoder_keeps: "keeps (rolling_inv cfg) (finish_decoder cfg sv)"
  unfolding finish_decoder_def by (intro hoare_rules in_world_local) simp_all

lemma close_keeps: "keeps (rolling_inv cfg) (rolling_close cfg sv)"
  unfolding rolling_close_def by (intro hoare_rules in_world_local keeps_modify) simp_all

lemma rolling_update_rolls: "rolls cfg (rolling_update cfg sv n)"
  unfolding rolling_update_def
proof (rule hoare_bind [where R = "\<lambda>pcm s. rolling_inv cfg s \<and> pcm = ro_ring s"], goal_cases)
  case 1
  show ?case by (rule hoare_read) simp
next
  case (2 pcm)
  let ?P = "\<lambda>s. rolling_inv cfg s \<and> pcm = ro_ring s"
  let ?spent = "\<lambda>s. rc_max_calls cfg \<le> ro_calls s \<or> rc_max_audio cfg < dbl_add (ro_audio s) (audio_seconds pcm)"
  have transcribed: "keeps (rolling_inv cfg) (catchM (bindM (in_world (rv_transcribe sv pcm)) (\<lambda>t. returnM (Some t)))
      (\<lambda>e. if e = SpeechProviderError \<or> e = TimeoutError then returnM None else raiseM e))"
    by (intro hoare_rules in_world_local) simp
  have called: "rolls cfg (case t of None \<Rightarrow> returnM [] | Some t \<Rightarrow> stable_updates cfg t n)" for t
    by (cases t) (simp_all add: hoare_return stable_updates_rolls)
  have spend: "hoare (\<lambda>s. ?P s \<and> \<not> ?spent s)
     (modifyM (\<lambda>s. s\<lparr>ro_calls := ro_calls s + 1, ro_audio := dbl_add (ro_audio s) (audio_seconds pcm)\<rparr>)) (\<lambda>_. rolling_inv cfg) (\<lambda>_. rolling_inv cfg)"
    by (rule hoare_modify) (auto simp: rolling_inv_def)
  have paid: "hoare (\<lambda>s. ?P s \<and> x = ?spent s)
      (if x then bindM (modifyM (\<lambda>s. s\<lparr>ro_exhausted := True\<rparr>)) (\<lambda>_. returnM [])
       else bindM (modifyM (\<lambda>s. s\<lparr>ro_calls := ro_calls s + 1, ro_audio := dbl_add (ro_audio s) (audio_seconds pcm)\<rparr>)) (\<lambda>_.
         bindM (catchM (bindM (in_world (rv_transcribe sv pcm)) (\<lambda>t. returnM (Some t)))
           (\<lambda>e. if e = SpeechProviderError \<or> e = TimeoutError then returnM None else raiseM e)) (\<lambda>t.
           case t of None \<Rightarrow> returnM [] | Some t \<Rightarrow> stable_updates cfg t n)))
      (\<lambda>us s. rolling_inv cfg s \<and> bounded_updates cfg us) (\<lambda>_. rolling_inv cfg)" for x
  proof (rule hoare_if)
    assume x
    then show "hoare (\<lambda>s. ?P s \<and> x = ?spent s) (bindM (modifyM (\<lambda>s. s\<lparr>ro_exhausted := True\<rparr>)) (\<lambda>_. returnM []))
       (\<lambda>us s. rolling_inv cfg s \<and> bounded_updates cfg us) (\<lambda>_. rolling_inv cfg)"
      by (intro hoare_bind [where R = "\<lambda>_. rolling_inv cfg"] hoare_modify hoare_return) simp_all
  next
    assume "\<not> x"
    then show "hoare (\<lambda>s. ?P s \<and> x = ?spent s)
      (bindM (modifyM (\<lambda>s. s\<lparr>ro_calls := ro_calls s + 1, ro_audio := dbl_add (ro_audio s) (audio_seconds pcm)\<rparr>)) (\<lambda>_.
         bindM (catchM (bindM (in_world (rv_transcribe sv pcm)) (\<lambda>t. returnM (Some t)))
           (\<lambda>e. if e = SpeechProviderError \<or> e = TimeoutError then returnM None else raiseM e)) (\<lambda>t.
           case t of None \<Rightarrow> returnM [] | Some t \<Rightarrow> stable_updates cfg t n)))
      (\<lambda>us s. rolling_inv cfg s \<and> bounded_updates cfg us) (\<lambda>_. rolling_inv cfg)"
      by (intro hoare_bind [OF hoare_pre [OF spend]] hoare_bind [OF hoare_keeps [OF transcribed]] called) simp
  qed
  show ?case
    by (rule hoare_bind [where R = "\<lambda>_. ?P"], rule hoare_read, simp, rule hoare_if, rule hoare_return, simp,
        rule hoare_bind [OF hoare_read paid], simp)
qed

lemma last_bytes_length [simp]: "length (last_bytes n xs) \<le> n"
  by (simp add: last_bytes_def)

lemma consume_pcm_rolls: "rolls cfg (consume_pcm cfg sv pcm n forced)"
proof -
  have take: "keeps (rolling_inv cfg) (modifyM (\<lambda>s. s\<lparr>ro_received := ro_received s + length pcm,
           ro_ring := last_bytes (pcm_bytes (rc_window_seconds cfg)) (ro_ring s @ pcm)\<rparr>))"
    by (rule keeps_modify) (auto simp: rolling_inv_def)
  have mark: "keeps (rolling_inv cfg) (modifyM (\<lambda>s. s\<lparr>ro_last_rolling := ro_received s\<rparr>))"
    by (rule keeps_modify) (auto simp: rolling_inv_def)
  show ?thesis
    unfolding consume_pcm_def
    by (rule keeps_then [OF keeps_guard], rule hoare_if, rule hoare_return, simp, rule keeps_then [OF take],
        rule keeps_then [OF keeps_read], rule hoare_if, rule hoare_return, simp, rule keeps_then [OF mark],
        rule rolling_update_rolls)
qed

lemma rolling_push_rolls: "rolls cfg (rolling_push cfg sv frame n)"
proof -
  have accept: "keeps (rolling_inv cfg) (modifyM (\<lambda>s. s\<lparr>ro_first_frame := False, ro_last_sequence := n,
       ro_bytes_received := ro_bytes_received s + length frame\<rparr>))"
    by (rule keeps_modify) simp
  show ?thesis
    unfolding rolling_push_def
    by (intro keeps_then accept consume_pcm_rolls decode_keeps ensure_local hoare_rules) simp_all
qed

text \<open>What \<^verbatim>\<open>finish\<close> returns in a state: at most two updates, the last of which is the final one with the latest text.\<close>

definition finished :: "rolling_config \<Rightarrow> streaming_update list \<Rightarrow> 'w rolling \<Rightarrow> bool" where
  "finished cfg us s \<longleftrightarrow> length us \<le> 2 \<and> list_all (update_ok (rc_max_text_bytes cfg)) us
     \<and> list_all (\<lambda>u. \<not> up_final u) (butlast us)
     \<and> (ro_latest s \<noteq> [] \<longrightarrow> us \<noteq> [] \<and> up_final (last us) \<and> up_text (last us) = ro_latest s)"

lemma finished_frame [simp]:
  "finished cfg us (s\<lparr>ro_world := w\<rparr>) \<longleftrightarrow> finished cfg us s" "finished cfg us (s\<lparr>ro_closed := b\<rparr>) \<longleftrightarrow> finished cfg us s"
  by (simp_all add: finished_def)

lemma finalise_ok:
  assumes "bounded_updates cfg ups"
  shows "hoare (rolling_inv cfg) (finalise ups) (\<lambda>us s. rolling_inv cfg s \<and> finished cfg us s) (\<lambda>_. rolling_inv cfg)"
proof (rule hoareI)
  fix s s' :: "'w rolling" and us
  assume inv: "rolling_inv cfg s" and run: "finalise ups s = (Inr us, s')"
  have ok: "words_ok (ro_previous s)" "ro_latest s = join_space (ro_previous s)"
    and fits: "ro_previous s \<noteq> [] \<Longrightarrow> text_fits (rc_max_text_bytes cfg) (ro_latest s)"
    using inv by (auto simp: rolling_inv_def)
  consider "ups = []" | u where "ups = [u]" "update_ok (rc_max_text_bytes cfg) u" "\<not> up_final u"
    using assms by (cases ups) (auto simp: bounded_updates_def)
  then show "rolling_inv cfg s' \<and> finished cfg us s'"
  proof cases
    case 1
    then show ?thesis
      using run inv ok fits join_space_strip [OF ok(1)]
      by (auto simp: finalise_def finished_def comp_iffs make_update_ok update_ok_iff split: if_splits)
  next
    case (2 u)
    then show ?thesis
      using run inv ok fits join_space_strip [OF ok(1)]
      by (auto simp: finalise_def finished_def comp_iffs result_iffs make_update_ok update_ok_iff split: if_splits)
  qed
next
  fix s s' :: "'w rolling" and e
  assume "rolling_inv cfg s" and "finalise ups s = (Inl e, s')"
  moreover have "keeps (rolling_inv cfg) (finalise ups :: ('w rolling, streaming_update list) comp)"
    unfolding finalise_def by (intro hoare_rules)
  ultimately show "rolling_inv cfg s'" by (rule keepsD [rotated])
qed

lemma finish_updates_ok:
  "hoare (rolling_inv cfg) (finish_updates cfg sv)
    (\<lambda>us s. rolling_inv cfg s \<and> finished cfg us s) (\<lambda>_. rolling_inv cfg)"
proof -
  have consumed: "hoare (rolling_inv cfg) (consume_pcm cfg sv pcm n forced)
      (\<lambda>us s. rolling_inv cfg s \<and> bounded_updates cfg us \<and> (pcm = [] \<longrightarrow> us = [])) (\<lambda>_. rolling_inv cfg)" for pcm n forced
  proof (cases "pcm = []")
    case True
    then show ?thesis
      unfolding consume_pcm_def by (intro keeps_then [OF keeps_guard]) (simp add: hoare_return)
  next
    case False
    then show ?thesis by (intro hoare_weaken [OF consume_pcm_rolls]) simp_all
  qed
  have mark: "keeps (rolling_inv cfg) (modifyM (\<lambda>s. s\<lparr>ro_last_rolling := ro_received s\<rparr>))"
    by (rule keeps_modify) (auto simp: rolling_inv_def)
  have more: "rolls cfg (if b then bindM (modifyM (\<lambda>s. s\<lparr>ro_last_rolling := ro_received s\<rparr>)) (\<lambda>_. rolling_update cfg sv n)
      else returnM [])" for b n
    by (rule hoare_if, rule keeps_then [OF mark], rule rolling_update_rolls, rule hoare_return, simp)
  show ?thesis
    unfolding finish_updates_def
  proof (rule keeps_then [OF ensure_local], simp, rule keeps_then [OF finish_decoder_keeps], rule keeps_then [OF keeps_read],
      rule hoare_bind [OF consumed], goal_cases)
    case (1 u pcm n ups)
    let ?I = "\<lambda>s. rolling_inv cfg s \<and> bounded_updates cfg ups \<and> (pcm = [] \<longrightarrow> ups = [])"
    show ?case
    proof (rule hoare_bind [where R = "\<lambda>b s. ?I s \<and> (b \<longrightarrow> pcm = [])"], rule hoare_read, simp, rule hoare_bind)
      fix b
      show "hoare (\<lambda>s. ?I s \<and> (b \<longrightarrow> pcm = []))
         (if b then bindM (modifyM (\<lambda>s. s\<lparr>ro_last_rolling := ro_received s\<rparr>)) (\<lambda>_. rolling_update cfg sv n) else returnM [])
         (\<lambda>us s. rolling_inv cfg s \<and> bounded_updates cfg (ups @ us)) (\<lambda>_. rolling_inv cfg)"
      proof (rule hoare_if)
        show "hoare (\<lambda>s. ?I s \<and> (b \<longrightarrow> pcm = [])) (bindM (modifyM (\<lambda>s. s\<lparr>ro_last_rolling := ro_received s\<rparr>)) (\<lambda>_. rolling_update cfg sv n))
          (\<lambda>us s. rolling_inv cfg s \<and> bounded_updates cfg (ups @ us)) (\<lambda>_. rolling_inv cfg)" if b
        proof (cases "ups = []")
          case True
          then show ?thesis by (intro hoare_weaken [OF more [of True n, simplified]]) simp_all
        next
          case False
          then show ?thesis using that by (auto intro: hoareI)
        qed
        show "hoare (\<lambda>s. ?I s \<and> (b \<longrightarrow> pcm = [])) (returnM [])
          (\<lambda>us s. rolling_inv cfg s \<and> bounded_updates cfg (ups @ us)) (\<lambda>_. rolling_inv cfg)"
          by (rule hoare_return) simp
      qed
    next
      fix more
      show "hoare (\<lambda>s. rolling_inv cfg s \<and> bounded_updates cfg (ups @ more)) (finalise (ups @ more))
        (\<lambda>us s. rolling_inv cfg s \<and> finished cfg us s) (\<lambda>_. rolling_inv cfg)"
      proof (cases "bounded_updates cfg (ups @ more)")
        case True
        then show ?thesis by (intro hoare_pre [OF finalise_ok]) simp_all
      qed (auto intro: hoareI)
    qed
  qed
qed

lemma rolling_close_closes: "rolling_close cfg sv s = (r, s') \<Longrightarrow> ro_closed s'"
  by (auto simp: rolling_close_def bindM_def readM_def modifyM_def returnM_def in_world_def split: if_splits prod.splits)

lemma rolling_push_closed: "ro_closed s \<Longrightarrow> rolling_push cfg sv frame n s = (r, s') \<Longrightarrow> \<not> is_ok r \<and> ro_closed s'"
  by (auto simp: rolling_push_def ensure_within_duration_def requireM_def bindM_def in_world_def readM_def guardM_def
      split: if_splits prod.splits sum.splits)

lemma rolling_finish_closes: "rolling_finish cfg sv s = (r, s') \<Longrightarrow> ro_closed s'"
  by (auto simp: rolling_finish_def bindM_def readM_def returnM_def finallyM_def dest: rolling_close_closes
      split: if_splits prod.splits sum.splits)

lemma close_finished: "keeps (finished cfg us) (rolling_close cfg sv)"
  unfolding rolling_close_def by (intro hoare_rules in_world_local keeps_modify) simp_all

lemma rolling_finish_eq:
  "rolling_finish cfg sv s = (if ro_closed s then (Inr [], s) else finallyM (finish_updates cfg sv) (rolling_close cfg sv) s)"
  by (simp add: rolling_finish_def bindM_def readM_def returnM_def)

lemma rolling_end:
  "hoare (rolling_inv cfg) (finallyM (finish_updates cfg sv) (rolling_close cfg sv))
    (\<lambda>us s. rolling_inv cfg s \<and> finished cfg us s) (\<lambda>_. rolling_inv cfg)"
  by (rule hoare_finally [OF finish_updates_ok close_keeps close_finished])

lemma rolling_finish_keeps: "keeps (rolling_inv cfg) (rolling_finish cfg sv)"
proof -
  have "keeps (rolling_inv cfg) (finallyM (finish_updates cfg sv) (rolling_close cfg sv))"
    unfolding keeps_def by (rule hoare_weaken [OF rolling_end]) simp_all
  then show ?thesis by (intro keepsI) (auto simp: rolling_finish_eq dest: keepsD split: if_splits)
qed

lemma rolling_finish_updates:
  assumes "rolling_inv cfg s" "rolling_finish cfg sv s = (Inr us, s')"
  shows "if ro_closed s then us = [] \<and> s' = s else finished cfg us s'"
  using hoare_ok [OF rolling_end assms(1)] assms(2) by (auto simp: rolling_finish_eq)

interpretation ro: stream_session "rolling_push cfg sv" "rolling_finish cfg sv" "rolling_close cfg sv" "rolling_inv cfg" ro_closed
    "rc_max_text_bytes cfg" 2 for cfg sv
proof
  fix frame :: bytes and n us and s s' :: "'a rolling" and r :: "exn + streaming_update list" and q
  show "keeps (rolling_inv cfg) (rolling_push cfg sv frame n)"
    unfolding keeps_def by (rule hoare_weaken [OF rolling_push_rolls]) simp_all
  show "keeps (rolling_inv cfg) (rolling_finish cfg sv)"
    by (rule rolling_finish_keeps)
  show "keeps (rolling_inv cfg) (rolling_close cfg sv)" by (rule close_keeps)
  show "length us \<le> 2 \<and> list_all (update_ok (rc_max_text_bytes cfg)) us"
    if "rolling_inv cfg s" "rolling_push cfg sv frame n s = (Inr us, s')"
    using hoare_ok [OF rolling_push_rolls that] by (auto simp: bounded_updates_def list_all_iff)
  show "length us \<le> 2 \<and> list_all (update_ok (rc_max_text_bytes cfg)) us"
    if "rolling_inv cfg s" "rolling_finish cfg sv s = (Inr us, s')"
    using rolling_finish_updates [OF that] by (auto simp: finished_def split: if_splits)
  show "\<not> is_ok r \<and> ro_closed s'" if "ro_closed s" "rolling_push cfg sv frame n s = (r, s')"
    by (rule rolling_push_closed [OF that])
  show "ro_closed s'" if "rolling_finish cfg sv s = (r, s')" by (rule rolling_finish_closes [OF that])
  show "rolling_finish cfg sv s = (Inr [], s)" if "ro_closed s"
    using that by (simp add: rolling_finish_def bindM_def readM_def returnM_def)
  show "ro_closed s'" if "rolling_close cfg sv s = (q, s')" by (rule rolling_close_closes [OF that])
  show "rolling_close cfg sv s = (Inr (), s)" if "ro_closed s"
    using that by (simp add: rolling_close_def bindM_def readM_def returnM_def)
qed

section \<open>The ring holds the end of the audio\<close>

lemma last_bytes_append: "last_bytes n (last_bytes n xs @ ys) = last_bytes n (xs @ ys)"
  by (cases "length xs \<le> n") (auto simp: last_bytes_def add.commute)

definition holds_audio :: "rolling_config \<Rightarrow> bytes \<Rightarrow> nat \<Rightarrow> 'w rolling \<Rightarrow> bool" where
  "holds_audio cfg audio n s \<longleftrightarrow>
     ro_ring s = last_bytes (pcm_bytes (rc_window_seconds cfg)) audio \<and> ro_received s = length audio
     \<and> ro_bytes_received s = length audio \<and> ro_last_sequence s = n"

lemma holds_audio_frame [simp]:
  "holds_audio cfg audio n (s\<lparr>ro_world := w\<rparr>) \<longleftrightarrow> holds_audio cfg audio n s"
  "holds_audio cfg audio n (s\<lparr>ro_exhausted := b\<rparr>) \<longleftrightarrow> holds_audio cfg audio n s"
  "holds_audio cfg audio n (s\<lparr>ro_calls := c, ro_audio := a\<rparr>) \<longleftrightarrow> holds_audio cfg audio n s"
  "holds_audio cfg audio n (s\<lparr>ro_committed := ws\<rparr>) \<longleftrightarrow> holds_audio cfg audio n s"
  "holds_audio cfg audio n (s\<lparr>ro_previous := ws, ro_latest := t\<rparr>) \<longleftrightarrow> holds_audio cfg audio n s"
  "holds_audio cfg audio n (s\<lparr>ro_last_rolling := k\<rparr>) \<longleftrightarrow> holds_audio cfg audio n s"
  by (simp_all add: holds_audio_def)

lemma rolling_update_local:
  assumes "\<And>s w. P (s\<lparr>ro_world := w\<rparr>) \<longleftrightarrow> P s" "\<And>s b. P (s\<lparr>ro_exhausted := b\<rparr>) \<longleftrightarrow> P s"
    "\<And>s c a. P (s\<lparr>ro_calls := c, ro_audio := a\<rparr>) \<longleftrightarrow> P s" "\<And>s ws. P (s\<lparr>ro_committed := ws\<rparr>) \<longleftrightarrow> P s"
    "\<And>s ws t. P (s\<lparr>ro_previous := ws, ro_latest := t\<rparr>) \<longleftrightarrow> P s"
  shows "keeps P (rolling_update cfg sv n)"
  unfolding rolling_update_def stable_updates_def
  by (intro hoare_rules in_world_local keeps_modify) (simp_all add: assms)

lemma rolling_update_holds: "keeps (holds_audio cfg audio k) (rolling_update cfg sv n)"
  by (rule rolling_update_local) simp_all

lemma consume_pcm_holds:
  "hoare (\<lambda>s. holds_audio cfg audio k (s\<lparr>ro_bytes_received := length audio\<rparr>) \<and> ro_bytes_received s = length (audio @ pcm))
     (consume_pcm cfg sv pcm n forced)
     (\<lambda>us s. holds_audio cfg (audio @ pcm) k s \<and> even (length pcm)) (\<lambda>_ _. True)"
proof -
  let ?P = "\<lambda>s. holds_audio cfg audio k (s\<lparr>ro_bytes_received := length audio\<rparr>) \<and> ro_bytes_received s = length (audio @ pcm)"
  let ?Q = "\<lambda>s. holds_audio cfg (audio @ pcm) k s \<and> even (length pcm)"
  have mark: "keeps ?Q (modifyM (\<lambda>s. s\<lparr>ro_last_rolling := ro_received s\<rparr>))"
    by (rule keeps_modify) simp
  have update: "hoare ?Q (rolling_update cfg sv n) (\<lambda>_. ?Q) (\<lambda>_ _. True)"
    by (rule hoare_weaken [OF hoare_keeps [OF rolling_update_local [where P = ?Q]]]) simp_all
  show ?thesis
    unfolding consume_pcm_def
  proof (rule hoare_bind [where R = "\<lambda>_ s. ?P s \<and> even (length pcm)"], rule hoare_guard, simp add: even_iff_mod_2_eq_zero, simp, rule hoare_if)
    assume "pcm = []"
    then show "hoare (\<lambda>s. ?P s \<and> even (length pcm)) (returnM []) (\<lambda>us. ?Q) (\<lambda>_ _. True)"
      by (intro hoare_return) (auto simp: holds_audio_def)
  next
    show "hoare (\<lambda>s. ?P s \<and> even (length pcm))
       (bindM (modifyM (\<lambda>s. s\<lparr>ro_received := ro_received s + length pcm,
           ro_ring := last_bytes (pcm_bytes (rc_window_seconds cfg)) (ro_ring s @ pcm)\<rparr>)) (\<lambda>_.
         bindM (readM (\<lambda>s. pcm_bytes (rc_step_seconds cfg) \<le> ro_received s - ro_last_rolling s)) (\<lambda>ready.
           if \<not> forced \<and> \<not> ready then returnM []
           else bindM (modifyM (\<lambda>s. s\<lparr>ro_last_rolling := ro_received s\<rparr>)) (\<lambda>_. rolling_update cfg sv n))))
       (\<lambda>us. ?Q) (\<lambda>_ _. True)"
      by (rule hoare_bind [where R = "\<lambda>_. ?Q"], rule hoare_modify, simp add: holds_audio_def last_bytes_append,
          rule hoare_bind [where R = "\<lambda>_. ?Q"], rule hoare_read, assumption, rule hoare_if, rule hoare_return, assumption,
          rule hoare_bind [OF hoare_weaken [OF hoare_keeps [OF mark]] update]) simp_all
  qed
qed

lemma rolling_push_holds:
  assumes pcm: "\<not> is_ogg cfg"
  shows "hoare (holds_audio cfg audio k) (rolling_push cfg sv frame n)
    (\<lambda>us s. holds_audio cfg (audio @ frame) n s \<and> n = Suc k \<and> frame \<noteq> [] \<and> even (length frame)
       \<and> length frame \<le> rc_max_frame_bytes cfg \<and> length (audio @ frame) \<le> rc_max_session_bytes cfg) (\<lambda>_ _. True)"
proof (rule hoareI)
  fix s s' :: "'a rolling" and us
  assume start: "holds_audio cfg audio k s" and run: "rolling_push cfg sv frame n s = (Inr us, s')"
  then obtain s1 where s1: "ensure_within_duration cfg sv s = (Inr (), s1)" "n = ro_last_sequence s1 + 1"
    and frame: "validate_stream_frame (rc_start cfg) frame (ro_first_frame s1) = Inr ()"
    "length frame \<le> rc_max_frame_bytes cfg" "ro_bytes_received s1 + length frame \<le> rc_max_session_bytes cfg"
    and consumed: "consume_pcm cfg sv frame n False (s1\<lparr>ro_first_frame := False, ro_last_sequence := n,
       ro_bytes_received := ro_bytes_received s1 + length frame\<rparr>) = (Inr us, s')"
    using pcm by (auto simp: rolling_push_def requireM_def decode_def comp_iffs)
  have "holds_audio cfg audio k s1"
    by (rule keepsD [OF ensure_local [of "holds_audio cfg audio k"] start s1(1)]) simp
  then show "holds_audio cfg (audio @ frame) n s' \<and> n = Suc k \<and> frame \<noteq> [] \<and> even (length frame)
       \<and> length frame \<le> rc_max_frame_bytes cfg \<and> length (audio @ frame) \<le> rc_max_session_bytes cfg"
    using hoare_ok [OF consume_pcm_holds [of cfg audio n frame sv n False] _ consumed] s1 frame
    by (auto simp: holds_audio_def validate_stream_frame_def)
qed simp

lemma push_all_holds:
  assumes pcm: "\<not> is_ogg cfg"
  shows "push_all (rolling_push cfg sv) (Suc k) frames s = (Inr us, s') \<Longrightarrow> holds_audio cfg audio k s \<Longrightarrow>
     length audio \<le> rc_max_session_bytes cfg \<Longrightarrow>
     holds_audio cfg (audio @ concat frames) (k + length frames) s' \<and> length (audio @ concat frames) \<le> rc_max_session_bytes cfg
       \<and> list_all (\<lambda>f. f \<noteq> [] \<and> even (length f) \<and> length f \<le> rc_max_frame_bytes cfg) frames"
proof (induction frames arbitrary: k s us audio)
  case (Cons f fs)
  then obtain us1 s1 us2 where run: "rolling_push cfg sv f (Suc k) s = (Inr us1, s1)"
      "push_all (rolling_push cfg sv) (Suc (Suc k)) fs s1 = (Inr us2, s')"
    by (auto simp: comp_iffs)
  note step = hoare_ok [OF rolling_push_holds [OF pcm] Cons.prems(2) run(1)]
  show ?case using Cons.IH [OF run(2), of "audio @ f"] step by simp
qed (simp add: comp_iffs)

section \<open>Stable prefixes only grow\<close>

definition stable_counts :: "streaming_update list \<Rightarrow> nat list" where
  "stable_counts us = map (\<lambda>u. length (split_by (\<lambda>c. c = 32) (up_text u))) (filter up_stable_prefix us)"

definition commits :: "nat \<Rightarrow> streaming_update list \<Rightarrow> nat \<Rightarrow> bool" where
  "commits k us l \<longleftrightarrow> k \<le> l \<and> sorted_wrt (<) (stable_counts us) \<and> list_all (\<lambda>m. k < m \<and> m \<le> l) (stable_counts us)"

lemma commits_Nil [simp]: "commits k [] l \<longleftrightarrow> k \<le> l"
  by (simp add: commits_def stable_counts_def)

lemma commits_append: "commits k us l \<Longrightarrow> commits l vs m \<Longrightarrow> commits k (us @ vs) m"
  by (fastforce simp: commits_def stable_counts_def list_all_iff sorted_wrt_append)

definition grows :: "rolling_config \<Rightarrow> ('w rolling, streaming_update list) comp \<Rightarrow> bool" where
  "grows cfg m \<longleftrightarrow> (\<forall>s us s'. rolling_inv cfg s \<longrightarrow> m s = (Inr us, s') \<longrightarrow>
     commits (length (ro_committed s)) us (length (ro_committed s')))"

definition same_committed :: "pystr list \<Rightarrow> 'w rolling \<Rightarrow> bool" where
  "same_committed ws s \<longleftrightarrow> ro_committed s = ws"

lemma grows_return: "grows cfg (returnM [])"
  by (simp add: grows_def comp_iffs)

lemma grows_then:
  assumes "\<And>ws. keeps (\<lambda>s. rolling_inv cfg s \<and> same_committed ws s) m" "\<And>x. grows cfg (f x)"
  shows "grows cfg (bindM m f)"
  unfolding grows_def
proof (intro allI impI)
  fix s us s'
  assume inv: "rolling_inv cfg s" and "bindM m f s = (Inr us, s')"
  then obtain x s1 where run: "m s = (Inr x, s1)" "f x s1 = (Inr us, s')"
    by (auto simp: comp_iffs)
  have "rolling_inv cfg s1 \<and> same_committed (ro_committed s) s1"
    using keepsD [OF assms(1) _ run(1), of "ro_committed s"] inv by (simp add: same_committed_def)
  then show "commits (length (ro_committed s)) us (length (ro_committed s'))"
    using assms(2) [of x] run(2) unfolding grows_def same_committed_def by metis
qed

lemma grows_if: "(b \<Longrightarrow> grows cfg m) \<Longrightarrow> (\<not> b \<Longrightarrow> grows cfg n) \<Longrightarrow> grows cfg (if b then m else n)"
  by simp

lemma stable_updates_grows: "grows cfg (stable_updates cfg t n)"
  unfolding grows_def
proof (intro allI impI)
  fix s us s'
  assume inv: "rolling_inv cfg s" and run: "stable_updates cfg t n s = (Inr us, s')"
  have ok: "words_ok (ro_previous s)" using inv by (simp add: rolling_inv_def)
  show "commits (length (ro_committed s)) us (length (ro_committed s'))"
    using run words_ok_prefix [OF ok common_prefix_left, of "py_split t"] split_join_space
    by (cases "common_prefix (ro_previous s) (py_split t) = []")
      (auto simp: stable_updates_eq [OF ok] Let_def commits_def stable_counts_def plain_update_def split_join_space
        split: sum.splits if_splits)
qed

lemma same_committed_frame [simp]:
  "same_committed ws (s\<lparr>ro_world := w\<rparr>) \<longleftrightarrow> same_committed ws s"
  "same_committed ws (s\<lparr>ro_exhausted := b\<rparr>) \<longleftrightarrow> same_committed ws s"
  "same_committed ws (s\<lparr>ro_calls := c, ro_audio := a\<rparr>) \<longleftrightarrow> same_committed ws s"
  "same_committed ws (s\<lparr>ro_last_rolling := k\<rparr>) \<longleftrightarrow> same_committed ws s"
  "same_committed ws (s\<lparr>ro_ogg := v\<rparr>) \<longleftrightarrow> same_committed ws s"
  "same_committed ws (s\<lparr>ro_header := h\<rparr>) \<longleftrightarrow> same_committed ws s"
  "same_committed ws (s\<lparr>ro_header_verified := b\<rparr>) \<longleftrightarrow> same_committed ws s"
  "same_committed ws (s\<lparr>ro_received := k, ro_ring := bs\<rparr>) \<longleftrightarrow> same_committed ws s"
  "same_committed ws (s\<lparr>ro_first_frame := b, ro_last_sequence := k, ro_bytes_received := j\<rparr>) \<longleftrightarrow> same_committed ws s"
  by (simp_all add: same_committed_def)

text \<open>The call that is left once the ring is worth a call and the budget allows it.\<close>

definition transcription :: "'w rolling_services \<Rightarrow> bytes \<Rightarrow> ('w rolling, pystr option) comp" where
  "transcription sv pcm = catchM (bindM (in_world (rv_transcribe sv pcm)) (\<lambda>t. returnM (Some t)))
     (\<lambda>e. if e = SpeechProviderError \<or> e = TimeoutError then returnM None else raiseM e)"

definition paid :: "'w rolling \<Rightarrow> 'w rolling" where
  "paid s = s\<lparr>ro_calls := ro_calls s + 1, ro_audio := dbl_add (ro_audio s) (audio_seconds (ro_ring s))\<rparr>"

lemma rolling_update_eq:
  "rolling_update cfg sv n s =
     (if ro_exhausted s \<or> ro_ring s = [] \<or> \<not> has_pcm_energy (rc_energy_threshold cfg) (ro_ring s) then (Inr [], s)
      else if rc_max_calls cfg \<le> ro_calls s \<or> rc_max_audio cfg < dbl_add (ro_audio s) (audio_seconds (ro_ring s))
      then (Inr [], s\<lparr>ro_exhausted := True\<rparr>)
      else bindM (transcription sv (ro_ring s)) (\<lambda>t. case t of None \<Rightarrow> returnM [] | Some t \<Rightarrow> stable_updates cfg t n) (paid s))"
  by (simp add: rolling_update_def transcription_def paid_def bindM_def [of "readM f" for f] bindM_def [of "modifyM f" for f]
      readM_def modifyM_def returnM_def)

lemma paid_inv:
  "rolling_inv cfg s \<Longrightarrow> \<not> (rc_max_calls cfg \<le> ro_calls s \<or> rc_max_audio cfg < dbl_add (ro_audio s) (audio_seconds (ro_ring s)))
     \<Longrightarrow> rolling_inv cfg (paid s)"
  by (auto simp: rolling_inv_def paid_def le_max_iff_disj not_less not_le)

lemma rolling_update_grows: "grows cfg (rolling_update cfg sv n)"
proof -
  have transcribed: "keeps (\<lambda>s. rolling_inv cfg s \<and> same_committed ws s) (transcription sv pcm)" for ws pcm
    unfolding transcription_def by (intro hoare_rules in_world_local) simp
  have called: "grows cfg (case t of None \<Rightarrow> returnM [] | Some t \<Rightarrow> stable_updates cfg t n)" for t
    by (cases t) (simp_all add: grows_return stable_updates_grows)
  show ?thesis
    unfolding grows_def
  proof (intro allI impI)
    fix s us s'
    assume inv: "rolling_inv cfg s" and run: "rolling_update cfg sv n s = (Inr us, s')"
    have "ro_committed (paid s) = ro_committed s" by (simp add: paid_def)
    then show "commits (length (ro_committed s)) us (length (ro_committed s'))"
      using run paid_inv [OF inv] grows_then [OF transcribed called, of "ro_ring s"]
      by (fastforce simp: rolling_update_eq grows_def split: if_splits)
  qed
qed

lemma consume_pcm_grows: "grows cfg (consume_pcm cfg sv pcm n forced)"
proof -
  have take: "keeps (rolling_inv cfg) (modifyM (\<lambda>s. s\<lparr>ro_received := ro_received s + length pcm,
           ro_ring := last_bytes (pcm_bytes (rc_window_seconds cfg)) (ro_ring s @ pcm)\<rparr>))"
    by (rule keeps_modify) (auto simp: rolling_inv_def)
  have mark: "keeps (rolling_inv cfg) (modifyM (\<lambda>s. s\<lparr>ro_last_rolling := ro_received s\<rparr>))"
    by (rule keeps_modify) (auto simp: rolling_inv_def)
  show ?thesis
    unfolding consume_pcm_def
    by (intro grows_then grows_if grows_return rolling_update_grows keeps_conj hoare_rules take mark keeps_modify) simp_all
qed

lemma rolling_push_grows: "grows cfg (rolling_push cfg sv frame n)"
proof -
  have "keeps (same_committed ws) (feed_ogg f)" for ws f
    by (rule keepsI) (auto simp: feed_ogg_def split: prod.splits)
  then have decoded: "keeps (same_committed ws) (decode cfg sv frame)" for ws
    unfolding decode_def by (intro hoare_rules in_world_local keeps_modify) simp_all
  show ?thesis
    unfolding rolling_push_def
    by (intro grows_then consume_pcm_grows keeps_conj decode_keeps decoded ensure_local hoare_rules keeps_modify) simp_all
qed

lemma push_all_grows: "grows cfg (push_all (rolling_push cfg sv) n frames)"
proof (induction frames arbitrary: n)
  case (Cons f fs)
  show ?case
    unfolding grows_def
  proof (intro allI impI)
    fix s us s'
    assume inv: "rolling_inv cfg s" and "push_all (rolling_push cfg sv) n (f # fs) s = (Inr us, s')"
    then obtain us1 s1 us2 where run: "rolling_push cfg sv f n s = (Inr us1, s1)"
        "push_all (rolling_push cfg sv) (Suc n) fs s1 = (Inr us2, s')" "us = us1 @ us2"
      by (auto simp: comp_iffs)
    have "rolling_inv cfg s1" using hoare_ok [OF rolling_push_rolls inv run(1)] by simp
    then show "commits (length (ro_committed s)) us (length (ro_committed s'))"
      using Cons.IH run rolling_push_grows inv unfolding grows_def by (blast intro: commits_append)
  qed
qed (simp add: grows_return)

section \<open>Calls of the transcriber\<close>

definition counts :: "('w \<Rightarrow> nat) \<Rightarrow> nat \<Rightarrow> 'w rolling \<Rightarrow> bool" where
  "counts c k s \<longleftrightarrow> c (ro_world s) \<le> k + ro_calls s"

definition counted :: "('w \<Rightarrow> nat) \<Rightarrow> 'w rolling_services \<Rightarrow> bool" where
  "counted c sv \<longleftrightarrow> (\<forall>w. c (snd (rv_clock sv w)) = c w) \<and> (\<forall>bs w. c (snd (rv_feed sv bs w)) = c w)
     \<and> (\<forall>w. c (snd (rv_finish sv w)) = c w) \<and> (\<forall>w. c (snd (rv_close sv w)) = c w)
     \<and> (\<forall>bs w. c (snd (rv_transcribe sv bs w)) \<le> Suc (c w))"

lemma counts_frame [simp]:
  "counts c k (s\<lparr>ro_exhausted := b\<rparr>) \<longleftrightarrow> counts c k s" "counts c k (s\<lparr>ro_committed := ws\<rparr>) \<longleftrightarrow> counts c k s"
  "counts c k (s\<lparr>ro_previous := ws, ro_latest := t\<rparr>) \<longleftrightarrow> counts c k s" "counts c k (s\<lparr>ro_last_rolling := n\<rparr>) \<longleftrightarrow> counts c k s"
  "counts c k (s\<lparr>ro_ogg := v\<rparr>) \<longleftrightarrow> counts c k s" "counts c k (s\<lparr>ro_header := h\<rparr>) \<longleftrightarrow> counts c k s"
  "counts c k (s\<lparr>ro_header_verified := b\<rparr>) \<longleftrightarrow> counts c k s" "counts c k (s\<lparr>ro_received := n, ro_ring := bs\<rparr>) \<longleftrightarrow> counts c k s"
  "counts c k (s\<lparr>ro_closed := b\<rparr>) \<longleftrightarrow> counts c k s"
  "counts c k (s\<lparr>ro_first_frame := b, ro_last_sequence := n, ro_bytes_received := j\<rparr>) \<longleftrightarrow> counts c k s"
  by (simp_all add: counts_def)

lemma in_world_counts:
  assumes "\<And>w. c (snd (m w)) = c w"
  shows "keeps (counts c k) (in_world m)"
proof (rule keepsI)
  fix s r s'
  assume "counts c k s" "in_world m s = (r, s')"
  then show "counts c k s'"
    using assms [of "ro_world s"] by (auto simp: counts_def in_world_def split: prod.splits)
qed

lemma stable_updates_counts: "keeps (counts c k) (stable_updates cfg t n)"
  unfolding stable_updates_def by (intro hoare_rules keeps_modify) simp_all

lemma ensure_counts:
  assumes "counted c sv"
  shows "keeps (counts c k) (ensure_within_duration cfg sv)"
proof -
  have "c (snd (case rv_clock sv w of (t, w') \<Rightarrow> (Inr t :: exn + double, w'))) = c w" for w
    using assms unfolding counted_def by (metis (no_types, lifting) case_prod_beta snd_conv)
  then show ?thesis
    unfolding ensure_within_duration_def by (intro hoare_rules in_world_counts) simp
qed

lemma transcription_counts:
  assumes c: "counted c sv" and s: "counts c k s" and run: "transcription sv pcm (paid s) = (r, s')"
  shows "counts c k s'"
proof -
  obtain q w where "rv_transcribe sv pcm (ro_world s) = (q, w)" by fastforce
  moreover from this have "c w \<le> Suc (c (ro_world s))" using c unfolding counted_def by (metis snd_conv)
  ultimately show ?thesis
    using s run
    by (auto simp: transcription_def catchM_def bindM_def in_world_def paid_def returnM_def raiseM_def counts_def
        split: sum.splits if_splits)
qed

lemma rolling_update_counts:
  assumes c: "counted c sv"
  shows "keeps (counts c k) (rolling_update cfg sv n)"
proof (rule keepsI)
  fix s r s'
  assume s: "counts c k s" and run: "rolling_update cfg sv n s = (r, s')"
  have called: "keeps (counts c k) (case t of None \<Rightarrow> returnM [] | Some t \<Rightarrow> stable_updates cfg t n)" for t
    by (cases t) (simp_all add: stable_updates_counts keeps_return)
  show "counts c k s'"
    using run s transcription_counts [OF c s] keepsD [OF called]
    by (auto simp: rolling_update_eq bindM_def split: if_splits prod.splits sum.splits; blast)
qed

lemma consume_pcm_counts: "counted c sv \<Longrightarrow> keeps (counts c k) (consume_pcm cfg sv pcm n forced)"
  unfolding consume_pcm_def by (intro hoare_rules keeps_modify rolling_update_counts) simp_all

lemma rolling_push_counts:
  assumes c: "counted c sv"
  shows "keeps (counts c k) (rolling_push cfg sv frame n)"
proof -
  have "keeps (counts c k) (feed_ogg f)" for f
    by (rule keepsI) (auto simp: feed_ogg_def split: prod.splits)
  moreover have "keeps (counts c k) (in_world (rv_feed sv bs))" for bs
    using c by (intro in_world_counts) (simp add: counted_def)
  ultimately have "keeps (counts c k) (decode cfg sv frame)"
    unfolding decode_def by (intro hoare_rules keeps_modify) simp_all
  then show ?thesis
    unfolding rolling_push_def by (intro hoare_rules keeps_modify ensure_counts consume_pcm_counts c) simp_all
qed

lemma rolling_finish_counts:
  assumes c: "counted c sv"
  shows "keeps (counts c k) (rolling_finish cfg sv)"
proof -
  have "keeps (counts c k) (in_world (rv_close sv))" "keeps (counts c k) (in_world (rv_finish sv))"
    using c by (auto intro!: in_world_counts simp: counted_def)
  then show ?thesis
    unfolding rolling_finish_def finish_updates_def rolling_close_def finish_decoder_def finalise_def
    by (intro hoare_rules keeps_finally keeps_modify ensure_counts consume_pcm_counts rolling_update_counts c) simp_all
qed

lemma push_all_counts: "counted c sv \<Longrightarrow> keeps (counts c k) (push_all (rolling_push cfg sv) n frames)"
  by (induction frames arbitrary: n) (auto intro!: hoare_rules rolling_push_counts)

section \<open>An example session\<close>

definition demo_cfg :: rolling_config where
  "demo_cfg = \<lparr>rc_start = \<lparr>ss_codec = PCM_S16LE, ss_sample_rate = 16000, ss_channels = 1\<rparr>, rc_max_frame_bytes = 1000,
     rc_max_session_bytes = 10000, rc_max_duration = 300, rc_window_seconds = 1, rc_step_seconds = 1 / 128, rc_max_calls = 3,
     rc_max_audio = 180, rc_energy_threshold = 16, rc_max_text_bytes = 100\<rparr>"

text \<open>A transcriber that hears \<^verbatim>\<open>a b\<close> first and \<^verbatim>\<open>a c\<close> from then on; its world counts the calls.\<close>

definition demo_services :: "nat rolling_services" where
  "demo_services = \<lparr>rv_clock = (\<lambda>w. (0, w)), rv_feed = (\<lambda>bs w. (Inr [], w)), rv_finish = (\<lambda>w. (Inr [], w)),
     rv_close = (\<lambda>w. (Inr (), w)),
     rv_transcribe = (\<lambda>bs w. (Inr (if w = 0 then [97, 32, 98] else [97, 32, 99]), Suc w))\<rparr>"

definition demo_frame :: bytes where
  "demo_frame = [0, 64] @ replicate 248 0"

abbreviation demo_first :: streaming_update where
  "demo_first \<equiv> \<lparr>up_sequence = 1, up_text = [97, 32, 98], up_stable_prefix = False, up_final = False\<rparr>"

abbreviation demo_second :: streaming_update where
  "demo_second \<equiv> \<lparr>up_sequence = 2, up_text = [97], up_stable_prefix = True, up_final = False\<rparr>"

abbreviation demo_last :: streaming_update where
  "demo_last \<equiv> \<lparr>up_sequence = 2, up_text = [97, 32, 99], up_stable_prefix = True, up_final = True\<rparr>"

lemma dbl_power: "0 \<le> m \<Longrightarrow> m \<le> 2 ^ 53 \<Longrightarrow> dbl (of_int m / 2 ^ k) = of_int m / 2 ^ k"
  using dbl_exact [of m "- int k"] by (simp add: power_int_minus field_simps)

lemma demo_numbers:
  "dbl 32000 = 32000" "dbl 250 = 250" "dbl (1 / 128) = 1 / 128" "dbl (1 / 64) = 1 / 64" "dbl (3 / 128) = 3 / 128"
  using dbl_power [of 32000 0] dbl_power [of 250 0] dbl_power [of 1 7] dbl_power [of 1 6] dbl_power [of 3 7] by simp_all

lemma demo_texts:
  "py_split [97, 32, 98] = [[97], [98]]" "py_split [97, 32, 99] = [[97], [99]]"
  "split_by (\<lambda>c. c = 32) [97, 32, 98] = [[97], [98 :: nat]]" "split_by (\<lambda>c. c = 32) [97, 32, 99] = [[97], [99 :: nat]]"
  "utf8_length [97, 32, 98] = Inr 3" "utf8_length [97, 32, 99] = Inr 3"
  "common_prefix [[97], [98]] [[97], [99 :: nat]] = [[97]]"
  "make_update (Suc 0) [97, 32, 98] False False = Inr demo_first" "make_update (Suc (Suc 0)) [97] True False = Inr demo_second"
  "make_update (Suc (Suc 0)) [97, 32, 99] True True = Inr demo_last"
  by code_simp+

lemma demo_frame_facts:
  "length demo_frame = 250" "demo_frame \<noteq> []" "has_pcm_energy 16 demo_frame" "has_pcm_energy 16 (demo_frame @ demo_frame)"
  by (simp_all add: demo_frame_def signed_value_def)

lemmas demo_eval = demo_cfg_def demo_services_def demo_numbers demo_texts demo_frame_facts new_rolling_def rolling_push_def
  ensure_within_duration_def requireM_def in_world_def bindM_def readM_def guardM_def liftE_def modifyM_def returnM_def catchM_def
  validate_stream_frame_def decode_def is_ogg_def consume_pcm_def rolling_update_def stable_updates_def pcm_bytes_def last_bytes_def
  audio_seconds_def dbl_add_def dbl_sub_def dbl_mul_def Let_def

lemma demo_pushes:
  "\<exists>s. push_all (rolling_push demo_cfg demo_services) 1 [demo_frame, demo_frame] (new_rolling demo_cfg demo_services 0)
     = (Inr [demo_first, demo_second], s) \<and> ro_closed s = False \<and> ro_latest s = [97, 32, 99] \<and> ro_committed s = [[97]]
     \<and> ro_received s = 500 \<and> ro_last_rolling s = 500 \<and> ro_opened_at s = 0 \<and> ro_last_sequence s = 2 \<and> ro_world s = 2"
  by (simp add: demo_eval)

lemma demo_finish:
  "ro_closed s = False \<Longrightarrow> ro_latest s = [97, 32, 99] \<Longrightarrow> ro_committed s = [[97]] \<Longrightarrow> ro_received s = 500 \<Longrightarrow>
     ro_last_rolling s = 500 \<Longrightarrow> ro_opened_at s = 0 \<Longrightarrow> ro_last_sequence s = 2 \<Longrightarrow>
     \<exists>s'. rolling_finish demo_cfg demo_services s = (Inr [demo_last], s')"
  by (simp add: rolling_finish_def finallyM_def finish_updates_def finish_decoder_def finalise_def rolling_close_def demo_eval
      numeral_2_eq_2)

section \<open>Properties\<close>

lemma push_all_provisional:
  "rolling_inv cfg s \<Longrightarrow> push_all (rolling_push cfg sv) n frames s = (Inr us, s') \<Longrightarrow>
     length us \<le> length frames \<and> list_all (\<lambda>u. update_ok (rc_max_text_bytes cfg) u \<and> \<not> up_final u) us"
proof (induction frames arbitrary: n s us)
  case (Cons f fs)
  then obtain us1 s1 us2 where run: "rolling_push cfg sv f n s = (Inr us1, s1)"
      "push_all (rolling_push cfg sv) (Suc n) fs s1 = (Inr us2, s')" "us = us1 @ us2"
    by (auto simp: comp_iffs)
  then show ?case
    using hoare_ok [OF rolling_push_rolls Cons.prems(1) run(1)] Cons.IH [OF _ run(2)] by (auto simp: bounded_updates_def)
qed (simp add: comp_iffs)

lemma push_all_open:
  "push_all (rolling_push cfg sv) n frames s = (Inr us, s') \<Longrightarrow> ro_closed s = b \<Longrightarrow> ro_closed s' = b"
proof -
  assume run: "push_all (rolling_push cfg sv) n frames s = (Inr us, s')" and b: "ro_closed s = b"
  have "keeps (\<lambda>s. ro_closed s = b) (feed_ogg f)" for f
    by (rule keepsI) (auto simp: feed_ogg_def split: prod.splits)
  then have "keeps (\<lambda>s. ro_closed s = b) (decode cfg sv f)" for f
    unfolding decode_def by (intro hoare_rules in_world_local keeps_modify) simp_all
  then have "keeps (\<lambda>s. ro_closed s = b) (rolling_push cfg sv f n)" for f n
    unfolding rolling_push_def consume_pcm_def
    by (intro hoare_rules ensure_local rolling_update_local keeps_modify) simp_all
  then have "keeps (\<lambda>s. ro_closed s = b) (push_all (rolling_push cfg sv) n frames)"
    by (induction frames arbitrary: n) (auto intro!: hoare_rules)
  then show ?thesis using run b by (blast dest: keepsD)
qed

text \<open>
  Property C8. The ring buffer refines the recording: whatever the transcriber answers, after a sequence of accepted
  PCM frames it holds exactly the last bytes of the window of all the audio, none lost or repeated; every
  frame was non-empty, of whole samples and within the limit, and the session's bytes are within theirs.
\<close>

theorem rolling_ring_window:
  assumes "\<not> is_ogg cfg"
    and "push_all (rolling_push cfg sv) 1 frames (new_rolling cfg sv w) = (Inr us, s)"
  shows "ro_ring s = last_bytes (pcm_bytes (rc_window_seconds cfg)) (concat frames)
    \<and> ro_received s = length (concat frames) \<and> length (concat frames) \<le> rc_max_session_bytes cfg
    \<and> list_all (\<lambda>f. f \<noteq> [] \<and> even (length f) \<and> length f \<le> rc_max_frame_bytes cfg) frames
    \<and> ro_last_sequence s = length frames"
proof -
  have "holds_audio cfg [] 0 (new_rolling cfg sv w)"
    by (simp add: holds_audio_def new_rolling_def last_bytes_def split: prod.splits)
  from push_all_holds [OF assms(1) assms(2) [unfolded One_nat_def] this] show ?thesis by (simp add: holds_audio_def)
qed

theorem rolling_ring_window_witness:
  "\<exists>s :: nat rolling. ro_ring s = last_bytes (pcm_bytes 1) (concat [demo_frame, demo_frame]) \<and> ro_latest s = [97, 32, 99]"
proof -
  obtain s where s: "push_all (rolling_push demo_cfg demo_services) 1 [demo_frame, demo_frame] (new_rolling demo_cfg demo_services 0)
      = (Inr [demo_first, demo_second], s)" "ro_latest s = [97, 32, 99]"
    using demo_pushes by blast
  have cfg: "\<not> is_ogg demo_cfg" "rc_window_seconds demo_cfg = 1" by (simp_all add: is_ogg_def demo_cfg_def)
  show ?thesis using rolling_ring_window [OF cfg(1) s(1)] s(2) unfolding cfg(2) by blast
qed

text \<open>
  Property C32. What is announced as stable only grows: among the updates of a run of pushes the ones marked stable
  have strictly increasing numbers of words. There is at most one update per frame, each is valid
  and within the byte limit, and none claims to be final.
\<close>

theorem rolling_stable_grows:
  assumes "push_all (rolling_push cfg sv) 1 frames (new_rolling cfg sv w) = (Inr us, s)"
  shows "sorted_wrt (<) (stable_counts us) \<and> list_all (\<lambda>m. 0 < m \<and> m \<le> length (ro_committed s)) (stable_counts us)
    \<and> length us \<le> length frames \<and> list_all (\<lambda>u. update_ok (rc_max_text_bytes cfg) u \<and> \<not> up_final u) us"
proof -
  have "ro_committed (new_rolling cfg sv w) = []" by (simp add: new_rolling_def split: prod.splits)
  then have "commits 0 us (length (ro_committed s))"
    using push_all_grows assms new_rolling_inv unfolding grows_def by (metis list.size(3))
  then show ?thesis
    using push_all_provisional [OF new_rolling_inv assms] by (simp add: commits_def)
qed

theorem rolling_stable_grows_witness: "stable_counts [demo_first, demo_second] = [1] \<and> sorted_wrt (<) (stable_counts [demo_first, demo_second])"
proof -
  obtain s where "push_all (rolling_push demo_cfg demo_services) 1 [demo_frame, demo_frame] (new_rolling demo_cfg demo_services 0)
      = (Inr [demo_first, demo_second], s)"
    using demo_pushes by blast
  from rolling_stable_grows [OF this] show ?thesis by (simp add: stable_counts_def)
qed

text \<open>
  Property C33. The end of a session delivers the text: \<^verbatim>\<open>finish\<close>, when it returns, gives at most two valid updates, only
  the last of which is final, and that one carries the latest transcript if there is one. However it
  ends, the session is closed: a second \<^verbatim>\<open>finish\<close> and a \<^verbatim>\<open>close\<close> do nothing, and every further frame is refused.
\<close>

theorem rolling_finish_delivers:
  assumes "push_all (rolling_push cfg sv) 1 frames (new_rolling cfg sv w) = (Inr us, s)"
    and "rolling_finish cfg sv s = (r, s')"
  shows "(case r of Inl e \<Rightarrow> True | Inr vs \<Rightarrow> finished cfg vs s')
    \<and> ro_closed s' \<and> rolling_finish cfg sv s' = (Inr [], s') \<and> rolling_close cfg sv s' = (Inr (), s')
    \<and> (case rolling_push cfg sv frame n s' of (q, s'') \<Rightarrow> \<not> is_ok q \<and> ro_closed s'')"
proof -
  have "rolling_inv cfg s" by (rule keepsD [OF ro.push_all_valid new_rolling_inv assms(1)])
  moreover have "\<not> ro_closed s"
    using push_all_open [OF assms(1), of False] by (simp add: new_rolling_def split: prod.splits)
  ultimately have "case r of Inl e \<Rightarrow> True | Inr vs \<Rightarrow> finished cfg vs s'"
    using rolling_finish_updates [of cfg s sv _ s'] assms(2) by (cases r) auto
  moreover have "\<not> is_ok q \<and> ro_closed s''" if "rolling_push cfg sv frame n s' = (q, s'')" for q s''
    by (rule ro.ended_refuses [OF assms(2) that])
  ultimately show ?thesis
    using ro.finish_twice [OF assms(2)] ro.finish_closes [OF assms(2)] by (auto split: prod.splits)
qed

theorem rolling_finish_delivers_witness: "\<exists>s s'. rolling_finish demo_cfg demo_services s = (Inr [demo_last], s') \<and> ro_closed s'"
proof -
  obtain s where s: "push_all (rolling_push demo_cfg demo_services) 1 [demo_frame, demo_frame] (new_rolling demo_cfg demo_services 0)
      = (Inr [demo_first, demo_second], s)" "\<exists>s'. rolling_finish demo_cfg demo_services s = (Inr [demo_last], s')"
    using demo_pushes demo_finish by blast
  then obtain s' where "rolling_finish demo_cfg demo_services s = (Inr [demo_last], s')" by blast
  with rolling_finish_delivers [OF s(1) this] show ?thesis by blast
qed

text \<open>
  Property C34. A session spends at most its budget: counting the calls of the transcriber in the outside world, a
  whole session, pushes and end, whichever of them fail, makes at most \<open>rc_max_calls\<close> of them.
\<close>

theorem rolling_call_budget:
  assumes "counted c sv"
    and "push_all (rolling_push cfg sv) 1 frames (new_rolling cfg sv w) = (q, s)"
    and "rolling_finish cfg sv s = (r, s')"
  shows "c (ro_world s') \<le> c w + rc_max_calls cfg"
proof -
  have "c (snd (rv_clock sv w)) = c w" using assms(1) by (simp add: counted_def)
  then have "counts c (c w) (new_rolling cfg sv w)"
    by (cases "rv_clock sv w") (simp add: counts_def new_rolling_def)
  from keepsD [OF push_all_counts [OF assms(1)] this assms(2)] have "counts c (c w) s" .
  from keepsD [OF rolling_finish_counts [OF assms(1)] this assms(3)] have "counts c (c w) s'" .
  moreover have "rolling_inv cfg s"
    by (rule keepsD [OF ro.push_all_valid new_rolling_inv assms(2)])
  from keepsD [OF rolling_finish_keeps this assms(3)] have "ro_calls s' \<le> rc_max_calls cfg" by (simp add: rolling_inv_def)
  ultimately show ?thesis by (simp add: counts_def)
qed

theorem rolling_call_budget_witness: "\<exists>s s'. rolling_finish demo_cfg demo_services s = (Inr [demo_last], s') \<and> ro_world s' \<le> 3"
proof -
  have counted: "counted (\<lambda>w. w) demo_services" by (simp add: counted_def demo_services_def)
  obtain s where s: "push_all (rolling_push demo_cfg demo_services) 1 [demo_frame, demo_frame] (new_rolling demo_cfg demo_services 0)
      = (Inr [demo_first, demo_second], s)" "\<exists>s'. rolling_finish demo_cfg demo_services s = (Inr [demo_last], s')"
    using demo_pushes demo_finish by blast
  then obtain s' where s': "rolling_finish demo_cfg demo_services s = (Inr [demo_last], s')" by blast
  have "rc_max_calls demo_cfg = 3" by (simp add: demo_cfg_def)
  with rolling_call_budget [OF counted s(1) s'] have "ro_world s' \<le> 3" by simp
  with s' show ?thesis by blast
qed

end
