(* ===== verification/StreamServer.thy ===== *)
theory StreamServer
  imports Rolling
begin

text \<open>
  The speech service's end of the streaming protocol (\<^verbatim>\<open>/v1/stream\<close> of \<^verbatim>\<open>services/speech/app.py\<close>), and its composition with the
  WebSocket client of \<^verbatim>\<open>speech/streaming.py\<close>: over a link that delivers messages in order, the
  remote session behaves as the rolling session behind the server.
\<close>

section \<open>The endpoint\<close>

datatype event = Disconnected | BytesMessage bytes | TextEvent "json option" | EmptyMessage

text \<open>
  The socket, the session and the runtime are operations on an outside world. A wait under a
  deadline may raise \<^verbatim>\<open>TimeoutError\<close>; so may each of them.
\<close>

record 'w stream_env =
  se_accept :: "('w, unit) comp"
  se_receive_text :: "('w, json option) comp"
  se_receive :: "('w, event) comp"
  se_send :: "payload \<Rightarrow> ('w, unit) comp"
  se_close :: "nat \<Rightarrow> ('w, unit) comp"
  se_connected :: "'w \<Rightarrow> bool"
  se_ready :: "('w, bool) comp"
  se_open :: "streaming_start \<Rightarrow> ('w, unit) comp"
  se_push :: "bytes \<Rightarrow> nat \<Rightarrow> ('w, streaming_update list) comp"
  se_finish :: "('w, streaming_update list) comp"
  se_close_session :: "('w, unit) comp"

record stream_settings =
  st_enabled :: bool
  st_max_frame_bytes :: nat
  st_max_session_bytes :: nat
  st_max_text_bytes :: nat

definition server_json :: "json option \<Rightarrow> exn + payload" where
  "server_json t = (case t of Some (JObj p) \<Rightarrow> Inr p | _ \<Rightarrow> Inl ValueError)"

definition update_payload :: "streaming_update \<Rightarrow> payload" where
  "update_payload u = [(lit ''type'', JStr (lit ''update'')), (lit ''sequence'', JInt (up_sequence u)), (lit ''text'', JStr (up_text u)),
     (lit ''stable_prefix'', JBool (up_stable_prefix u)), (lit ''final'', JBool (up_final u))]"

fun send_stream_updates :: "'w stream_env \<Rightarrow> nat \<Rightarrow> streaming_update list \<Rightarrow> ('w, unit) comp" where
  "send_stream_updates env max_bytes [] = returnM ()"
| "send_stream_updates env max_bytes (u # us) =
     bindM (liftE (utf8_length (up_text u))) (\<lambda>len.
     bindM (guardM StreamingAdapterUnavailable (len \<le> max_bytes)) (\<lambda>_.
     bindM (se_send env (update_payload u)) (\<lambda>_. send_stream_updates env max_bytes us)))"

text \<open>One round of the loop: the next sequence number and byte count, or the end.\<close>

definition stream_round ::
  "'w stream_env \<Rightarrow> stream_settings \<Rightarrow> streaming_start \<Rightarrow> nat \<Rightarrow> nat \<Rightarrow> event \<Rightarrow> ('w, (nat \<times> nat) option) comp" where
  "stream_round env cfg start n received m =
     (case m of
        Disconnected \<Rightarrow> returnM None
      | BytesMessage v \<Rightarrow>
          bindM (liftE (parse_streaming_binary_frame v (n + 1))) (\<lambda>(next, frame).
            if st_max_frame_bytes cfg < length frame \<or> st_max_session_bytes cfg < received + length frame
            then bindM (se_close env 1009) (\<lambda>_. returnM None)
            else
              bindM (liftE (validate_stream_frame start frame (n = 0))) (\<lambda>_.
              bindM (se_push env frame next) (\<lambda>updates.
              bindM (send_stream_updates env (st_max_text_bytes cfg) updates) (\<lambda>_.
              bindM (se_send env (reply_payload ''ack'' next)) (\<lambda>_. returnM (Some (next, received + length frame)))))))
      | TextEvent t \<Rightarrow>
          bindM (liftE (server_json t)) (\<lambda>p.
          bindM (liftE (parse_streaming_end p (n + 1))) (\<lambda>_.
          bindM (se_finish env) (\<lambda>updates.
          bindM (send_stream_updates env (st_max_text_bytes cfg) updates) (\<lambda>_.
          bindM (se_send env (reply_payload ''finished'' (n + 1))) (\<lambda>_. returnM None)))))
      | EmptyMessage \<Rightarrow> bindM (se_close env 1008) (\<lambda>_. returnM None))"

text \<open>
  Every round that continues takes at least one byte of the session's budget, so
  \<open>st_max_session_bytes cfg + 1\<close> rounds are enough; \<open>None\<close> says that the rounds ran out.
\<close>

fun stream_rounds ::
  "nat \<Rightarrow> 'w stream_env \<Rightarrow> stream_settings \<Rightarrow> streaming_start \<Rightarrow> nat \<Rightarrow> nat \<Rightarrow> ('w, unit option) comp" where
  "stream_rounds 0 env cfg start n received = returnM None"
| "stream_rounds (Suc fuel) env cfg start n received =
     bindM (se_receive env) (\<lambda>m.
     bindM (stream_round env cfg start n received m) (\<lambda>r.
       case r of None \<Rightarrow> returnM (Some ()) | Some (n', received') \<Rightarrow> stream_rounds fuel env cfg start n' received'))"

definition serve_loop :: "'w stream_env \<Rightarrow> stream_settings \<Rightarrow> streaming_start \<Rightarrow> ('w, unit) comp" where
  "serve_loop env cfg start =
     bindM (stream_rounds (st_max_session_bytes cfg + 1) env cfg start 0 0) (\<lambda>r. returnM (the r))"

definition close_connected :: "'w stream_env \<Rightarrow> nat \<Rightarrow> ('w, unit) comp" where
  "close_connected env code = bindM (readM (se_connected env)) (\<lambda>b. if b then se_close env code else returnM ())"

definition stream_failed :: "'w stream_env \<Rightarrow> exn \<Rightarrow> ('w, unit) comp" where
  "stream_failed env e =
     (if e = TimeoutError then close_connected env 1013
      else if e \<in> {SpeechConfigurationError, SpeechDeadlineExceededError, SpeechOverloadedError, SpeechProviderError,
        StreamingAdapterUnavailable} then close_connected env 1013
      else if is_runtime_error e then close_connected env 1013
      else if is_value_error e \<or> e = WebSocketDisconnect then close_connected env 1008
      else raiseM e)"

definition close_stream_session :: "'w stream_env \<Rightarrow> ('w, unit) comp" where
  "close_stream_session env =
     catchM (se_close_session env) (\<lambda>e. if e = TimeoutError \<or> is_runtime_error e then returnM () else raiseM e)"

definition open_stream :: "'w stream_env \<Rightarrow> ('w, streaming_start) comp" where
  "open_stream env =
     bindM (se_accept env) (\<lambda>_.
     bindM (se_receive_text env) (\<lambda>t.
     bindM (liftE (server_json t)) (\<lambda>p.
     bindM (liftE (parse_streaming_start p)) (\<lambda>start.
     bindM (se_open env start) (\<lambda>_. returnM start)))))"

text \<open>The handlers run before the \<^verbatim>\<open>finally\<close> that closes an opened session.\<close>

definition serve_stream :: "'w stream_env \<Rightarrow> stream_settings \<Rightarrow> ('w, unit) comp" where
  "serve_stream env cfg =
     bindM (catchM (bindM (open_stream env) (\<lambda>start. returnM (Some start)))
        (\<lambda>e. bindM (stream_failed env e) (\<lambda>_. returnM None))) (\<lambda>opened.
       case opened of
         None \<Rightarrow> returnM ()
       | Some start \<Rightarrow>
           finallyM
             (catchM (bindM (se_send env (reply_payload ''started'' 0)) (\<lambda>_. serve_loop env cfg start)) (stream_failed env))
             (close_stream_session env))"

definition stream_endpoint :: "'w stream_env \<Rightarrow> stream_settings \<Rightarrow> bool \<Rightarrow> bool \<Rightarrow> bool \<Rightarrow> ('w, unit) comp" where
  "stream_endpoint env cfg settings_failed authorized has_runtime =
     (if settings_failed then se_close env 1013
      else if \<not> authorized then se_close env 1008
      else if \<not> st_enabled cfg \<or> \<not> has_runtime then se_close env 1013
      else bindM (se_ready env) (\<lambda>ready. if \<not> ready then se_close env 1013 else serve_stream env cfg))"

section \<open>Access and errors of the service\<close>

text \<open>\<^verbatim>\<open>_matches_bearer_key\<close>: one header of exactly two words, the scheme in its case.\<close>

definition is_ascii :: "pystr \<Rightarrow> bool" where
  "is_ascii s \<longleftrightarrow> list_all (\<lambda>c. c < 128) s"

definition matches_bearer_key :: "pystr list \<Rightarrow> pystr option \<Rightarrow> bool" where
  "matches_bearer_key authorizations configured =
     (case authorizations of
        [a] \<Rightarrow>
          (case split_by (\<lambda>c. c = 32) a of
             [scheme, presented] \<Rightarrow>
               (case configured of
                  None \<Rightarrow> False
                | Some key \<Rightarrow> scheme = lit ''Bearer'' \<and> presented \<noteq> [] \<and> is_ascii presented \<and> is_ascii key \<and> presented = key)
           | _ \<Rightarrow> False)
      | _ \<Rightarrow> False)"

definition websocket_is_authorized :: "bool \<Rightarrow> pystr list \<Rightarrow> pystr option \<Rightarrow> bool" where
  "websocket_is_authorized internal authorizations key \<longleftrightarrow> internal \<or> matches_bearer_key authorizations key"

text \<open>The public error of a failed transcription; what it does not name passes through.\<close>

definition transcribe_error :: "exn \<Rightarrow> exn" where
  "transcribe_error e =
     (case e of
        UnsupportedMediaError \<Rightarrow> DomainError UNSUPPORTED_MEDIA
      | MediaTimeoutError \<Rightarrow> DomainError DEADLINE_EXCEEDED
      | SpeechDeadlineExceededError \<Rightarrow> DomainError DEADLINE_EXCEEDED
      | MediaValidationError \<Rightarrow> DomainError INVALID_AUDIO
      | NoSpeechError \<Rightarrow> DomainError NO_SPEECH
      | RoleResolutionRequiredError \<Rightarrow> DomainError ROLE_RESOLUTION_REQUIRED
      | SpeechOverloadedError \<Rightarrow> DomainError QUOTA_EXCEEDED
      | SpeechConfigurationError \<Rightarrow> DomainError SERVICE_UNAVAILABLE
      | SpeechProviderError \<Rightarrow> DomainError PROVIDER_FAILURE
      | _ \<Rightarrow> e)"

section \<open>The rounds are enough\<close>

lemma parse_binary_frame_Inr:
  "parse_streaming_binary_frame v k = Inr (n, frame) \<Longrightarrow> n = k \<and> frame \<noteq> []"
  by (auto simp: parse_streaming_binary_frame_def split: if_splits)

lemma stream_round_progress:
  "stream_round env cfg start n received m s = (Inr (Some (n', received')), s') \<Longrightarrow>
     n' = Suc n \<and> received < received' \<and> received' \<le> st_max_session_bytes cfg"
proof (cases m)
  case (BytesMessage v)
  assume "stream_round env cfg start n received m s = (Inr (Some (n', received')), s')"
  then obtain k frame where "parse_streaming_binary_frame v (n + 1) = Inr (k, frame)"
      "\<not> (st_max_frame_bytes cfg < length frame \<or> st_max_session_bytes cfg < received + length frame)"
      "n' = k" "received' = received + length frame"
    unfolding stream_round_def BytesMessage event.case bindM_Inr_iff liftE_Inr_iff
    by (auto simp: comp_iffs split: if_splits)
  then show ?thesis by (auto dest: parse_binary_frame_Inr)
qed (auto simp: stream_round_def comp_iffs)

lemma stream_rounds_fuel:
  "stream_rounds fuel env cfg start n received s = (Inr r, s') \<Longrightarrow> received \<le> st_max_session_bytes cfg \<Longrightarrow>
     st_max_session_bytes cfg < fuel + received \<Longrightarrow> r = Some ()"
proof (induction fuel arbitrary: n received s)
  case (Suc fuel)
  from Suc.prems(1) obtain m s1 q s2 where round: "stream_round env cfg start n received m s1 = (Inr q, s2)"
    and rest: "(case q of None \<Rightarrow> returnM (Some ()) | Some (n', received') \<Rightarrow> stream_rounds fuel env cfg start n' received') s2 = (Inr r, s')"
    unfolding stream_rounds.simps bindM_Inr_iff by blast
  show ?case
  proof (cases q)
    case (Some p)
    obtain n' received' where p: "p = (n', received')" by fastforce
    have "received < received' \<and> received' \<le> st_max_session_bytes cfg"
      using stream_round_progress [OF round [unfolded Some p]] by simp
    then show ?thesis using Suc.IH [of n' received' s2] rest Suc.prems(3) Some p by simp
  qed (use rest in \<open>simp add: comp_iffs\<close>)
qed simp

lemma serve_loop_total: "serve_loop env cfg start s = (Inr u, s') \<Longrightarrow>
   stream_rounds (st_max_session_bytes cfg + 1) env cfg start 0 0 s = (Inr (Some ()), s')"
proof -
  assume "serve_loop env cfg start s = (Inr u, s')"
  then obtain r where "stream_rounds (st_max_session_bytes cfg + 1) env cfg start 0 0 s = (Inr r, s')"
    unfolding serve_loop_def bindM_Inr_iff returnM_Inr_iff by blast
  with stream_rounds_fuel [OF this] show ?thesis by simp
qed

section \<open>A link between client and server\<close>

text \<open>
  The server's side of a link: the session behind it, the state of its loop (\<open>None\<close> once it has ended) and the
  messages that the client has not yet received. Delivery is in order and nothing is lost.
\<close>

record 's link =
  lk_session :: 's
  lk_loop :: "(nat \<times> nat) option"
  lk_queue :: "payload list"

definition link_env ::
  "(bytes \<Rightarrow> nat \<Rightarrow> ('s, streaming_update list) comp) \<Rightarrow> ('s, streaming_update list) comp \<Rightarrow> ('s, unit) comp \<Rightarrow> 's link stream_env" where
  "link_env push finish close =
     \<lparr>se_accept = returnM (), se_receive_text = raiseM OtherError, se_receive = raiseM OtherError,
      se_send = (\<lambda>p. modifyM (\<lambda>s. s\<lparr>lk_queue := lk_queue s @ [p]\<rparr>)), se_close = (\<lambda>code. returnM ()), se_connected = (\<lambda>s. True),
      se_ready = returnM True, se_open = (\<lambda>start. returnM ()),
      se_push = (\<lambda>frame n s. case push frame n (lk_session s) of (r, t) \<Rightarrow> (r, s\<lparr>lk_session := t\<rparr>)),
      se_finish = (\<lambda>s. case finish (lk_session s) of (r, t) \<Rightarrow> (r, s\<lparr>lk_session := t\<rparr>)),
      se_close_session = (\<lambda>s. case close (lk_session s) of (r, t) \<Rightarrow> (r, s\<lparr>lk_session := t\<rparr>))\<rparr>"

text \<open>Taking a message from the client runs one round of the server; the end of its loop closes the session.\<close>

definition message_event :: "message \<Rightarrow> event" where
  "message_event m = (case m of BinaryMessage v \<Rightarrow> BytesMessage v | TextMessage t \<Rightarrow> TextEvent t)"

definition link_deliver :: "'s link stream_env \<Rightarrow> stream_settings \<Rightarrow> streaming_start \<Rightarrow> event \<Rightarrow> ('s link, unit) comp" where
  "link_deliver env cfg start m s =
     (case lk_loop s of
        None \<Rightarrow> (Inr (), s)
      | Some (n, received) \<Rightarrow>
          (case catchM (stream_round env cfg start n received m) (\<lambda>e. bindM (stream_failed env e) (\<lambda>_. returnM None)) s of
             (Inr (Some p), s') \<Rightarrow> (Inr (), s'\<lparr>lk_loop := Some p\<rparr>)
           | (q, s') \<Rightarrow> (case close_stream_session env s' of (r, s'') \<Rightarrow> (Inr (), s''\<lparr>lk_loop := None\<rparr>))))"

definition link_recv :: "('s link, message) comp" where
  "link_recv s = (case lk_queue s of [] \<Rightarrow> (Inl OtherError, s) | p # ps \<Rightarrow> (Inr (json_message p), s\<lparr>lk_queue := ps\<rparr>))"

definition link_connection :: "'s link stream_env \<Rightarrow> stream_settings \<Rightarrow> streaming_start \<Rightarrow> 's link connection" where
  "link_connection env cfg start =
     \<lparr>cn_connect = returnM (), cn_enter = returnM (), cn_send = (\<lambda>m. link_deliver env cfg start (message_event m)),
      cn_recv = link_recv, cn_close = link_deliver env cfg start Disconnected, cn_exit = returnM ()\<rparr>"

section \<open>Updates cross the link unchanged\<close>

declare bindM_lift [simp]

lemma update_roundtrip: "is_valid validate_StreamingUpdate u \<Longrightarrow> update_from_payload (update_payload u) = Inr u"
  by (cases u) (simp add: is_valid_iff update_from_payload_def update_payload_def has_keys_def dict_of_def)

lemma update_payload_type: "get (update_payload u) ''type'' = Some (JStr (lit ''update''))"
  by (simp add: update_payload_def dict_of_def)

lemma reply_not_update: "t \<noteq> ''update'' \<Longrightarrow> get (reply_payload t n) ''type'' \<noteq> Some (JStr (lit ''update''))"
  by (simp add: reply_payload_def dict_of_def)

lemma is_reply_payload: "is_reply t n (reply_payload t n)"
  by (simp add: is_reply_def reply_payload_def has_keys_def dict_of_def)

lemma update_ok_mono: "update_ok m u \<Longrightarrow> m \<le> k \<Longrightarrow> update_ok k u"
  by (auto simp: update_ok_def split: sum.splits)

lemma send_updates_queue:
  "list_all (update_ok m) us \<Longrightarrow> m \<le> max_bytes \<Longrightarrow>
     send_stream_updates (link_env push finish close) max_bytes us s = (Inr (), s\<lparr>lk_queue := lk_queue s @ map update_payload us\<rparr>)"
proof (induction us arbitrary: s)
  case (Cons u us)
  obtain len where "utf8_length (up_text u) = Inr len" "len \<le> max_bytes"
    using Cons.prems by (auto simp: update_ok_def split: sum.splits)
  then show ?case
    using Cons.IH [of "s\<lparr>lk_queue := lk_queue s @ [update_payload u]\<rparr>"] Cons.prems
    by (simp add: bindM_def liftE_def guardM_def link_env_def modifyM_def)
qed (simp add: returnM_def)

lemma receive_message_queue:
  assumes "lk_queue (cl_world s) = p # ps" "cn_recv c = link_recv"
  shows "receive_message c wl terminal n k s =
    (if get p ''type'' = Some (JStr (lit ''update'')) then
       bindM (guardM StreamingAdapterUnavailable (k < wl_max_updates wl)) (\<lambda>_.
         bindM (liftE (update_from_payload p)) (\<lambda>u.
         bindM (liftE (utf8_length (up_text u))) (\<lambda>len.
         bindM (guardM StreamingAdapterUnavailable (len \<le> wl_max_message_bytes wl)) (\<lambda>_. returnM (Some u)))))
     else if is_reply terminal n p then returnM None else raiseM StreamingAdapterUnavailable)
     (s\<lparr>cl_world := (cl_world s)\<lparr>lk_queue := ps\<rparr>\<rparr>)"
proof -
  have "within_timeout (outside (cn_recv c)) s = (Inr (json_message p), s\<lparr>cl_world := (cl_world s)\<lparr>lk_queue := ps\<rparr>\<rparr>)"
    using assms by (simp add: within_timeout_def outside_def catchM_def link_recv_def)
  moreover have "liftE (json_object (json_message p)) s' = (Inr p, s')" for s' :: "'a link ws_client"
    by (simp add: liftE_def json_object_def json_message_def)
  ultimately show ?thesis unfolding receive_message_def by (simp add: bindM_step)
qed

lemma receive_rounds_queue:
  assumes "lk_queue (cl_world s) = map update_payload us @ reply_payload terminal n # ps" "cn_recv c = link_recv"
    "list_all (update_ok (wl_max_message_bytes wl)) us" "length vs + length us \<le> wl_max_updates wl"
    "wl_max_updates wl < fuel + length vs" "terminal \<noteq> ''update''"
  shows "receive_rounds fuel c wl terminal n vs s = (Inr (Some (vs @ us)), s\<lparr>cl_world := (cl_world s)\<lparr>lk_queue := ps\<rparr>\<rparr>)"
  using assms
proof (induction us arbitrary: s vs fuel)
  case Nil
  then obtain k where "fuel = Suc k" by (cases fuel) auto
  then show ?case
    using Nil receive_message_queue [of s "reply_payload terminal n" ps c] reply_not_update [of terminal n]
    by (simp add: bindM_def is_reply_payload returnM_def)
next
  case (Cons u us)
  then obtain k where k: "fuel = Suc k" by (cases fuel) auto
  obtain len where len: "utf8_length (up_text u) = Inr len" "len \<le> wl_max_message_bytes wl" "is_valid validate_StreamingUpdate u"
    using Cons.prems(3) by (auto simp: update_ok_def split: sum.splits)
  let ?s = "s\<lparr>cl_world := (cl_world s)\<lparr>lk_queue := map update_payload us @ reply_payload terminal n # ps\<rparr>\<rparr>"
  have "receive_message c wl terminal n (length vs) s = (Inr (Some u), ?s)"
    using Cons.prems len receive_message_queue [of s "update_payload u" "map update_payload us @ reply_payload terminal n # ps" c]
    by (simp add: update_payload_type update_roundtrip bindM_def guardM_def liftE_def returnM_def)
  then show ?case
    using Cons.IH [of ?s "vs @ [u]" k] Cons.prems k by (simp add: bindM_def)
qed

lemma receive_until_queue:
  assumes "lk_queue (cl_world s) = map update_payload us @ [reply_payload terminal n]" "cn_recv c = link_recv"
    "list_all (update_ok (wl_max_message_bytes wl)) us" "length us \<le> wl_max_updates wl" "terminal \<noteq> ''update''"
  shows "receive_until c wl terminal n s = (Inr us, s\<lparr>cl_world := (cl_world s)\<lparr>lk_queue := []\<rparr>\<rparr>)"
  using receive_rounds_queue [of s us terminal n "[]" c wl "[]" "Suc (wl_max_updates wl)"] assms
  by (simp add: receive_until_def bindM_def returnM_def del: receive_rounds.simps)

section \<open>The remote session and the local one\<close>

definition server_settings :: "rolling_config \<Rightarrow> stream_settings" where
  "server_settings cfg = \<lparr>st_enabled = True, st_max_frame_bytes = rc_max_frame_bytes cfg,
     st_max_session_bytes = rc_max_session_bytes cfg, st_max_text_bytes = rc_max_text_bytes cfg\<rparr>"

abbreviation rolling_env :: "rolling_config \<Rightarrow> 'w rolling_services \<Rightarrow> 'w rolling link stream_env" where
  "rolling_env cfg sv \<equiv> link_env (rolling_push cfg sv) (rolling_finish cfg sv) (rolling_close cfg sv)"

definition remote :: "rolling_config \<Rightarrow> 'w rolling_services \<Rightarrow> 'w rolling link connection" where
  "remote cfg sv = link_connection (rolling_env cfg sv) (server_settings cfg) (rc_start cfg)"

definition linked :: "rolling_config \<Rightarrow> 'w rolling \<Rightarrow> 'w rolling link ws_client \<Rightarrow> bool" where
  "linked cfg t s \<longleftrightarrow> lk_session (cl_world s) = t \<and> lk_queue (cl_world s) = []
     \<and> lk_loop (cl_world s) = Some (ro_last_sequence t, ro_bytes_received t)
     \<and> ro_first_frame t = (ro_last_sequence t = 0) \<and> \<not> ro_closed t \<and> rolling_inv cfg t
     \<and> cl_next_sequence s = ro_last_sequence t + 1 \<and> \<not> cl_closed s"

definition accepted :: "nat \<Rightarrow> nat \<Rightarrow> bool \<Rightarrow> bool \<Rightarrow> 'w rolling \<Rightarrow> bool" where
  "accepted n k b c s \<longleftrightarrow> ro_last_sequence s = n \<and> ro_bytes_received s = k \<and> ro_first_frame s = b \<and> ro_closed s = c"

lemma accepted_frame [simp]:
  "accepted n k b c (s\<lparr>ro_world := w\<rparr>) \<longleftrightarrow> accepted n k b c s" "accepted n k b c (s\<lparr>ro_exhausted := x\<rparr>) \<longleftrightarrow> accepted n k b c s"
  "accepted n k b c (s\<lparr>ro_calls := i, ro_audio := a\<rparr>) \<longleftrightarrow> accepted n k b c s"
  "accepted n k b c (s\<lparr>ro_committed := ws\<rparr>) \<longleftrightarrow> accepted n k b c s"
  "accepted n k b c (s\<lparr>ro_previous := ws, ro_latest := t\<rparr>) \<longleftrightarrow> accepted n k b c s"
  "accepted n k b c (s\<lparr>ro_last_rolling := i\<rparr>) \<longleftrightarrow> accepted n k b c s"
  "accepted n k b c (s\<lparr>ro_ogg := v\<rparr>) \<longleftrightarrow> accepted n k b c s" "accepted n k b c (s\<lparr>ro_header := h\<rparr>) \<longleftrightarrow> accepted n k b c s"
  "accepted n k b c (s\<lparr>ro_header_verified := x\<rparr>) \<longleftrightarrow> accepted n k b c s"
  "accepted n k b c (s\<lparr>ro_received := i, ro_ring := bs\<rparr>) \<longleftrightarrow> accepted n k b c s"
  by (simp_all add: accepted_def)

lemma decode_consume_accepted:
  "keeps (accepted n k b c) (decode cfg sv frame)" "keeps (accepted n k b c) (consume_pcm cfg sv pcm i forced)"
proof -
  have "keeps (accepted n k b c) (feed_ogg f)" for f :: bytes
    by (rule keepsI) (auto simp: feed_ogg_def split: prod.splits)
  then show "keeps (accepted n k b c) (decode cfg sv frame)"
    unfolding decode_def by (intro hoare_rules in_world_local keeps_modify) simp_all
  show "keeps (accepted n k b c) (consume_pcm cfg sv pcm i forced)"
    unfolding consume_pcm_def by (intro hoare_rules rolling_update_local keeps_modify) simp_all
qed

lemma rolling_push_accepts:
  assumes run: "rolling_push cfg sv frame n s = (Inr us, s')"
  shows "n = Suc (ro_last_sequence s) \<and> \<not> ro_closed s \<and> validate_stream_frame (rc_start cfg) frame (ro_first_frame s) = Inr ()
    \<and> length frame \<le> rc_max_frame_bytes cfg \<and> ro_bytes_received s + length frame \<le> rc_max_session_bytes cfg
    \<and> accepted n (ro_bytes_received s + length frame) False False s'"
proof -
  obtain s1 where s1: "ensure_within_duration cfg sv s = (Inr (), s1)"
      "\<not> ro_closed s1" "n = ro_last_sequence s1 + 1"
      "validate_stream_frame (rc_start cfg) frame (ro_first_frame s1) = Inr ()"
      "length frame \<le> rc_max_frame_bytes cfg" "ro_bytes_received s1 + length frame \<le> rc_max_session_bytes cfg"
    and rest: "bindM (decode cfg sv frame) (\<lambda>pcm. consume_pcm cfg sv pcm n False)
        (s1\<lparr>ro_first_frame := False, ro_last_sequence := n, ro_bytes_received := ro_bytes_received s1 + length frame\<rparr>) = (Inr us, s')"
    using run unfolding rolling_push_def requireM_def
    by (auto simp: bindM_Inr_iff [of "ensure_within_duration cfg sv"] bindM_Inr_iff [of "bindM a b" for a b]
        bindM_Inr_iff [of "readM f" for f] bindM_Inr_iff [of "guardM e b" for e b] bindM_Inr_iff [of "liftE r" for r]
        bindM_Inr_iff [of "modifyM f" for f] guardM_Inr_iff liftE_Inr_iff readM_Inr_iff modifyM_Inr_iff)
  have same: "accepted (ro_last_sequence s) (ro_bytes_received s) (ro_first_frame s) (ro_closed s) s1"
    by (rule keepsD [OF ensure_local [of "accepted (ro_last_sequence s) (ro_bytes_received s) (ro_first_frame s) (ro_closed s)"] _ s1(1)])
      (simp_all add: accepted_def)
  have "keeps (accepted n (ro_bytes_received s1 + length frame) False False)
      (bindM (decode cfg sv frame) (\<lambda>pcm. consume_pcm cfg sv pcm n False))"
    by (intro keeps_bind decode_consume_accepted)
  from keepsD [OF this _ rest] s1(2) have "accepted n (ro_bytes_received s1 + length frame) False False s'"
    by (simp add: accepted_def)
  then show ?thesis using s1 same by (simp add: accepted_def)
qed

lemma server_round_push:
  assumes run: "rolling_push cfg sv frame n t = (Inr us, t')" and inv: "rolling_inv cfg t"
    and first: "ro_first_frame t = (ro_last_sequence t = 0)" and header: "to_be32 n = Inr h"
    and w: "lk_session w = t" "lk_queue w = []"
  shows "stream_round (rolling_env cfg sv) (server_settings cfg) (rc_start cfg) (ro_last_sequence t) (ro_bytes_received t)
      (BytesMessage (h @ frame)) w =
    (Inr (Some (n, ro_bytes_received t + length frame)),
     w\<lparr>lk_session := t', lk_queue := map update_payload us @ [reply_payload ''ack'' n]\<rparr>)"
proof -
  note acc = rolling_push_accepts [OF run]
  have "frame \<noteq> []" using acc by (auto simp: validate_stream_frame_def)
  then have parsed: "parse_streaming_binary_frame (h @ frame) (Suc (ro_last_sequence t)) = Inr (n, frame)"
    using binary_frame_roundtrip [OF header] acc by simp
  have ok: "list_all (update_ok (rc_max_text_bytes cfg)) us" using ro.push_updates [OF inv run] by blast
  have pushed: "se_push (rolling_env cfg sv) frame n w = (Inr us, w\<lparr>lk_session := t'\<rparr>)"
    using run w by (simp add: link_env_def)
  have sent: "se_send (rolling_env cfg sv) p s = (Inr (), s\<lparr>lk_queue := lk_queue s @ [p]\<rparr>)" for p s
    by (simp add: link_env_def modifyM_def)
  have n: "Suc (ro_last_sequence t) = n" using acc by simp
  have valid: "validate_stream_frame (rc_start cfg) frame (ro_last_sequence t = 0) = Inr ()"
    "\<not> rc_max_frame_bytes cfg < length frame" "\<not> rc_max_session_bytes cfg < ro_bytes_received t + length frame"
    using acc first by simp_all
  show ?thesis
    using w
    by (simp add: stream_round_def n parsed [unfolded n] valid server_settings_def
        bindM_step pushed sent send_updates_queue [OF ok order_refl] returnM_def)
qed

lemma client_push_step:
  assumes s: "\<not> cl_closed s" "n = cl_next_sequence s" "frame \<noteq> []" and header: "to_be32 n = Inr h"
    and sent: "cn_send c (BinaryMessage (h @ frame)) (cl_world s) = (Inr (), w)"
    and queue: "lk_queue w = map update_payload us @ [reply_payload ''ack'' n]" "cn_recv c = link_recv"
    and ok: "list_all (update_ok (wl_max_message_bytes wl)) us" "length us \<le> wl_max_updates wl"
  shows "client_push c wl frame n s =
    (Inr us, s\<lparr>cl_world := w\<lparr>lk_queue := []\<rparr>, cl_next_sequence := cl_next_sequence s + 1\<rparr>)"
proof -
  have "within_timeout (outside (cn_send c (BinaryMessage (h @ frame)))) s = (Inr (), s\<lparr>cl_world := w\<rparr>)"
    using sent by (simp add: within_timeout_def outside_def catchM_def)
  moreover have "receive_until c wl ''ack'' n (s\<lparr>cl_world := w\<rparr>) = (Inr us, s\<lparr>cl_world := w\<lparr>lk_queue := []\<rparr>\<rparr>)"
    using receive_until_queue [of "s\<lparr>cl_world := w\<rparr>" us "''ack''" n c wl] queue ok by simp
  ultimately have "exchange c wl (BinaryMessage (h @ frame)) ''ack'' n s = (Inr us, s\<lparr>cl_world := w\<lparr>lk_queue := []\<rparr>\<rparr>)"
    by (simp add: exchange_def bindM_step)
  then show ?thesis
    using s header [unfolded s(2)]
    by (simp add: client_push_def bindM_def readM_def guardM_def catchM_def liftE_def next_sequence_def modifyM_def returnM_def)
qed

lemma remote_push_ok:
  assumes rel: "linked cfg t s" and run: "rolling_push cfg sv frame n t = (Inr us, t')"
    and n: "n < 2 ^ 32" and bounds: "rc_max_text_bytes cfg \<le> wl_max_message_bytes wl" "2 \<le> wl_max_updates wl"
  shows "\<exists>s'. client_push (remote cfg sv) wl frame n s = (Inr us, s') \<and> linked cfg t' s'"
proof -
  let ?w = "cl_world s"
  have w: "lk_session ?w = t" "lk_queue ?w = []" "lk_loop ?w = Some (ro_last_sequence t, ro_bytes_received t)"
    and t: "ro_first_frame t = (ro_last_sequence t = 0)" "rolling_inv cfg t"
    and s: "cl_next_sequence s = ro_last_sequence t + 1" "\<not> cl_closed s"
    using rel by (simp_all add: linked_def)
  note acc = rolling_push_accepts [OF run]
  obtain h where h: "to_be32 n = Inr h" using to_be32_ok [OF n] by blast
  let ?w' = "?w\<lparr>lk_session := t', lk_queue := map update_payload us @ [reply_payload ''ack'' n],
    lk_loop := Some (n, ro_bytes_received t + length frame)\<rparr>"
  have sent: "cn_send (remote cfg sv) (BinaryMessage (h @ frame)) ?w = (Inr (), ?w')"
    using server_round_push [OF run t(2,1) h w(1,2)] w(3)
    by (simp add: remote_def link_connection_def link_deliver_def message_event_def catchM_def)
  have us: "length us \<le> 2" "list_all (update_ok (wl_max_message_bytes wl)) us"
    using ro.push_updates [OF t(2) run] bounds by (auto simp: list_all_iff intro: update_ok_mono)
  have "client_push (remote cfg sv) wl frame n s =
      (Inr us, s\<lparr>cl_world := ?w'\<lparr>lk_queue := []\<rparr>, cl_next_sequence := cl_next_sequence s + 1\<rparr>)"
    by (rule client_push_step [OF s(2) _ _ h sent])
      (use acc s us bounds in \<open>auto simp: validate_stream_frame_def remote_def link_connection_def\<close>)
  moreover have "linked cfg t' (s\<lparr>cl_world := ?w'\<lparr>lk_queue := []\<rparr>, cl_next_sequence := cl_next_sequence s + 1\<rparr>)"
    using acc s keepsD [OF ro.push_valid t(2) run] by (simp add: linked_def accepted_def)
  ultimately show ?thesis by blast
qed

lemma remote_pushes_ok:
  assumes bounds: "rc_max_text_bytes cfg \<le> wl_max_message_bytes wl" "2 \<le> wl_max_updates wl"
  shows "push_all (rolling_push cfg sv) n frames t = (Inr us, t') \<Longrightarrow> linked cfg t s \<Longrightarrow> n + length frames \<le> 2 ^ 32 \<Longrightarrow>
    \<exists>s'. push_all (client_push (remote cfg sv) wl) n frames s = (Inr us, s') \<and> linked cfg t' s'"
proof (induction frames arbitrary: n t s us)
  case (Cons f fs)
  from Cons.prems(1) obtain us1 t1 us2 where run: "rolling_push cfg sv f n t = (Inr us1, t1)"
      "push_all (rolling_push cfg sv) (Suc n) fs t1 = (Inr us2, t')" "us = us1 @ us2"
    by (auto simp: comp_iffs)
  obtain s1 where s1: "client_push (remote cfg sv) wl f n s = (Inr us1, s1)" "linked cfg t1 s1"
    using remote_push_ok [OF Cons.prems(2) run(1) _ bounds] Cons.prems(3) by auto
  obtain s2 where s2: "push_all (client_push (remote cfg sv) wl) (Suc n) fs s1 = (Inr us2, s2)" "linked cfg t' s2"
    using Cons.IH [OF run(2) s1(2)] Cons.prems(3) by auto
  then show ?case using s1 run(3) by (simp add: bindM_step returnM_def)
qed (simp add: comp_iffs returnM_def)

lemma server_round_finish:
  assumes run: "rolling_finish cfg sv t = (Inr us, t')" and inv: "rolling_inv cfg t"
    and w: "lk_session w = t" "lk_queue w = []"
  shows "stream_round (rolling_env cfg sv) (server_settings cfg) (rc_start cfg) k b (TextEvent (Some (JObj (end_payload (k + 1))))) w =
    (Inr None, w\<lparr>lk_session := t', lk_queue := map update_payload us @ [reply_payload ''finished'' (k + 1)]\<rparr>)"
proof -
  have ok: "list_all (update_ok (rc_max_text_bytes cfg)) us" using ro.finish_updates [OF inv run] by blast
  have finished: "se_finish (rolling_env cfg sv) w = (Inr us, w\<lparr>lk_session := t'\<rparr>)"
    using run w by (simp add: link_env_def)
  have sent: "se_send (rolling_env cfg sv) p s = (Inr (), s\<lparr>lk_queue := lk_queue s @ [p]\<rparr>)" for p s
    by (simp add: link_env_def modifyM_def)
  show ?thesis
    using w end_roundtrip [of "k + 1"]
    by (simp add: stream_round_def server_json_def bindM_step finished sent send_updates_queue [OF ok order_refl] returnM_def
        server_settings_def)
qed

lemma remote_finish_ok:
  assumes rel: "linked cfg t s" and run: "rolling_finish cfg sv t = (Inr us, t')"
    and bounds: "rc_max_text_bytes cfg \<le> wl_max_message_bytes wl" "2 \<le> wl_max_updates wl"
  shows "\<exists>s'. client_finish (remote cfg sv) wl s = (Inr us, s') \<and> cl_closed s' \<and> lk_session (cl_world s') = t'"
proof -
  let ?w = "cl_world s"
  let ?n = "cl_next_sequence s"
  have w: "lk_session ?w = t" "lk_queue ?w = []" "lk_loop ?w = Some (ro_last_sequence t, ro_bytes_received t)"
    and inv: "rolling_inv cfg t" and s: "?n = ro_last_sequence t + 1" "\<not> cl_closed s"
    using rel by (simp_all add: linked_def)
  have us: "length us \<le> 2" "list_all (update_ok (wl_max_message_bytes wl)) us"
    using ro.finish_updates [OF inv run] bounds by (auto simp: list_all_iff intro: update_ok_mono)
  have closed: "rolling_close cfg sv t' = (Inr (), t')" using ro.finish_twice [OF run] by blast
  let ?w' = "?w\<lparr>lk_session := t', lk_queue := map update_payload us @ [reply_payload ''finished'' ?n], lk_loop := None\<rparr>"
  have "cn_send (remote cfg sv) (json_message (end_payload ?n)) ?w = (Inr (), ?w')"
    using server_round_finish [OF run inv w(1,2), of "ro_last_sequence t" "ro_bytes_received t"] w(3) s(1) closed
    by (simp add: remote_def link_connection_def link_deliver_def message_event_def json_message_def catchM_def
        close_stream_session_def link_env_def)
  then have sent: "within_timeout (outside (cn_send (remote cfg sv) (json_message (end_payload ?n)))) s = (Inr (), s\<lparr>cl_world := ?w'\<rparr>)"
    by (simp add: within_timeout_def outside_def catchM_def)
  have "cn_recv (remote cfg sv) = link_recv" by (simp add: remote_def link_connection_def)
  with us bounds have "receive_until (remote cfg sv) wl ''finished'' ?n (s\<lparr>cl_world := ?w'\<rparr>) =
      (Inr us, s\<lparr>cl_world := ?w'\<lparr>lk_queue := []\<rparr>\<rparr>)"
    using receive_until_queue [of "s\<lparr>cl_world := ?w'\<rparr>" us "''finished''" ?n "remote cfg sv" wl] by simp
  with sent have answered: "exchange (remote cfg sv) wl (json_message (end_payload ?n)) ''finished'' ?n s =
      (Inr us, s\<lparr>cl_world := ?w'\<lparr>lk_queue := []\<rparr>\<rparr>)"
    by (simp add: exchange_def bindM_step)
  have idle: "cn_close (remote cfg sv) u = (Inr (), u)" if "lk_loop u = None" for u
    using that by (simp add: remote_def link_connection_def link_deliver_def)
  have exited: "cn_exit (remote cfg sv) u = (Inr (), u)" for u
    by (simp add: remote_def link_connection_def returnM_def)
  show ?thesis
    using answered s
    by (simp add: client_finish_def bindM_def readM_def catchM_def next_sequence_def modifyM_def returnM_def client_close_def swallow_def
        within_timeout_def outside_def idle exited)
qed

text \<open>A push that the local session refuses ends the loop of the server without an answer.\<close>

lemma link_failed: "stream_failed (link_env push finish close) e s = (r, s') \<Longrightarrow> s' = s"
  by (auto simp: stream_failed_def close_connected_def link_env_def bindM_def readM_def returnM_def raiseM_def split: if_splits)

lemma server_round_refused:
  assumes run: "rolling_push cfg sv frame (k + 1) t = (Inl e, t')" and header: "to_be32 (k + 1) = Inr h" and frame: "frame \<noteq> []"
    and w: "lk_session w = t" "lk_queue w = []"
  shows "\<exists>r u. stream_round (rolling_env cfg sv) (server_settings cfg) (rc_start cfg) k b (BytesMessage (h @ frame)) w = (r, u)
    \<and> (r = Inr None \<or> (\<exists>x. r = Inl x)) \<and> lk_queue u = [] \<and> lk_loop u = lk_loop w"
proof -
  have parsed: "parse_streaming_binary_frame (h @ frame) (Suc k) = Inr (Suc k, frame)"
    using binary_frame_roundtrip [OF header frame] by simp
  have pushed: "se_push (rolling_env cfg sv) frame (Suc k) w = (Inl e, w\<lparr>lk_session := t'\<rparr>)"
    using run w by (simp add: link_env_def)
  have closed: "se_close (rolling_env cfg sv) c w = (Inr (), w)" for c
    by (simp add: link_env_def returnM_def)
  show ?thesis
  proof (cases "st_max_frame_bytes (server_settings cfg) < length frame \<or> st_max_session_bytes (server_settings cfg) < b + length frame")
    case True
    then show ?thesis using w by (simp add: stream_round_def parsed bindM_step closed returnM_def)
  next
    case False
    then show ?thesis
      using w
      by (cases "validate_stream_frame (rc_start cfg) frame (k = 0)")
        (auto simp: stream_round_def parsed bindM_def liftE_def pushed)
  qed
qed

lemma deliver_refused:
  assumes round: "stream_round (rolling_env cfg sv) (server_settings cfg) (rc_start cfg) k b m w = (r, u)"
    and r: "r = Inr None \<or> (\<exists>x. r = Inl x)" and loop: "lk_loop w = Some (k, b)" and queue: "lk_queue u = []"
  shows "\<exists>v. link_deliver (rolling_env cfg sv) (server_settings cfg) (rc_start cfg) m w = (Inr (), v)
    \<and> lk_queue v = [] \<and> lk_loop v = None \<and> ro_closed (lk_session v)"
proof -
  have close: "\<exists>q v. close_stream_session (rolling_env cfg sv) u = (q, v) \<and> lk_queue v = lk_queue u \<and> ro_closed (lk_session v)"
    by (cases "rolling_close cfg sv (lk_session u)"; cases "fst (rolling_close cfg sv (lk_session u))")
      (auto simp: close_stream_session_def catchM_def link_env_def returnM_def raiseM_def dest: rolling_close_closes)
  have failed: "\<exists>q. stream_failed (rolling_env cfg sv) x u = (q, u)" for x
    using link_failed by (metis surj_pair)
  show ?thesis
  proof (cases "\<exists>x. r = Inl x")
    case True
    then obtain x q where "r = Inl x" "stream_failed (rolling_env cfg sv) x u = (q, u)" using failed by blast
    then show ?thesis
      using round loop queue close
      by (cases q) (auto simp: link_deliver_def catchM_def bindM_def returnM_def split: prod.splits)
  next
    case False
    then show ?thesis
      using round loop queue close r by (auto simp: link_deliver_def catchM_def split: prod.splits)
  qed
qed

lemma remote_push_refused:
  assumes rel: "linked cfg t s" and run: "rolling_push cfg sv frame n t = (Inl e, t')"
    and n: "n < 2 ^ 32" "n = cl_next_sequence s" and frame: "frame \<noteq> []"
  shows "\<exists>s'. client_push (remote cfg sv) wl frame n s = (Inl StreamingAdapterUnavailable, s') \<and> cl_closed s'
    \<and> ro_closed (lk_session (cl_world s'))"
proof -
  let ?w = "cl_world s"
  have w: "lk_session ?w = t" "lk_queue ?w = []" "lk_loop ?w = Some (ro_last_sequence t, ro_bytes_received t)"
    and k: "n = ro_last_sequence t + 1" and s: "\<not> cl_closed s"
    using rel n(2) by (simp_all add: linked_def)
  obtain h where h: "to_be32 n = Inr h" using to_be32_ok [OF n(1)] by blast
  obtain v where v: "link_deliver (rolling_env cfg sv) (server_settings cfg) (rc_start cfg) (BytesMessage (h @ frame)) ?w = (Inr (), v)"
      "lk_queue v = []" "lk_loop v = None" "ro_closed (lk_session v)"
    using server_round_refused [OF run [unfolded k] h [unfolded k] frame w(1,2), of "ro_bytes_received t"]
      deliver_refused [OF _ _ w(3)] by metis
  have sent: "within_timeout (outside (cn_send (remote cfg sv) (BinaryMessage (h @ frame)))) s = (Inr (), s\<lparr>cl_world := v\<rparr>)"
    using v(1) by (simp add: within_timeout_def outside_def catchM_def remote_def link_connection_def message_event_def)
  have "receive_until (remote cfg sv) wl ''ack'' n (s\<lparr>cl_world := v\<rparr>) = (Inl OtherError, s\<lparr>cl_world := v\<rparr>)"
    using v(2) by (simp add: receive_until_def receive_message_def bindM_def within_timeout_def catchM_def outside_def raiseM_def
        remote_def link_connection_def link_recv_def)
  with sent have failed: "exchange (remote cfg sv) wl (BinaryMessage (h @ frame)) ''ack'' n s = (Inl OtherError, s\<lparr>cl_world := v\<rparr>)"
    by (simp add: exchange_def bindM_def)
  have idle: "cn_close (remote cfg sv) u = (Inr (), u)" if "lk_loop u = None" for u
    using that by (simp add: remote_def link_connection_def link_deliver_def)
  have exited: "cn_exit (remote cfg sv) u = (Inr (), u)" for u
    by (simp add: remote_def link_connection_def returnM_def)
  have ok: "\<not> (cl_closed s \<or> n \<noteq> cl_next_sequence s \<or> frame = [])" using s n(2) frame by simp
  have "client_push (remote cfg sv) wl frame n s =
      bindM (client_close (remote cfg sv)) (\<lambda>_. raiseM StreamingAdapterUnavailable) (s\<lparr>cl_world := v\<rparr>)"
    using ok by (simp add: client_push_def bindM_def [of "readM f" for f] readM_def bindM_def [of "guardM x y" for x y] guardM_def
        catchM_def h [unfolded n(2)] bindM_def [of "exchange a b c d e" for a b c d e] failed [unfolded n(2)])
  also have "\<dots> = (Inl StreamingAdapterUnavailable, s\<lparr>cl_world := v, cl_closed := True\<rparr>)"
    using s v(3) by (simp add: bindM_def client_close_def readM_def modifyM_def swallow_def catchM_def within_timeout_def outside_def
        idle exited returnM_def raiseM_def)
  finally show ?thesis using v(4) by simp
qed

section \<open>Properties\<close>

text \<open>
  Property C37. The remote session refines the local one, frame by frame. While the client's session is linked to a
  local one, pushing the next frame remotely does what pushing it to the local session does: the same
  updates come back and the sessions stay linked, or, where the local session raises, the client raises
  \<^verbatim>\<open>StreamingAdapterUnavailable\<close> and both ends are closed.
\<close>

theorem remote_push_refines_local:
  assumes "linked cfg t s" "n = cl_next_sequence s" "n < 2 ^ 32" "frame \<noteq> []"
    and "rc_max_text_bytes cfg \<le> wl_max_message_bytes wl" "2 \<le> wl_max_updates wl"
  shows "case rolling_push cfg sv frame n t of
      (Inr us, t') \<Rightarrow> \<exists>s'. client_push (remote cfg sv) wl frame n s = (Inr us, s') \<and> linked cfg t' s'
    | (Inl e, t') \<Rightarrow> \<exists>s'. client_push (remote cfg sv) wl frame n s = (Inl StreamingAdapterUnavailable, s') \<and> cl_closed s'
        \<and> ro_closed (lk_session (cl_world s'))"
  using remote_push_ok [OF assms(1) _ assms(3,5,6)] remote_push_refused [OF assms(1) _ assms(3,2,4)]
  by (auto split: prod.splits sum.splits)

definition demo_limits :: websocket_limits where
  "demo_limits = \<lparr>wl_max_message_bytes = 100, wl_max_updates = 4\<rparr>"

definition fresh_link :: "rolling_config \<Rightarrow> 'w rolling_services \<Rightarrow> 'w \<Rightarrow> 'w rolling link ws_client" where
  "fresh_link cfg sv w = \<lparr>cl_next_sequence = 1, cl_closed = False,
     cl_world = \<lparr>lk_session = new_rolling cfg sv w, lk_loop = Some (0, 0), lk_queue = []\<rparr>\<rparr>"

lemma fresh_linked: "linked cfg (new_rolling cfg sv w) (fresh_link cfg sv w)"
  using new_rolling_inv [of cfg sv w] by (simp add: linked_def fresh_link_def new_rolling_def split: prod.splits)

theorem remote_push_refines_local_witness:
  "\<exists>s'. client_push (remote demo_cfg demo_services) demo_limits [1, 2, 3] 1 (fresh_link demo_cfg demo_services 0)
     = (Inl StreamingAdapterUnavailable, s') \<and> cl_closed s'"
proof -
  have "rolling_push demo_cfg demo_services [1, 2, 3] 1 (new_rolling demo_cfg demo_services 0)
      = (Inl StreamingProtocolError, new_rolling demo_cfg demo_services 0)"
    by (simp add: demo_eval)
  then show ?thesis
    using remote_push_refines_local [OF fresh_linked, of 1 demo_cfg demo_services 0 "[1, 2, 3]" demo_limits demo_services]
    by (auto simp: fresh_link_def demo_limits_def demo_cfg_def)
qed

text \<open>
  Property C9. A whole remote session behaves as the local one: when a session fed directly accepts all frames and
  then finishes, the WebSocket client talking to the service with that session behind it returns exactly
  the same updates, for the frames and for the end, and both ends are then closed.
\<close>

theorem remote_session_refines_local:
  assumes "push_all (rolling_push cfg sv) 1 frames (new_rolling cfg sv w) = (Inr us, t)"
    and "rolling_finish cfg sv t = (Inr vs, t')"
    and "length frames < 2 ^ 32" "rc_max_text_bytes cfg \<le> wl_max_message_bytes wl" "2 \<le> wl_max_updates wl"
  shows "\<exists>s s'. push_all (client_push (remote cfg sv) wl) 1 frames (fresh_link cfg sv w) = (Inr us, s)
    \<and> client_finish (remote cfg sv) wl s = (Inr vs, s') \<and> cl_closed s' \<and> lk_session (cl_world s') = t' \<and> ro_closed t'"
proof -
  obtain s where "push_all (client_push (remote cfg sv) wl) 1 frames (fresh_link cfg sv w) = (Inr us, s)" "linked cfg t s"
    using remote_pushes_ok [OF assms(4,5,1) fresh_linked] assms(3) by auto
  then show ?thesis
    using remote_finish_ok [OF _ assms(2,4,5)] ro.finish_closes [OF assms(2)] by blast
qed

theorem remote_session_refines_local_witness:
  "\<exists>s s'. push_all (client_push (remote demo_cfg demo_services) demo_limits) 1 [demo_frame, demo_frame]
      (fresh_link demo_cfg demo_services 0) = (Inr [demo_first, demo_second], s)
    \<and> client_finish (remote demo_cfg demo_services) demo_limits s = (Inr [demo_last], s')"
proof -
  obtain t t' where run: "push_all (rolling_push demo_cfg demo_services) 1 [demo_frame, demo_frame] (new_rolling demo_cfg demo_services 0)
      = (Inr [demo_first, demo_second], t)" "rolling_finish demo_cfg demo_services t = (Inr [demo_last], t')"
    using demo_pushes demo_finish by blast
  have "rc_max_text_bytes demo_cfg \<le> wl_max_message_bytes demo_limits" "2 \<le> wl_max_updates demo_limits"
    "length [demo_frame, demo_frame] < 2 ^ 32"
    by (simp_all add: demo_cfg_def demo_limits_def)
  then show ?thesis using remote_session_refines_local [OF run] by blast
qed

end
