(* ===== verification/Fetch.thy ===== *)
theory Fetch
  imports Rolling
begin

text \<open>
  Fetching media by URL (\<^verbatim>\<open>workflow/fetch.py\<close>): normalisation of the URL, the check of every resolved address, the
  connection pinned to the checked address, the redirect loop and the bounded read. The URL functions
  of the standard library, the resolver and the HTTP exchange are parameters; the address classes of
  \<^verbatim>\<open>ipaddress\<close> (Python 3.11) are written out.
\<close>

section \<open>Addresses\<close>

datatype ip_address = IPv4 "32 word" | IPv6 "128 word"

definition in_network :: "'a :: len word \<Rightarrow> nat \<times> nat \<Rightarrow> bool" where
  "in_network a net = (case net of (base, bits) \<Rightarrow> drop_bit (LENGTH('a) - bits) (unat a) = drop_bit (LENGTH('a) - bits) base)"

definition octets :: "nat \<Rightarrow> nat \<Rightarrow> nat \<Rightarrow> nat \<Rightarrow> nat" where
  "octets a b c d = ((a * 256 + b) * 256 + c) * 256 + d"

definition private_v4 :: "(nat \<times> nat) list" where
  "private_v4 = [(octets 0 0 0 0, 8), (octets 10 0 0 0, 8), (octets 127 0 0 0, 8), (octets 169 254 0 0, 16),
     (octets 172 16 0 0, 12), (octets 192 0 0 0, 24), (octets 192 0 0 170, 31), (octets 192 0 2 0, 24), (octets 192 168 0 0, 16),
     (octets 198 18 0 0, 15), (octets 198 51 100 0, 24), (octets 203 0 113 0, 24), (octets 240 0 0 0, 4),
     (octets 255 255 255 255, 32)]"

definition public_exceptions_v4 :: "(nat \<times> nat) list" where
  "public_exceptions_v4 = [(octets 192 0 0 9, 32), (octets 192 0 0 10, 32)]"

text \<open>The first two groups of an IPv6 network, and its prefix length.\<close>

definition v6 :: "nat \<Rightarrow> nat \<Rightarrow> nat \<Rightarrow> nat" where
  "v6 a b c = ((a * 65536 + b) * 65536 + c) * 2 ^ 80"

definition private_v6 :: "(nat \<times> nat) list" where
  "private_v6 = [(1, 128), (0, 128), (0xFFFF * 2 ^ 32, 96), (v6 0x64 0xFF9B 1, 48), (v6 0x100 0 0, 64), (v6 0x2001 0 0, 23),
     (v6 0x2001 0xDB8 0, 32), (v6 0x2002 0 0, 16), (v6 0xFC00 0 0, 7), (v6 0xFE80 0 0, 10)]"

definition public_exceptions_v6 :: "(nat \<times> nat) list" where
  "public_exceptions_v6 = [(v6 0x2001 1 0 + 1, 128), (v6 0x2001 1 0 + 2, 128), (v6 0x2001 3 0, 32), (v6 0x2001 4 0x112, 48),
     (v6 0x2001 0x20 0, 28), (v6 0x2001 0x30 0, 28)]"

definition reserved_v6 :: "(nat \<times> nat) list" where
  "reserved_v6 = [(0, 8), (v6 0x100 0 0, 8), (v6 0x200 0 0, 7), (v6 0x400 0 0, 6), (v6 0x800 0 0, 5), (v6 0x1000 0 0, 4),
     (v6 0x4000 0 0, 3), (v6 0x6000 0 0, 3), (v6 0x8000 0 0, 3), (v6 0xA000 0 0, 3), (v6 0xC000 0 0, 3), (v6 0xE000 0 0, 4),
     (v6 0xF000 0 0, 5), (v6 0xF800 0 0, 6), (v6 0xFE00 0 0, 9)]"

definition ipv4_mapped :: "128 word \<Rightarrow> (32 word) option" where
  "ipv4_mapped a = (if drop_bit 32 a = 0xFFFF then Some (ucast a) else None)"

definition is_private_v4 :: "32 word \<Rightarrow> bool" where
  "is_private_v4 a \<longleftrightarrow> list_ex (in_network a) private_v4 \<and> \<not> list_ex (in_network a) public_exceptions_v4"

definition is_private_v6 :: "128 word \<Rightarrow> bool" where
  "is_private_v6 a \<longleftrightarrow> (case ipv4_mapped a of
     Some m \<Rightarrow> is_private_v4 m
   | None \<Rightarrow> list_ex (in_network a) private_v6 \<and> \<not> list_ex (in_network a) public_exceptions_v6)"

text \<open>\<^verbatim>\<open>_is_public_address\<close>: global, and in none of the special classes.\<close>

fun is_public_address :: "ip_address \<Rightarrow> bool" where
  "is_public_address (IPv4 a) \<longleftrightarrow>
     (\<not> in_network a (octets 100 64 0 0, 10) \<and> \<not> is_private_v4 a) \<and>
     \<not> (is_private_v4 a \<or> in_network a (octets 127 0 0 0, 8) \<or> in_network a (octets 169 254 0 0, 16)
        \<or> in_network a (octets 224 0 0 0, 4) \<or> in_network a (octets 240 0 0 0, 4) \<or> a = 0)"
| "is_public_address (IPv6 a) \<longleftrightarrow>
     \<not> is_private_v6 a \<and>
     \<not> (is_private_v6 a \<or> a = 1 \<or> in_network a (v6 0xFE80 0 0, 10) \<or> in_network a (v6 0xFF00 0 0, 8)
        \<or> list_ex (in_network a) reserved_v6 \<or> a = 0)"

section \<open>URLs\<close>

record url_parts =
  ur_scheme :: pystr
  ur_netloc :: pystr
  ur_path :: pystr
  ur_query :: pystr
  ur_fragment :: pystr
  ur_hostname :: "pystr option"
  ur_username :: "pystr option"
  ur_password :: "pystr option"

text \<open>\<^verbatim>\<open>urlsplit\<close> and \<^verbatim>\<open>parts.port\<close> may raise \<^verbatim>\<open>ValueError\<close>; so may \<^verbatim>\<open>urljoin\<close>.\<close>

record url_lib =
  ul_split :: "pystr \<Rightarrow> exn + url_parts"
  ul_port :: "pystr \<Rightarrow> exn + nat option"
  ul_unsplit :: "pystr \<Rightarrow> pystr \<Rightarrow> pystr \<Rightarrow> pystr \<Rightarrow> pystr"
  ul_join :: "pystr \<Rightarrow> pystr \<Rightarrow> exn + pystr"
  ul_unquote :: "pystr \<Rightarrow> pystr"
  ul_casefold :: "pystr \<Rightarrow> pystr"
  ul_int :: "pystr \<Rightarrow> int option"

definition fetch_failure :: "url_fetch_failure \<Rightarrow> exn" where
  "fetch_failure f = UrlFetchError f"

definition is_http :: "pystr \<Rightarrow> bool" where
  "is_http s \<longleftrightarrow> s = lit ''http'' \<or> s = lit ''https''"

definition normalize_url :: "url_lib \<Rightarrow> pystr \<Rightarrow> exn + pystr" where
  "normalize_url ul value =
     (if 4096 < length value \<or> value \<noteq> py_strip value then Inl (fetch_failure UF_INVALID_URL)
      else
        (case ul_split ul value of
           Inl e \<Rightarrow> Inl (if is_value_error e then fetch_failure UF_INVALID_URL else e)
         | Inr parts \<Rightarrow>
             (case ul_port ul value of
                Inl e \<Rightarrow> Inl (if is_value_error e then fetch_failure UF_INVALID_URL else e)
              | Inr port \<Rightarrow>
                  if \<not> is_http (ur_scheme parts) \<or> ur_hostname parts = None \<or> ur_hostname parts = Some []
                    \<or> ur_username parts \<noteq> None \<or> ur_password parts \<noteq> None \<or> ur_fragment parts \<noteq> [] \<or> port = Some 0
                  then Inl (fetch_failure UF_INVALID_URL)
                  else Inr (ul_unsplit ul (ur_scheme parts) (ur_netloc parts)
                    (if ur_path parts = [] then lit ''/'' else ur_path parts) (ur_query parts)))))"

definition rstrip_by :: "('a \<Rightarrow> bool) \<Rightarrow> 'a list \<Rightarrow> 'a list" where
  "rstrip_by P s = rev (dropWhile P (rev s))"

definition ends_with :: "'a list \<Rightarrow> 'a list \<Rightarrow> bool" where
  "ends_with p s \<longleftrightarrow> starts_with (rev p) (rev s)"

definition is_metadata_hostname :: "url_lib \<Rightarrow> pystr \<Rightarrow> bool" where
  "is_metadata_hostname ul hostname =
     (let normalized = rstrip_by (\<lambda>c. c = 46) (ul_casefold ul hostname) in
      normalized \<in> set (map lit [''localhost'', ''localhost.localdomain'', ''metadata'', ''metadata.google.internal'', ''instance-data''])
      \<or> ends_with (lit ''.localhost'') normalized \<or> ends_with (lit ''.local'') normalized)"

text \<open>\<^verbatim>\<open>PurePosixPath(path).name\<close> is the last component that is neither empty nor a dot.\<close>

definition posix_name :: "pystr \<Rightarrow> pystr" where
  "posix_name path = (case filter (\<lambda>c. c \<noteq> [] \<and> c \<noteq> lit ''.'') (split_by (\<lambda>c. c = 47) path) of [] \<Rightarrow> [] | cs \<Rightarrow> last cs)"

definition safe_filename :: "url_lib \<Rightarrow> pystr \<Rightarrow> exn + pystr" where
  "safe_filename ul url =
     bindE (ul_split ul url) (\<lambda>parts.
       let candidate = py_strip (posix_name (ul_unquote ul (ur_path parts))) in
       Inr (if candidate = [] \<or> 128 < length candidate \<or> list_ex (\<lambda>c. c < 32) candidate then lit ''audio'' else candidate))"

text \<open>\<^verbatim>\<open>value.partition(";")[0].strip().casefold()\<close>\<close>

definition content_type_of :: "url_lib \<Rightarrow> pystr option \<Rightarrow> exn + pystr" where
  "content_type_of ul value =
     (case value of
        None \<Rightarrow> Inl (fetch_failure UF_UNSUPPORTED_MEDIA)
      | Some v \<Rightarrow>
          (let t = ul_casefold ul (py_strip (takeWhile (\<lambda>c. c \<noteq> 59) v)) in
           if t = [] then Inl (fetch_failure UF_UNSUPPORTED_MEDIA) else Inr t))"

definition validate_declared_size :: "url_lib \<Rightarrow> pystr option \<Rightarrow> nat \<Rightarrow> exn + unit" where
  "validate_declared_size ul value max_bytes =
     (case value of
        None \<Rightarrow> Inr ()
      | Some v \<Rightarrow>
          (case ul_int ul v of
             None \<Rightarrow> Inl (fetch_failure UF_PAYLOAD_TOO_LARGE)
           | Some n \<Rightarrow> if n < 0 \<or> int max_bytes < n then Inl (fetch_failure UF_PAYLOAD_TOO_LARGE) else Inr ()))"

text \<open>The body is what its iterator yields: chunks, or an exception that ends it.\<close>

fun read_bounded :: "nat \<Rightarrow> nat \<Rightarrow> (exn + bytes) list \<Rightarrow> exn + bytes" where
  "read_bounded max_bytes total_bytes [] = Inr []"
| "read_bounded max_bytes total_bytes (Inl e # cs) = Inl e"
| "read_bounded max_bytes total_bytes (Inr c # cs) =
     (if max_bytes < total_bytes + length c then Inl (fetch_failure UF_PAYLOAD_TOO_LARGE)
      else bindE (read_bounded max_bytes (total_bytes + length c) cs) (\<lambda>bs. Inr (c @ bs)))"

section \<open>The exchange\<close>

record pinned_target =
  pt_hostname :: pystr
  pt_port :: nat
  pt_address :: ip_address

record http_request =
  hr_scheme :: pystr
  hr_host :: pystr
  hr_port :: "nat option"
  hr_netloc :: bytes
  hr_headers :: "(bytes \<times> bytes) list"

record hop_response =
  rs_status :: int
  rs_location :: "pystr option"
  rs_content_type :: "pystr option"
  rs_content_length :: "pystr option"

record fetch_policy =
  fp_max_bytes :: nat
  fp_max_redirects :: nat
  fp_media_types :: "pystr list"

record fetched_media =
  fm_filename :: pystr
  fm_content_type :: pystr
  fm_content :: bytes

definition validate_UrlFetchPolicy :: "fetch_policy \<Rightarrow> exn + fetch_policy" where
  "validate_UrlFetchPolicy p =
     (if fp_max_bytes p = 0 \<or> 5 < fp_max_redirects p \<or> fp_media_types p = [] \<or> \<not> all_unique (fp_media_types p)
      then Inl ValidationError else Inr p)"

definition default_port :: "pystr \<Rightarrow> nat" where
  "default_port scheme = (if scheme = lit ''https'' then 443 else 80)"

text \<open>\<^verbatim>\<open>parts.port or ..\<close>: a port of zero counts as none.\<close>

definition port_or_default :: "nat option \<Rightarrow> pystr \<Rightarrow> nat" where
  "port_or_default port scheme = (case port of None \<Rightarrow> default_port scheme | Some p \<Rightarrow> if p = 0 then default_port scheme else p)"

text \<open>
  The operations on the outside world. \<open>fe_connect\<close> opens the connection of the pool to an address and
  exchanges one request for the head of a response; it is what reaches the network.
\<close>

record 'w fetch_env =
  fe_lookup :: "pystr \<Rightarrow> nat \<Rightarrow> ('w, (exn + ip_address) list) comp"
  fe_request :: "pystr \<Rightarrow> http_request"
  fe_enter :: "('w, unit) comp"
  fe_exit :: "('w, unit) comp"
  fe_connect :: "ip_address \<Rightarrow> nat \<Rightarrow> http_request \<Rightarrow> ('w, hop_response) comp"
  fe_body :: "('w, (exn + bytes) list) comp"
  fe_close_response :: "('w, unit) comp"

text \<open>\<^verbatim>\<open>SystemHostResolver.resolve\<close>: \<open>fe_lookup\<close> is \<^verbatim>\<open>getaddrinfo\<close> with each host parsed; its \<^verbatim>\<open>OSError\<close> is \<open>OtherError\<close>.\<close>

definition resolve :: "'w fetch_env \<Rightarrow> pystr \<Rightarrow> nat \<Rightarrow> ('w, ip_address list) comp" where
  "resolve env hostname port =
     bindM (catchM (fe_lookup env hostname port) (\<lambda>e. raiseM (if e = OtherError then fetch_failure UF_UNAVAILABLE else e))) (\<lambda>infos.
     bindM (liftE (mapE (\<lambda>i. case i of Inl e \<Rightarrow> Inl (if is_value_error e then fetch_failure UF_BLOCKED_ADDRESS else e) | Inr a \<Rightarrow> Inr a) infos)) (\<lambda>addresses.
     bindM (guardM (fetch_failure UF_UNAVAILABLE) (addresses \<noteq> [])) (\<lambda>_. returnM (rev (remdups (rev addresses))))))"

definition resolve_pinned_target :: "url_lib \<Rightarrow> 'w fetch_env \<Rightarrow> pystr \<Rightarrow> ('w, pinned_target) comp" where
  "resolve_pinned_target ul env url =
     bindM (liftE (ul_split ul url)) (\<lambda>parts.
       case ur_hostname parts of
         None \<Rightarrow> raiseM AssertionError
       | Some hostname \<Rightarrow>
           bindM (guardM (fetch_failure UF_BLOCKED_ADDRESS) (\<not> is_metadata_hostname ul hostname)) (\<lambda>_.
           bindM (liftE (ul_port ul url)) (\<lambda>port.
           bindM (resolve env hostname (port_or_default port (ur_scheme parts))) (\<lambda>addresses.
           bindM (guardM (fetch_failure UF_BLOCKED_ADDRESS) (list_all is_public_address addresses)) (\<lambda>_.
             returnM \<lparr>pt_hostname = hostname, pt_port = port_or_default port (ur_scheme parts), pt_address = hd addresses\<rparr>)))))"

text \<open>Header names are compared in lower case, byte by byte.\<close>

definition lower_bytes :: "bytes \<Rightarrow> bytes" where
  "lower_bytes bs = map (\<lambda>b. if 65 \<le> b \<and> b \<le> 90 then b + 32 else b) bs"

definition header_bytes :: "string \<Rightarrow> bytes" where
  "header_bytes s = map (\<lambda>c. word_of_nat (of_char c)) s"

definition blocked_headers :: "bytes list" where
  "blocked_headers = map header_bytes [''authorization'', ''cookie'', ''proxy-authorization'', ''host'']"

definition pinned_headers :: "http_request \<Rightarrow> (bytes \<times> bytes) list" where
  "pinned_headers r = filter (\<lambda>(name, v). lower_bytes name \<notin> set blocked_headers) (hr_headers r) @ [(header_bytes ''host'', hr_netloc r)]"

text \<open>
  \<^verbatim>\<open>PinnedAddressTransport\<close> with its network backend: a request for another origin is refused, and the TCP
  connection goes to the pinned address whatever the host name resolves to by then.
\<close>

definition pinned_exchange :: "'w fetch_env \<Rightarrow> pinned_target \<Rightarrow> http_request \<Rightarrow> ('w, hop_response) comp" where
  "pinned_exchange env target r =
     bindM (guardM HttpError (hr_host r = pt_hostname target \<and> port_or_default (hr_port r) (hr_scheme r) = pt_port target)) (\<lambda>_.
       fe_connect env (pt_address target) (pt_port target) (r\<lparr>hr_headers := pinned_headers r\<rparr>))"

definition send_request :: "'w fetch_env \<Rightarrow> pinned_target \<Rightarrow> pystr \<Rightarrow> ('w, hop_response) comp" where
  "send_request env target url =
     catchM (pinned_exchange env target (fe_request env url)) (\<lambda>e. raiseM (if e = HttpError then fetch_failure UF_UNAVAILABLE else e))"

definition is_redirect :: "int \<Rightarrow> bool" where
  "is_redirect status \<longleftrightarrow> status \<in> {301, 302, 303, 307, 308}"

text \<open>The answer of one hop: the next URL, or the media. \<open>left\<close> counts the redirects that are still allowed.\<close>

definition handle_response ::
  "url_lib \<Rightarrow> fetch_policy \<Rightarrow> 'w fetch_env \<Rightarrow> nat \<Rightarrow> pystr \<Rightarrow> hop_response \<Rightarrow> ('w, pystr + fetched_media) comp" where
  "handle_response ul policy env left url r =
     (if is_redirect (rs_status r) then
        (case rs_location r of
           None \<Rightarrow> raiseM (fetch_failure UF_REDIRECT_LIMIT)
         | Some location \<Rightarrow>
             bindM (guardM (fetch_failure UF_REDIRECT_LIMIT) (left \<noteq> 0 \<and> location \<noteq> [])) (\<lambda>_.
             bindM (liftE (ul_join ul url location)) (\<lambda>joined.
             bindM (liftE (normalize_url ul joined)) (\<lambda>next_url. returnM (Inl next_url)))))
      else
        bindM (guardM (fetch_failure UF_UNAVAILABLE) (200 \<le> rs_status r \<and> rs_status r < 300)) (\<lambda>_.
        bindM (liftE (content_type_of ul (rs_content_type r))) (\<lambda>content_type.
        bindM (guardM (fetch_failure UF_UNSUPPORTED_MEDIA) (content_type \<in> set (fp_media_types policy))) (\<lambda>_.
        bindM (liftE (validate_declared_size ul (rs_content_length r) (fp_max_bytes policy))) (\<lambda>_.
        bindM (fe_body env) (\<lambda>chunks.
        bindM (liftE (read_bounded (fp_max_bytes policy) 0 chunks)) (\<lambda>content.
        bindM (guardM (fetch_failure UF_UNSUPPORTED_MEDIA) (content \<noteq> [])) (\<lambda>_.
        bindM (liftE (safe_filename ul url)) (\<lambda>filename.
          returnM (Inr \<lparr>fm_filename = filename, fm_content_type = content_type, fm_content = content\<rparr>))))))))))"

definition fetch_hop :: "url_lib \<Rightarrow> fetch_policy \<Rightarrow> 'w fetch_env \<Rightarrow> nat \<Rightarrow> pystr \<Rightarrow> ('w, pystr + fetched_media) comp" where
  "fetch_hop ul policy env left url =
     bindM (resolve_pinned_target ul env url) (\<lambda>target.
     bindM (fe_enter env) (\<lambda>_.
       finallyM
         (bindM (send_request env target url) (\<lambda>r. finallyM (handle_response ul policy env left url r) (fe_close_response env)))
         (fe_exit env)))"

text \<open>The loop over \<^verbatim>\<open>range(max_redirects + 1)\<close>.\<close>

fun fetch_hops :: "nat \<Rightarrow> url_lib \<Rightarrow> fetch_policy \<Rightarrow> 'w fetch_env \<Rightarrow> pystr \<Rightarrow> ('w, fetched_media) comp" where
  "fetch_hops 0 ul policy env url = raiseM (fetch_failure UF_REDIRECT_LIMIT)"
| "fetch_hops (Suc left) ul policy env url =
     bindM (fetch_hop ul policy env left url) (\<lambda>r. case r of Inl next_url \<Rightarrow> fetch_hops left ul policy env next_url | Inr m \<Rightarrow> returnM m)"

definition fetch_error :: "exn \<Rightarrow> exn" where
  "fetch_error e =
     (case e of
        UrlFetchError f \<Rightarrow> e
      | TimeoutError \<Rightarrow> fetch_failure UF_TIMEOUT
      | HttpError \<Rightarrow> fetch_failure UF_UNAVAILABLE
      | _ \<Rightarrow> fetch_failure UF_UNAVAILABLE)"

definition fetch_url :: "url_lib \<Rightarrow> fetch_policy \<Rightarrow> 'w fetch_env \<Rightarrow> pystr \<Rightarrow> ('w, fetched_media) comp" where
  "fetch_url ul policy env source_url =
     bindM (liftE (normalize_url ul source_url)) (\<lambda>url.
       catchM (fetch_hops (fp_max_redirects policy + 1) ul policy env url) (\<lambda>e. raiseM (fetch_error e)))"

section \<open>What reaches the network\<close>

text \<open>A request as the transport sends it: to a public address, with no credentials and one \<^verbatim>\<open>Host\<close>.\<close>

definition sendable :: "ip_address \<Rightarrow> http_request \<Rightarrow> bool" where
  "sendable a r \<longleftrightarrow> is_public_address a
     \<and> filter (\<lambda>(name, v). lower_bytes name \<in> set blocked_headers) (hr_headers r) = [(header_bytes ''host'', hr_netloc r)]"

text \<open>
  \<open>P k\<close> says that \<open>k\<close> requests have been made, all of them sendable: every operation but the exchange keeps it,
  and a sendable exchange, whether it fails or not, takes it one further.
\<close>

definition requests_counted :: "(nat \<Rightarrow> 'w \<Rightarrow> bool) \<Rightarrow> 'w fetch_env \<Rightarrow> bool" where
  "requests_counted P env \<longleftrightarrow> (\<forall>k. (\<forall>h p. keeps (P k) (fe_lookup env h p)) \<and> keeps (P k) (fe_enter env) \<and> keeps (P k) (fe_exit env)
     \<and> keeps (P k) (fe_body env) \<and> keeps (P k) (fe_close_response env)
     \<and> (\<forall>a p r. sendable a r \<longrightarrow> hoare (P k) (fe_connect env a p r) (\<lambda>_. P (Suc k)) (\<lambda>_. P (Suc k))))"

lemma lower_host: "lower_bytes (header_bytes ''host'') \<in> set blocked_headers"
  by code_simp

lemma pinned_sendable: "is_public_address a \<Longrightarrow> sendable a (r\<lparr>hr_headers := pinned_headers r\<rparr>)"
  using lower_host by (auto simp: sendable_def pinned_headers_def filter_empty_conv)

lemma resolve_keeps:
  assumes "requests_counted P env"
  shows "keeps (P k) (resolve_pinned_target ul env url)"
proof -
  have "keeps (P k) (fe_lookup env h p)" for h p using assms by (simp add: requests_counted_def)
  then show ?thesis unfolding resolve_pinned_target_def resolve_def by (intro hoare_rules)
qed

lemma resolve_public:
  "resolve_pinned_target ul env url s = (Inr target, s') \<Longrightarrow> is_public_address (pt_address target)"
proof -
  assume "resolve_pinned_target ul env url s = (Inr target, s')"
  then obtain hostname port addresses s1 where "resolve env hostname port s1 = (Inr addresses, s')"
      "list_all is_public_address addresses" "pt_address target = hd addresses"
    by (auto simp: resolve_pinned_target_def comp_iffs split: option.splits)
  moreover from this have "addresses \<noteq> []" by (auto simp: resolve_def comp_iffs)
  ultimately show ?thesis by (auto simp: list_all_iff)
qed

text \<open>On every way out.\<close>

definition leads :: "('s \<Rightarrow> bool) \<Rightarrow> ('s, 'a) comp \<Rightarrow> ('s \<Rightarrow> bool) \<Rightarrow> bool" where
  "leads I m J \<longleftrightarrow> hoare I m (\<lambda>_. J) (\<lambda>_. J)"

lemma leadsI: "(\<And>s r s'. I s \<Longrightarrow> m s = (r, s') \<Longrightarrow> J s') \<Longrightarrow> leads I m J"
  unfolding leads_def by (rule hoareI) blast+

lemma leadsD: "leads I m J \<Longrightarrow> I s \<Longrightarrow> m s = (r, s') \<Longrightarrow> J s'"
  unfolding leads_def by (cases r) (auto dest: hoare_ok hoare_fail)

lemma leads_finally: "leads I m J \<Longrightarrow> keeps J f \<Longrightarrow> leads I (finallyM m f) J"
  by (rule leadsI) (auto simp: finallyM_def dest!: leadsD dest: keepsD split: prod.splits sum.splits)

lemma leads_bind: "leads I m J \<Longrightarrow> (\<And>x. keeps J (f x)) \<Longrightarrow> leads I (bindM m f) J"
  by (rule leadsI) (auto simp: bindM_def dest!: leadsD dest: keepsD split: prod.splits sum.splits)

lemma leads_catch: "leads I m J \<Longrightarrow> (\<And>e. keeps J (h e)) \<Longrightarrow> leads I (catchM m h) J"
  by (rule leadsI) (auto simp: catchM_def dest!: leadsD dest: keepsD split: prod.splits sum.splits)

lemma leads_guard: "leads I (f ()) J \<Longrightarrow> (\<And>s. I s \<Longrightarrow> J s) \<Longrightarrow> leads I (bindM (guardM e b) f) J"
  by (rule leadsI) (auto simp: bindM_def guardM_def dest: leadsD split: if_splits)

lemma leads_weaken: "leads I m J \<Longrightarrow> (\<And>s. J s \<Longrightarrow> K s) \<Longrightarrow> leads I m K"
  by (rule leadsI) (blast dest: leadsD)

lemma send_leads:
  assumes P: "requests_counted P env" and public: "is_public_address (pt_address target)"
  shows "leads (P k) (send_request env target url) (\<lambda>s. P k s \<or> P (Suc k) s)"
proof -
  have connect: "leads (P k) (fe_connect env (pt_address target) p (r\<lparr>hr_headers := pinned_headers r\<rparr>)) (\<lambda>s. P k s \<or> P (Suc k) s)" for p r
    using P pinned_sendable [OF public, of r] unfolding requests_counted_def leads_def by (blast intro: hoare_weaken)
  show ?thesis
    unfolding send_request_def pinned_exchange_def
    by (intro leads_catch leads_guard connect hoare_rules) simp
qed

lemma handle_keeps:
  assumes "keeps P (fe_body env)"
  shows "keeps P (handle_response ul policy env left url r)"
  unfolding handle_response_def by (intro hoare_rules assms)

lemma keeps_either: "keeps P m \<Longrightarrow> keeps Q m \<Longrightarrow> keeps (\<lambda>s. P s \<or> Q s) m"
  by (rule keepsI) (auto dest: keepsD)

lemma fetch_hop_leads:
  assumes P: "requests_counted P env"
  shows "leads (P k) (fetch_hop ul policy env left url) (\<lambda>s. P k s \<or> P (Suc k) s)"
proof (rule leadsI)
  fix s r s'
  assume s: "P k s" and run: "fetch_hop ul policy env left url s = (r, s')"
  have kept: "keeps (\<lambda>s. P k s \<or> P (Suc k) s) (fe_exit env)" "keeps (\<lambda>s. P k s \<or> P (Suc k) s) (fe_close_response env)"
    "keeps (\<lambda>s. P k s \<or> P (Suc k) s) (fe_body env)" and enter: "keeps (P k) (fe_enter env)"
    using P by (auto simp: requests_counted_def intro!: keeps_either)
  obtain q s1 where q: "resolve_pinned_target ul env url s = (q, s1)" by fastforce
  have s1: "P k s1" by (rule keepsD [OF resolve_keeps [OF P] s q])
  show "P k s' \<or> P (Suc k) s'"
  proof (cases q)
    case (Inl e)
    then show ?thesis using run q s1 by (simp add: fetch_hop_def bindM_def)
  next
    case (Inr target)
    obtain u s2 where u: "fe_enter env s1 = (u, s2)" by fastforce
    have s2: "P k s2" by (rule keepsD [OF enter s1 u])
    have "leads (P k) (finallyM
         (bindM (send_request env target url) (\<lambda>r. finallyM (handle_response ul policy env left url r) (fe_close_response env)))
         (fe_exit env)) (\<lambda>s. P k s \<or> P (Suc k) s)"
      by (intro leads_finally leads_bind send_leads P resolve_public [OF q [unfolded Inr]] keeps_finally handle_keeps kept)
    then show ?thesis
      using run q Inr u s2 by (auto simp: fetch_hop_def bindM_def dest: leadsD split: sum.splits)
  qed
qed

lemma fetch_hops_leads:
  assumes P: "requests_counted P env"
  shows "P k s \<Longrightarrow> fetch_hops n ul policy env url s = (r, s') \<Longrightarrow> \<exists>j \<le> k + n. P j s'"
proof (induction n arbitrary: k url s)
  case (Suc n)
  obtain q s1 where q: "fetch_hop ul policy env n url s = (q, s1)" by fastforce
  have "P k s1 \<or> P (Suc k) s1" by (rule leadsD [OF fetch_hop_leads [OF P] Suc.prems(1) q])
  then obtain i where i: "i \<le> Suc k" "P i s1" by (meson le_SucI order_refl)
  show ?case
  proof (cases "\<exists>next_url. q = Inr (Inl next_url)")
    case True
    then obtain next_url where "fetch_hops n ul policy env next_url s1 = (r, s')"
      using Suc.prems(2) q by (auto simp: bindM_def)
    from Suc.IH [OF i(2) this] obtain j where "j \<le> i + n" "P j s'" by blast
    then show ?thesis using i(1) by (intro exI [of _ j]) auto
  next
    case False
    then have "s' = s1"
      using Suc.prems(2) q by (auto simp: bindM_def returnM_def split: sum.splits)
    then show ?thesis using i by (intro exI [of _ i]) auto
  qed
qed (auto simp: raiseM_def)

section \<open>What comes back\<close>

definition acceptable :: "fetch_policy \<Rightarrow> fetched_media \<Rightarrow> bool" where
  "acceptable policy m \<longleftrightarrow> fm_content m \<noteq> [] \<and> length (fm_content m) \<le> fp_max_bytes policy
     \<and> fm_content_type m \<in> set (fp_media_types policy)
     \<and> fm_filename m \<noteq> [] \<and> length (fm_filename m) \<le> 128 \<and> list_all (\<lambda>c. 32 \<le> c) (fm_filename m)"

lemma read_bounded_limit: "read_bounded m k cs = Inr bs \<Longrightarrow> k \<le> m \<Longrightarrow> k + length bs \<le> m"
  by (induction m k cs arbitrary: bs rule: read_bounded.induct) (auto simp: result_iffs split: if_splits)

lemma safe_filename_ok: "safe_filename ul url = Inr f \<Longrightarrow> f \<noteq> [] \<and> length f \<le> 128 \<and> list_all (\<lambda>c. 32 \<le> c) f"
proof -
  have audio: "lit ''audio'' \<noteq> []" "length (lit ''audio'') \<le> 128" "list_all (\<lambda>c. 32 \<le> c) (lit ''audio'')"
    by code_simp+
  assume "safe_filename ul url = Inr f"
  then show ?thesis
    using audio by (auto simp: safe_filename_def result_iffs Let_def list_ex_iff list_all_iff not_less split: if_splits)
qed

lemma finallyM_Inr: "finallyM m f s = (Inr x, s') \<Longrightarrow> \<exists>s1. m s = (Inr x, s1)"
  by (auto simp: finallyM_def split: prod.splits sum.splits)

lemma handle_acceptable: "handle_response ul policy env left url r s = (Inr (Inr m), s') \<Longrightarrow> acceptable policy m"
  by (auto simp: handle_response_def comp_iffs acceptable_def dest!: safe_filename_ok
      dest: read_bounded_limit [of "fp_max_bytes policy" 0, simplified] split: if_splits option.splits)

lemma fetch_hop_acceptable: "fetch_hop ul policy env left url s = (Inr (Inr m), s') \<Longrightarrow> acceptable policy m"
  by (auto simp: fetch_hop_def comp_iffs dest!: finallyM_Inr dest: handle_acceptable)

lemma fetch_hops_acceptable: "fetch_hops n ul policy env url s = (Inr m, s') \<Longrightarrow> acceptable policy m"
proof (induction n arbitrary: url s)
  case (Suc n)
  then obtain q s1 where "fetch_hop ul policy env n url s = (Inr q, s1)"
      "(case q of Inl next_url \<Rightarrow> fetch_hops n ul policy env next_url | Inr m \<Rightarrow> returnM m) s1 = (Inr m, s')"
    unfolding fetch_hops.simps bindM_Inr_iff by blast
  then show ?case using Suc.IH fetch_hop_acceptable by (cases q) (auto simp: comp_iffs)
qed (simp add: comp_iffs)

lemma normalize_url_fails: "normalize_url ul v = Inl e \<Longrightarrow> (\<And>e'. ul_split ul v = Inl e' \<Longrightarrow> is_value_error e') \<Longrightarrow>
    (\<And>e'. ul_port ul v = Inl e' \<Longrightarrow> is_value_error e') \<Longrightarrow> e = UrlFetchError UF_INVALID_URL"
  by (auto simp: normalize_url_def fetch_failure_def split: if_splits sum.splits)

section \<open>Properties\<close>

text \<open>
  Property C4. Fetching by URL reaches public addresses only. Whatever the resolver answers and wherever the
  responses redirect, at most \<^verbatim>\<open>max_redirects\<close> + 1 requests are made, each over a connection to an address
  that was checked to be public, with a single \<^verbatim>\<open>Host\<close> header and no credentials. What is returned is
  non-empty media of an allowed type within the byte limit under a harmless name; every failure is a \<^verbatim>\<open>UrlFetchError\<close>.
\<close>

theorem fetch_confined:
  assumes "requests_counted P env" "P 0 s"
    and "\<And>v e. ul_split ul v = Inl e \<Longrightarrow> is_value_error e" "\<And>v e. ul_port ul v = Inl e \<Longrightarrow> is_value_error e"
    and "fetch_url ul policy env url s = (r, s')"
  shows "(\<exists>k \<le> fp_max_redirects policy + 1. P k s')
    \<and> (case r of Inr m \<Rightarrow> acceptable policy m | Inl e \<Rightarrow> \<exists>f. e = UrlFetchError f)"
proof (cases "normalize_url ul url")
  case (Inl e)
  then have "r = Inl e \<and> s' = s" using assms(5) by (simp add: fetch_url_def bindM_def liftE_def)
  then show ?thesis using normalize_url_fails [OF Inl assms(3,4)] assms(2) by auto
next
  case (Inr u)
  obtain q where q: "fetch_hops (fp_max_redirects policy + 1) ul policy env u s = (q, s')"
      "r = (case q of Inl e \<Rightarrow> Inl (fetch_error e) | Inr m \<Rightarrow> Inr m)"
    using assms(5) Inr
    by (cases "fetch_hops (fp_max_redirects policy + 1) ul policy env u s")
      (auto simp: fetch_url_def bindM_lift catchM_def raiseM_def simp del: fetch_hops.simps split: sum.splits intro: that)
  have "\<exists>f. fetch_error e = UrlFetchError f" for e
    by (cases e) (simp_all add: fetch_error_def fetch_failure_def)
  then show ?thesis
    using q fetch_hops_leads [OF assms(1,2) q(1)] fetch_hops_acceptable [of "fp_max_redirects policy + 1" ul policy env u s]
    by (cases q) auto
qed

text \<open>A public host that redirects once; its world records the addresses that were connected to.\<close>

definition demo_lib :: url_lib where
  "demo_lib = \<lparr>ul_split = (\<lambda>v. Inr \<lparr>ur_scheme = lit ''http'', ur_netloc = lit ''h'', ur_path = v, ur_query = [], ur_fragment = [],
       ur_hostname = Some (lit ''h''), ur_username = None, ur_password = None\<rparr>),
     ul_port = (\<lambda>v. Inr None), ul_unsplit = (\<lambda>s n p q. p), ul_join = (\<lambda>u l. Inr l), ul_unquote = (\<lambda>p. p), ul_casefold = (\<lambda>s. s),
     ul_int = (\<lambda>s. None)\<rparr>"

definition demo_fetch_env :: "ip_address list fetch_env" where
  "demo_fetch_env = \<lparr>fe_lookup = (\<lambda>h p. returnM [Inr (IPv4 0x08080808)]),
     fe_request = (\<lambda>u. \<lparr>hr_scheme = lit ''http'', hr_host = lit ''h'', hr_port = None, hr_netloc = [], hr_headers = []\<rparr>),
     fe_enter = returnM (), fe_exit = returnM (),
     fe_connect = (\<lambda>a p r w. (Inr (if w = [] then \<lparr>rs_status = 302, rs_location = Some (lit ''/a.wav''), rs_content_type = None, rs_content_length = None\<rparr>
        else \<lparr>rs_status = 200, rs_location = None, rs_content_type = Some (lit ''audio/wav''), rs_content_length = None\<rparr>), w @ [a])),
     fe_body = returnM [Inr [1, 2]], fe_close_response = returnM ()\<rparr>"

definition demo_policy :: fetch_policy where
  "demo_policy = \<lparr>fp_max_bytes = 10, fp_max_redirects = 3, fp_media_types = [lit ''audio/wav'']\<rparr>"

lemma demo_public: "is_public_address (IPv4 0x08080808)"
  by (simp add: in_network_def octets_def is_private_v4_def private_v4_def public_exceptions_v4_def drop_bit_eq_div)

lemma demo_url_texts:
  "py_strip (lit ''/x'') = lit ''/x''" "py_strip (lit ''/a.wav'') = lit ''/a.wav''" "py_strip (lit ''a.wav'') = lit ''a.wav''"
  "py_strip (takeWhile (\<lambda>c. c \<noteq> 59) (lit ''audio/wav'')) = lit ''audio/wav''" "posix_name (lit ''/a.wav'') = lit ''a.wav''"
  "list_ex (\<lambda>c. c < 32) (lit ''a.wav'') = False" "is_metadata_hostname demo_lib (lit ''h'') = False"
  by code_simp+

lemma lit_Nil [simp]: "lit s = [] \<longleftrightarrow> s = []"
  by (simp add: lit_def)

lemma demo_fetch:
  "fetch_url demo_lib demo_policy demo_fetch_env (lit ''/x'') [] =
     (Inr \<lparr>fm_filename = lit ''a.wav'', fm_content_type = lit ''audio/wav'', fm_content = [1, 2]\<rparr>, [IPv4 0x08080808, IPv4 0x08080808])"
  using demo_public demo_url_texts
  by (simp add: fetch_url_def fetch_hop_def handle_response_def resolve_pinned_target_def resolve_def send_request_def pinned_exchange_def
      normalize_url_def content_type_of_def safe_filename_def validate_declared_size_def is_redirect_def is_http_def port_or_default_def default_port_def
      demo_fetch_env_def demo_policy_def demo_lib_def Let_def bindM_def liftE_def guardM_def returnM_def raiseM_def catchM_def finallyM_def
      eval_nat_numeral)

theorem fetch_confined_witness:
  "\<exists>r. fetch_url demo_lib demo_policy demo_fetch_env (lit ''/x'') [] = (Inr r, [IPv4 0x08080808, IPv4 0x08080808]) \<and> acceptable demo_policy r"
proof -
  let ?P = "\<lambda>k w. length w = k \<and> list_all is_public_address w"
  have "requests_counted ?P demo_fetch_env"
    by (auto simp: requests_counted_def demo_fetch_env_def sendable_def returnM_def intro!: keepsI hoareI)
  then show ?thesis
    using fetch_confined [where P = ?P, OF _ _ _ _ demo_fetch] demo_fetch by (auto simp: demo_lib_def)
qed

end
