(* ===== verification/Evidence.thy ===== *)
theory Evidence
  imports Aggregation Lifecycle Effects "HOL-Library.Multiset"
begin

text \<open>
  What a run leaves behind: the run envelope (\<^verbatim>\<open>evidence/envelope.py\<close>) and its storage
  (\<^verbatim>\<open>storage/repositories.py\<close>), the rows the repositories write and the unit of work that puts them
  into one transaction. The database session is a parameter; a JSON column is represented by the model
  whose \<^verbatim>\<open>model_dump\<close> it holds.
\<close>

section \<open>The envelope\<close>

datatype run_source = SOURCE_OPENWEBUI | SOURCE_REST_FILE | SOURCE_REST_URL | SOURCE_WEBSOCKET | SOURCE_EVAL

record media_descriptor =
  md_sha256 :: pystr
  md_mime_type :: pystr
  md_duration :: pyfloat
  md_sample_rate :: int
  md_channels :: int

record model_binding =
  mb_agent_id :: pystr
  mb_provider_id :: pystr
  mb_model_id :: pystr
  mb_effort :: "reasoning_effort option"

record revision_set =
  rv_code_sha :: pystr
  rv_prompt_bundle_hash :: pystr
  rv_taxonomy :: pystr
  rv_quality :: pystr
  rv_compliance :: pystr
  rv_asr :: component_revision
  rv_alignment :: component_revision
  rv_diarization :: component_revision
  rv_dataset :: "pystr option"
  rv_eval_case :: "pystr option"

record run_budget =
  bu_deadline :: int
  bu_max_turns :: int
  bu_max_tokens :: int
  bu_max_cost :: rat

record privacy_policy =
  pr_mode :: pystr
  pr_audio_seconds :: int
  pr_evidence_days :: int
  pr_full_content :: bool

record run_envelope =
  nv_run_id :: uuid
  nv_request_id :: uuid
  nv_correlation_id :: uuid
  nv_source :: run_source
  nv_media :: media_descriptor
  nv_provider :: "model_binding list"
  nv_revisions :: revision_set
  nv_budget :: run_budget
  nv_privacy :: privacy_policy
  nv_created_at :: int

text \<open>
  \<^verbatim>\<open>MimeType\<close>: the pattern is matched before \<^verbatim>\<open>to_lower\<close> applies and allows no upper-case letter, so
  the lower-casing leaves every accepted value alone.
\<close>

definition mime_char :: "nat \<Rightarrow> bool" where
  "mime_char c \<longleftrightarrow> (97 \<le> c \<and> c \<le> 122) \<or> (48 \<le> c \<and> c \<le> 57) \<or> c \<in> set (lit ''!#$&^_.+-'')"

fun mime_name :: "pystr \<Rightarrow> bool" where
  "mime_name [] = False"
| "mime_name (c # cs) \<longleftrightarrow> ((97 \<le> c \<and> c \<le> 122) \<or> (48 \<le> c \<and> c \<le> 57)) \<and> list_all mime_char cs \<and> length cs \<le> 126"

definition mime_type :: "pystr \<Rightarrow> exn + pystr" where
  "mime_type v =
     (let s = strip v; a = takeWhile (\<lambda>c. c \<noteq> 47) s in
      if a \<noteq> s \<and> mime_name a \<and> mime_name (drop (length a + 1) s) then Inr s else Inl ValidationError)"

definition validate_MediaDescriptor :: "media_descriptor \<Rightarrow> exn + media_descriptor" where
  "validate_MediaDescriptor m =
     bindE (sha256 (md_sha256 m)) (\<lambda>_.
     bindE (mime_type (md_mime_type m)) (\<lambda>mime.
     bindE (positive (md_duration m)) (\<lambda>_.
     bindE (positive (md_sample_rate m)) (\<lambda>_.
     bindE (positive (md_channels m)) (\<lambda>_.
       Inr (m\<lparr>md_mime_type := mime\<rparr>))))))"

definition validate_ModelBinding :: "model_binding \<Rightarrow> exn + model_binding" where
  "validate_ModelBinding b =
     bindE (non_empty_id (mb_agent_id b)) (\<lambda>agent.
     bindE (non_empty_id (mb_provider_id b)) (\<lambda>provider.
     bindE (non_empty_id (mb_model_id b)) (\<lambda>model.
       Inr (b\<lparr>mb_agent_id := agent, mb_provider_id := provider, mb_model_id := model\<rparr>))))"

definition validate_ProviderFingerprint :: "model_binding list \<Rightarrow> exn + model_binding list" where
  "validate_ProviderFingerprint bs =
     (if bs = [] \<or> \<not> all_unique (map mb_agent_id bs) then Inl ValidationError else Inr bs)"

definition validate_RevisionSet :: "revision_set \<Rightarrow> exn + revision_set" where
  "validate_RevisionSet r =
     bindE (non_empty_id (rv_code_sha r)) (\<lambda>code.
     bindE (sha256 (rv_prompt_bundle_hash r)) (\<lambda>_.
     bindE (non_empty_id (rv_taxonomy r)) (\<lambda>taxonomy.
     bindE (non_empty_id (rv_quality r)) (\<lambda>quality.
     bindE (non_empty_id (rv_compliance r)) (\<lambda>compliance.
     bindE (optional non_empty_id (rv_dataset r)) (\<lambda>dataset.
     bindE (optional non_empty_id (rv_eval_case r)) (\<lambda>eval_case.
     bindE (requireE ValidationError (\<not> (eval_case \<noteq> None \<and> dataset = None))) (\<lambda>_.
       Inr (r\<lparr>rv_code_sha := code, rv_taxonomy := taxonomy, rv_quality := quality, rv_compliance := compliance,
              rv_dataset := dataset, rv_eval_case := eval_case\<rparr>)))))))))"

definition validate_RunBudget :: "run_budget \<Rightarrow> exn + run_budget" where
  "validate_RunBudget b =
     (if 0 < bu_max_turns b \<and> 0 < bu_max_tokens b \<and> 0 \<le> bu_max_cost b then Inr b else Inl ValidationError)"

definition validate_PrivacyPolicy :: "privacy_policy \<Rightarrow> exn + privacy_policy" where
  "validate_PrivacyPolicy p =
     bindE (non_empty_id (pr_mode p)) (\<lambda>mode.
     bindE (non_negative (pr_audio_seconds p)) (\<lambda>_.
     bindE (non_negative (pr_evidence_days p)) (\<lambda>_.
       Inr (p\<lparr>pr_mode := mode\<rparr>))))"

text \<open>The nested models are instances already, which pydantic keeps as they are.\<close>

definition validate_RunEnvelope :: "run_envelope \<Rightarrow> exn + run_envelope" where
  "validate_RunEnvelope e =
     (if bu_deadline (nv_budget e) \<le> nv_created_at e then Inl ValidationError else Inr e)"

section \<open>The rows\<close>

datatype run_status = STATUS_QUEUED | STATUS_PROCESSING | STATUS_COMPLETED | STATUS_FAILED

record run_row =
  rw_run_id :: uuid
  rw_request_id :: uuid
  rw_correlation_id :: uuid
  rw_source :: run_source
  rw_status :: run_status
  rw_envelope :: run_envelope
  rw_error_code :: "error_code option"

record event_row =
  er_run_id :: uuid
  er_sequence :: int
  er_event_type :: event_type
  er_occurred_at :: int
  er_component :: pystr
  er_payload :: payload
  er_previous_hash :: "pystr option"
  er_current_hash :: pystr

datatype statement = InsertRun run_row
  | UpdateRun uuid run_status "error_code option"
  | InsertEvent event_row
  | InsertAnalysis uuid sanitized_record pystr

definition row_of_envelope :: "run_envelope \<Rightarrow> run_row" where
  "row_of_envelope e = \<lparr>rw_run_id = nv_run_id e, rw_request_id = nv_request_id e,
     rw_correlation_id = nv_correlation_id e, rw_source = nv_source e, rw_status = STATUS_QUEUED,
     rw_envelope = e, rw_error_code = None\<rparr>"

definition row_of_event :: "run_event \<Rightarrow> event_row" where
  "row_of_event e = (let c = re_content e in
     \<lparr>er_run_id = ec_run_id c, er_sequence = ec_sequence c, er_event_type = ec_type c,
      er_occurred_at = ec_occurred_at c, er_component = ec_component c, er_payload = ec_payload c,
      er_previous_hash = ec_previous_hash c, er_current_hash = re_current_hash e\<rparr>)"

text \<open>\<^verbatim>\<open>SqlAlchemyEventRepository.list\<close> builds each event again from its row and validates it.\<close>

definition event_of_row :: "event_row \<Rightarrow> exn + run_event" where
  "event_of_row r =
     bindE (validate_RedactedPayload (er_payload r)) (\<lambda>attrs.
       validate_RunEvent \<lparr>re_content = \<lparr>ec_run_id = er_run_id r, ec_sequence = er_sequence r,
         ec_type = er_event_type r, ec_occurred_at = er_occurred_at r, ec_component = er_component r,
         ec_payload = attrs, ec_previous_hash = er_previous_hash r\<rparr>, re_current_hash = er_current_hash r\<rparr>)"

text \<open>The rows of a run as the query returns them, in the order of their sequence numbers.\<close>

definition list_events :: "uuid \<Rightarrow> event_row list \<Rightarrow> exn + run_event list" where
  "list_events run rows = mapE event_of_row (sort_key er_sequence (filter (\<lambda>r. er_run_id r = run) rows))"

section \<open>The unit of work\<close>

text \<open>The operations of a database session; each may raise.\<close>

record 'w db_session =
  db_begin :: "('w, unit) comp"
  db_execute :: "statement \<Rightarrow> ('w, unit) comp"
  db_commit :: "('w, unit) comp"
  db_rollback :: "('w, unit) comp"
  db_close :: "('w, unit) comp"

text \<open>\<^verbatim>\<open>SqlAlchemyUnitOfWork\<close>: whether \<^verbatim>\<open>_session\<close> is set, and the world its session acts on.\<close>

record 'w uow =
  uw_session :: bool
  uw_world :: 'w

definition on_session :: "('w, 'a) comp \<Rightarrow> ('w uow, 'a) comp" where
  "on_session m u = (case m (uw_world u) of (r, w) \<Rightarrow> (r, u\<lparr>uw_world := w\<rparr>))"

definition uow_enter :: "'w db_session \<Rightarrow> ('w uow, unit) comp" where
  "uow_enter db = bindM (on_session (db_begin db)) (\<lambda>_. modifyM (uw_session_update (\<lambda>_. True)))"

definition uow_exit :: "'w db_session \<Rightarrow> bool \<Rightarrow> ('w uow, unit) comp" where
  "uow_exit db raised =
     bindM (readM uw_session) (\<lambda>active.
       if \<not> active then returnM ()
       else finallyM (if raised then on_session (db_rollback db) else returnM ())
              (bindM (on_session (db_close db)) (\<lambda>_. modifyM (uw_session_update (\<lambda>_. False)))))"

definition uow_commit :: "'w db_session \<Rightarrow> ('w uow, unit) comp" where
  "uow_commit db = bindM (requireM RuntimeError uw_session) (\<lambda>_. on_session (db_commit db))"

definition uow_rollback :: "'w db_session \<Rightarrow> ('w uow, unit) comp" where
  "uow_rollback db = bindM (requireM RuntimeError uw_session) (\<lambda>_. on_session (db_rollback db))"

text \<open>\<^verbatim>\<open>async with\<close>: an exception of the exit replaces the outcome of the body.\<close>

definition with_uow :: "'w db_session \<Rightarrow> ('w uow, unit) comp \<Rightarrow> ('w uow, unit) comp" where
  "with_uow db body =
     bindM (uow_enter db) (\<lambda>_.
     bindM (catchM body (\<lambda>e. bindM (uow_exit db True) (\<lambda>_. raiseM e))) (\<lambda>_. uow_exit db False))"

section \<open>The repositories\<close>

definition create_run :: "'w db_session \<Rightarrow> run_envelope \<Rightarrow> ('w uow, unit) comp" where
  "create_run db e = on_session (db_execute db (InsertRun (row_of_envelope e)))"

definition set_status :: "'w db_session \<Rightarrow> uuid \<Rightarrow> run_status \<Rightarrow> error_code option \<Rightarrow> ('w uow, unit) comp" where
  "set_status db run status error = on_session (db_execute db (UpdateRun run status error))"

definition append_event :: "'w db_session \<Rightarrow> run_event \<Rightarrow> ('w uow, unit) comp" where
  "append_event db e = on_session (db_execute db (InsertEvent (row_of_event e)))"

text \<open>\<open>digest\<close> is \<^verbatim>\<open>canonical_json_sha256\<close>.\<close>

definition save_sanitized ::
  "'w db_session \<Rightarrow> (sanitized_record \<Rightarrow> exn + pystr) \<Rightarrow> sanitized_record \<Rightarrow> ('w uow, unit) comp" where
  "save_sanitized db digest r =
     bindM (liftE (digest r)) (\<lambda>h. on_session (db_execute db (InsertAnalysis (sr_run_id r) r h)))"

section \<open>Transactions\<close>

text \<open>
  What a database promises of a session: a session starts with nothing pending, executing a statement
  adds it to what is pending, and only a commit makes anything durable, all that is pending or nothing;
  a commit that fails may still have reached the database. \<open>durable\<close> lists the transactions committed so far.
\<close>

definition transactional ::
  "'w db_session \<Rightarrow> ('w \<Rightarrow> statement list list) \<Rightarrow> ('w \<Rightarrow> statement list) \<Rightarrow> bool" where
  "transactional db durable pending \<longleftrightarrow>
     (\<forall>d. hoare (\<lambda>w. durable w = d) (db_begin db) (\<lambda>_ w. durable w = d \<and> pending w = []) (\<lambda>_ w. durable w = d))
   \<and> (\<forall>d p st. hoare (\<lambda>w. durable w = d \<and> pending w = p) (db_execute db st)
        (\<lambda>_ w. durable w = d \<and> pending w = p @ [st]) (\<lambda>_ w. durable w = d))
   \<and> (\<forall>d p. hoare (\<lambda>w. durable w = d \<and> pending w = p) (db_commit db)
        (\<lambda>_ w. durable w = d @ [p]) (\<lambda>_ w. durable w = d \<or> durable w = d @ [p]))
   \<and> (\<forall>d. keeps (\<lambda>w. durable w = d) (db_rollback db)) \<and> (\<forall>d. keeps (\<lambda>w. durable w = d) (db_close db))"

lemma on_session_hoare:
  assumes "hoare P m Q E"
  shows "hoare (\<lambda>u. P (uw_world u)) (on_session m) (\<lambda>x u. Q x (uw_world u)) (\<lambda>e u. E e (uw_world u))"
  using assms by (fastforce simp: hoare_def on_session_def split: prod.splits)

lemma on_session_keeps: "keeps P m \<Longrightarrow> keeps (\<lambda>u. P (uw_world u)) (on_session m)"
  unfolding keeps_def by (rule on_session_hoare)

lemma uow_exit_keeps:
  assumes "keeps P (db_rollback db)" "keeps P (db_close db)"
  shows "keeps (\<lambda>u. P (uw_world u)) (uow_exit db raised)"
  unfolding uow_exit_def
  by (intro hoare_rules keeps_finally on_session_keeps assms keeps_modify) simp_all

lemma with_uow_hoare:
  assumes start: "hoare P (db_begin db) (\<lambda>_. R) (\<lambda>_. E)"
    and body: "hoare (\<lambda>u. R (uw_world u)) body (\<lambda>_ u. Q (uw_world u)) (\<lambda>_ u. E (uw_world u))"
    and exit: "keeps Q (db_rollback db)" "keeps Q (db_close db)" "keeps E (db_rollback db)" "keeps E (db_close db)"
    and weak: "\<And>w. Q w \<Longrightarrow> E w"
  shows "hoare (\<lambda>u. P (uw_world u)) (with_uow db body) (\<lambda>_ u. Q (uw_world u)) (\<lambda>_ u. E (uw_world u))"
proof -
  let ?Q = "\<lambda>u. Q (uw_world u)" and ?E = "\<lambda>u. E (uw_world u)" and ?R = "\<lambda>u. R (uw_world u)"
  have enter: "hoare (\<lambda>u. P (uw_world u)) (uow_enter db) (\<lambda>_. ?R) (\<lambda>_. ?E)"
    unfolding uow_enter_def by (rule hoare_bind [OF on_session_hoare [OF start]]) (simp add: hoare_modify)
  have handler: "hoare ?E (bindM (uow_exit db True) (\<lambda>_. raiseM e)) (\<lambda>_. ?Q) (\<lambda>_. ?E)" for e
    by (rule hoare_bind [OF hoare_keeps [OF uow_exit_keeps [OF exit(3,4)]]]) (rule hoare_raise)
  have leave: "hoare ?Q (uow_exit db False) (\<lambda>_. ?Q) (\<lambda>_. ?E)"
    by (rule hoare_weaken [OF hoare_keeps [OF uow_exit_keeps [OF exit(1,2)]]]) (simp_all add: weak)
  show ?thesis
    unfolding with_uow_def
    by (rule hoare_bind [OF enter], rule hoare_bind [OF hoare_catch [OF body handler]], rule leave)
qed

section \<open>Reading a log back\<close>

lemma valid_payload_again: "validate_RedactedPayload p = Inr q \<Longrightarrow> validate_RedactedPayload q = Inr q"
proof -
  assume "validate_RedactedPayload p = Inr q"
  then have q: "mapE (\<lambda>(k, v). bindE (non_empty_id k) (\<lambda>k'. Inr (k', v))) p = Inr q" "distinct (map fst q)"
    by (auto simp: validate_RedactedPayload_def result_iffs)
  have "mapE (\<lambda>(k, v). bindE (non_empty_id k) (\<lambda>k'. Inr (k', v))) q = Inr (map id q)"
  proof (rule mapE_pure)
    fix x
    assume "x \<in> set q"
    then obtain y where "(case y of (k, v) \<Rightarrow> bindE (non_empty_id k) (\<lambda>k'. Inr (k', v))) = Inr x"
      using q(1) unfolding mapE_Inr_iff list_all2_conv_all_nth in_set_conv_nth by metis
    then show "(case x of (k, v) \<Rightarrow> bindE (non_empty_id k) (\<lambda>k'. Inr (k', v))) = Inr (id x)"
      by (cases y) (auto simp: result_iffs dest: id_type.normal)
  qed
  then show ?thesis using q(2) by (simp add: validate_RedactedPayload_def requireE_def)
qed

text \<open>An event that the collector appended is read back from its row as it was.\<close>

definition storable :: "run_event \<Rightarrow> bool" where
  "storable e \<longleftrightarrow> validate_RunEvent e = Inr e
     \<and> validate_RedactedPayload (ec_payload (re_content e)) = Inr (ec_payload (re_content e))"

lemma event_row_roundtrip: "storable e \<Longrightarrow> event_of_row (row_of_event e) = Inr e"
  by (cases e; cases "re_content e") (simp add: event_of_row_def row_of_event_def storable_def Let_def)

lemma chained_from_sequences: "chained_from h n p es \<Longrightarrow> map (\<lambda>e. ec_sequence (re_content e)) es = map (\<lambda>i. n + int i) [0..<length es]"
proof (induction es arbitrary: n p)
  case (Cons e es)
  then have "map (\<lambda>e. ec_sequence (re_content e)) es = map (\<lambda>i. n + 1 + int i) [0..<length es]" by simp blast
  moreover have "map (\<lambda>i. n + int i) [0..<Suc (length es)] = n # map (\<lambda>i. n + 1 + int i) [0..<length es]"
    by (simp add: upt_conv_Cons del: upt_Suc) (simp add: map_Suc_upt [symmetric] comp_def del: upt_Suc map_Suc_upt)
  ultimately show ?case using Cons.prems by simp
qed simp

text \<open>
  A log whose rows lie in the table in any order, between the rows of other runs, is read back as it was.
\<close>

lemma stored_log_roundtrip:
  assumes "chained h es" "\<And>e. e \<in> set es \<Longrightarrow> storable e" "mset (filter (\<lambda>r. er_run_id r = run) rows) = mset (map row_of_event es)"
  shows "list_events run rows = Inr es"
proof -
  have seqs: "map er_sequence (map row_of_event es) = map (\<lambda>i. 1 + int i) [0..<length es]"
    using chained_from_sequences [OF assms(1) [unfolded chained_def]] by (simp add: row_of_event_def Let_def comp_def)
  have sorted: "sorted (map er_sequence (map row_of_event es))"
    unfolding seqs by (simp add: sorted_iff_nth_mono)
  have inj: "inj_on er_sequence (set (map row_of_event es))"
    using arg_cong [OF seqs, of distinct] by (auto simp: distinct_map inj_on_def)
  have "sort_key er_sequence (filter (\<lambda>r. er_run_id r = run) rows) = map row_of_event es"
    by (rule sort_key_inj_key_eq [OF assms(3) _ sorted]) (use inj mset_eq_setD [OF assms(3)] in simp)
  moreover have "mapE event_of_row (map row_of_event es) = Inr es"
    using assms(2) by (simp add: mapE_Inr_iff list_all2_map1 list.rel_refl_strong event_row_roundtrip)
  ultimately show ?thesis by (simp add: list_events_def)
qed

end
