(* ===== verification/Analysis.thy ===== *)
theory Analysis
  imports Evidence Fetch
begin

text \<open>
  The shared use case (\<^verbatim>\<open>workflow/analysis.py\<close>): a source is fetched and transcribed, the four agents run,
  their outputs are aggregated, and the run is stored with its event log in one transaction. Speech
  service, URL fetcher, agents, database and clocks are parameters; telemetry is left out.
\<close>

section \<open>Errors\<close>

fun url_failure_value :: "url_fetch_failure \<Rightarrow> pystr" where
  "url_failure_value UF_INVALID_URL = lit ''invalid_url''"
| "url_failure_value UF_BLOCKED_ADDRESS = lit ''blocked_address''"
| "url_failure_value UF_REDIRECT_LIMIT = lit ''redirect_limit''"
| "url_failure_value UF_UNSUPPORTED_MEDIA = lit ''unsupported_media''"
| "url_failure_value UF_PAYLOAD_TOO_LARGE = lit ''payload_too_large''"
| "url_failure_value UF_TIMEOUT = lit ''timeout''"
| "url_failure_value UF_UNAVAILABLE = lit ''unavailable''"

definition map_fetch_failure :: "url_fetch_failure \<Rightarrow> error_code" where
  "map_fetch_failure f =
     (if f = UF_PAYLOAD_TOO_LARGE then PAYLOAD_TOO_LARGE
      else if f = UF_UNSUPPORTED_MEDIA then UNSUPPORTED_MEDIA
      else if f = UF_TIMEOUT then DEADLINE_EXCEEDED
      else if f = UF_UNAVAILABLE then SERVICE_UNAVAILABLE
      else INVALID_URL)"

definition map_agent_failure :: "exn \<Rightarrow> error_code" where
  "map_agent_failure e =
     (case e of
        AgentRuntimeError c \<Rightarrow>
          if c = FAIL_PROVIDER_RATE_LIMITED then QUOTA_EXCEEDED
          else if c \<in> {FAIL_DEADLINE_EXCEEDED, FAIL_PROVIDER_TIMEOUT} then DEADLINE_EXCEEDED
          else if c = FAIL_CIRCUIT_OPEN then SERVICE_UNAVAILABLE
          else if c \<in> {FAIL_PROVIDER_AUTHENTICATION, FAIL_PROVIDER_PERMISSION, FAIL_PROVIDER_INVALID_REQUEST,
                       FAIL_PROVIDER_TRANSPORT, FAIL_PROVIDER_SERVER} then PROVIDER_FAILURE
          else AGENT_FAILURE
      | _ \<Rightarrow> AGENT_FAILURE)"

text \<open>
  What a task group raises: one exception, or a group of them. The code compares by identity; an
  exception nested in a group differs from the group, and so does its value.
\<close>

datatype exn_tree = Single exn | Group "exn_tree list"

fun first_taskgroup_error :: "exn_tree \<Rightarrow> exn_tree" where
  "first_taskgroup_error (Single e) = Single e"
| "first_taskgroup_error (Group es) =
     (case List.find (\<lambda>found. found \<noteq> Group es) (map first_taskgroup_error es) of
        Some found \<Rightarrow> found
      | None \<Rightarrow> Group es)"

text \<open>A group that is raised itself is an exception of no class that the handlers name.\<close>

definition group_error :: "exn_tree \<Rightarrow> exn" where
  "group_error t = (case first_taskgroup_error t of Single e \<Rightarrow> e | Group es \<Rightarrow> OtherError)"

section \<open>State, inputs and dependencies\<close>

text \<open>The event collector of the run, whose count of clock readings serves the whole run, and the world.\<close>

record 'w flow =
  fl_log :: recorder
  fl_world :: 'w

type_synonym ('w, 'a) flow_comp = "('w flow, 'a) comp"

definition on_world :: "('w, 'a) comp \<Rightarrow> ('w, 'a) flow_comp" where
  "on_world m s = (case m (fl_world s) of (r, w) \<Rightarrow> (r, s\<lparr>fl_world := w\<rparr>))"

definition log_event :: "recorder_env \<Rightarrow> event_type \<Rightarrow> Lifecycle.payload \<Rightarrow> ('w, run_event) flow_comp" where
  "log_event env t p s = (case collector_record env t p (fl_log s) of (r, l) \<Rightarrow> (r, s\<lparr>fl_log := l\<rparr>))"

definition append_agent_event :: "recorder_env \<Rightarrow> run_event \<Rightarrow> ('w, run_event) flow_comp" where
  "append_agent_event env e s = (case collector_append env e (fl_log s) of (r, l) \<Rightarrow> (r, s\<lparr>fl_log := l\<rparr>))"

definition read_now :: "recorder_env \<Rightarrow> ('w, int) flow_comp" where
  "read_now env s = (Inr (le_now env (lr_readings (fl_log s))), s\<lparr>fl_log := (fl_log s)\<lparr>lr_readings := lr_readings (fl_log s) + 1\<rparr>\<rparr>)"

text \<open>\<^verbatim>\<open>FileAnalyzeInput\<close> has the fields of the fetched media.\<close>

datatype analyze_input = FileAnalyzeInput fetched_media | UrlAnalyzeInput pystr | OtherInput

datatype agent_output = OutClassification classification_result | OutQuality quality_assessment
  | OutCompliance compliance_assessment | OutSummary summary_result | OutOther json

text \<open>Settings; \<open>ws_deadline\<close> is the deadline as \<^verbatim>\<open>timedelta\<close> keeps it, in microseconds.\<close>

record workflow_settings =
  ws_code_sha :: pystr
  ws_provider_id :: pystr
  ws_deadline :: int
  ws_sample_rate :: int
  ws_channels :: int
  ws_privacy_mode :: pystr
  ws_audio_seconds :: int
  ws_evidence_days :: int
  ws_max_turns :: int
  ws_max_input_tokens :: int
  ws_max_output_tokens :: int
  ws_max_cost :: rat

text \<open>
  The agents: their model configurations, the hash over their prompts, and the task group that runs
  them, given the sink for their events. Outputs come in the order of \<open>core_agent_ids\<close>.
\<close>

definition core_agent_ids :: "pystr list" where
  "core_agent_ids = map lit [''classifier'', ''quality'', ''compliance'', ''summarizer'']"

record 'w core_agents =
  co_model_id :: "pystr \<Rightarrow> pystr"
  co_effort :: "pystr \<Rightarrow> reasoning_effort option"
  co_prompt_hash :: "transcript_snapshot \<Rightarrow> exn + pystr"
  co_group :: "(run_event \<Rightarrow> ('w, run_event) flow_comp) \<Rightarrow> transcript_snapshot \<Rightarrow> uuid \<Rightarrow> int \<Rightarrow> int
     \<Rightarrow> 'w flow \<Rightarrow> (exn_tree + agent_output list) \<times> 'w flow"

record 'w deps =
  de_recorder :: recorder_env
  de_settings :: workflow_settings
  de_policies :: policy_packs
  de_agents :: "'w core_agents"
  de_fetch :: "pystr \<Rightarrow> ('w, fetched_media) comp"
  de_speech :: "fetched_media \<Rightarrow> ('w, transcript_snapshot) comp"
  de_db :: "'w db_session"
  de_digest :: "sanitized_record \<Rightarrow> exn + pystr"
  de_monotonic :: "'w \<Rightarrow> double \<times> 'w"
  de_uuid_text :: "uuid \<Rightarrow> pystr"

definition read_monotonic :: "'w deps \<Rightarrow> ('w, double) flow_comp" where
  "read_monotonic d s = (case de_monotonic d (fl_world s) of (x, w) \<Rightarrow> (Inr x, s\<lparr>fl_world := w\<rparr>))"

section \<open>Transcription\<close>

definition error_payload :: "pystr \<Rightarrow> Lifecycle.payload" where
  "error_payload v = [(lit ''failure_code'', SStr v)]"

definition validate_SpeechFile :: "fetched_media \<Rightarrow> exn + fetched_media" where
  "validate_SpeechFile m =
     bindE (requireE ValueError (py_strip (fm_filename m) \<noteq> [])) (\<lambda>_.
     bindE (requireE ValueError (py_strip (fm_content_type m) \<noteq> [])) (\<lambda>_. Inr m))"

definition obtain_media :: "'w deps \<Rightarrow> analyze_input \<Rightarrow> ('w, fetched_media \<times> run_source) flow_comp" where
  "obtain_media d source =
     (case source of
        FileAnalyzeInput m \<Rightarrow> returnM (m, SOURCE_REST_FILE)
      | UrlAnalyzeInput url \<Rightarrow> bindM (on_world (de_fetch d url)) (\<lambda>m. returnM (m, SOURCE_REST_URL))
      | OtherInput \<Rightarrow> raiseM (DomainError INVALID_INPUT))"

text \<open>The deadline of \<^verbatim>\<open>asyncio.timeout\<close> shows as a \<open>TimeoutError\<close> of whatever it interrupts.\<close>

definition transcribe_body ::
  "'w deps \<Rightarrow> analyze_input \<Rightarrow> int \<Rightarrow> ('w, transcript_snapshot \<times> run_source \<times> fetched_media) flow_comp" where
  "transcribe_body d source deadline =
     bindM (read_now (de_recorder d)) (\<lambda>now.
     bindM (guardM TimeoutError (0 < deadline - now)) (\<lambda>_.
     bindM (obtain_media d source) (\<lambda>(media, kind).
     bindM (liftE (validate_SpeechFile media)) (\<lambda>file.
     bindM (on_world (de_speech d file)) (\<lambda>t. returnM (t, kind, media))))))"

definition transcribe_failure :: "recorder_env \<Rightarrow> exn \<Rightarrow> ('w, 'a) flow_comp" where
  "transcribe_failure env e =
     (case e of
        DomainError c \<Rightarrow> bindM (log_event env SPEECH_FAILED (error_payload (lit ''domain_error''))) (\<lambda>_. raiseM e)
      | UrlFetchError f \<Rightarrow> bindM (log_event env SPEECH_FAILED (error_payload (url_failure_value f)))
          (\<lambda>_. raiseM (DomainError (map_fetch_failure f)))
      | TimeoutError \<Rightarrow> bindM (log_event env SPEECH_FAILED (error_payload (lit ''timeout'')))
          (\<lambda>_. raiseM (DomainError DEADLINE_EXCEEDED))
      | _ \<Rightarrow> bindM (log_event env SPEECH_FAILED (error_payload (lit ''unavailable'')))
          (\<lambda>_. raiseM (DomainError SERVICE_UNAVAILABLE)))"

definition transcribe_source ::
  "'w deps \<Rightarrow> analyze_input \<Rightarrow> int \<Rightarrow> ('w, transcript_snapshot \<times> run_source \<times> fetched_media) flow_comp" where
  "transcribe_source d source deadline = catchM (transcribe_body d source deadline) (transcribe_failure (de_recorder d))"

section \<open>The agents\<close>

record agent_outputs =
  ao_classifier :: classification_result
  ao_quality :: quality_assessment
  ao_compliance :: compliance_assessment
  ao_summarizer :: summary_result

text \<open>\<^verbatim>\<open>outputs.get(..)\<close> with its \<^verbatim>\<open>isinstance\<close> check.\<close>

definition output_of :: "pystr list \<Rightarrow> agent_output list \<Rightarrow> string \<Rightarrow> (agent_output \<Rightarrow> 'a option) \<Rightarrow> exn + 'a" where
  "output_of ids outputs agent select =
     (case Option.bind (dict_of (zip ids outputs) (lit agent)) select of
        None \<Rightarrow> Inl (AgentRuntimeError FAIL_TERMINAL_SUBMIT_INVALID)
      | Some x \<Rightarrow> Inr x)"

definition typed_outputs :: "agent_output list \<Rightarrow> exn + agent_outputs" where
  "typed_outputs outputs =
     bindE (output_of core_agent_ids outputs ''classifier'' (\<lambda>x. case x of OutClassification c \<Rightarrow> Some c | _ \<Rightarrow> None)) (\<lambda>c.
     bindE (output_of core_agent_ids outputs ''quality'' (\<lambda>x. case x of OutQuality q \<Rightarrow> Some q | _ \<Rightarrow> None)) (\<lambda>q.
     bindE (output_of core_agent_ids outputs ''compliance'' (\<lambda>x. case x of OutCompliance co \<Rightarrow> Some co | _ \<Rightarrow> None)) (\<lambda>co.
     bindE (output_of core_agent_ids outputs ''summarizer'' (\<lambda>x. case x of OutSummary su \<Rightarrow> Some su | _ \<Rightarrow> None)) (\<lambda>su.
       Inr \<lparr>ao_classifier = c, ao_quality = q, ao_compliance = co, ao_summarizer = su\<rparr>))))"

definition run_agents ::
  "'w deps \<Rightarrow> transcript_snapshot \<Rightarrow> uuid \<Rightarrow> int \<Rightarrow> int \<Rightarrow> ('w, agent_outputs) flow_comp" where
  "run_agents d t run created deadline s =
     (case co_group (de_agents d) (append_agent_event (de_recorder d)) t run created deadline s of
        (Inl tree, s') \<Rightarrow> (Inl (group_error tree), s')
      | (Inr outputs, s') \<Rightarrow> (typed_outputs outputs, s'))"

section \<open>The envelope of a run\<close>

definition build_envelope ::
  "'w deps \<Rightarrow> uuid \<Rightarrow> uuid \<Rightarrow> run_source \<Rightarrow> transcript_snapshot \<Rightarrow> fetched_media \<Rightarrow> int \<Rightarrow> int \<Rightarrow> pystr
     \<Rightarrow> exn + run_envelope" where
  "build_envelope d run request source t media created deadline prompt_hash =
     (let ws = de_settings d; pk = de_policies d; agents = int (length core_agent_ids) in
      bindE (mapE (\<lambda>i. validate_ModelBinding \<lparr>mb_agent_id = i, mb_provider_id = ws_provider_id ws,
               mb_model_id = co_model_id (de_agents d) i, mb_effort = co_effort (de_agents d) i\<rparr>) core_agent_ids) (\<lambda>bindings.
      bindE (validate_MediaDescriptor \<lparr>md_sha256 = sn_audio_sha256 t, md_mime_type = fm_content_type media,
               md_duration = sn_duration t, md_sample_rate = ws_sample_rate ws, md_channels = ws_channels ws\<rparr>) (\<lambda>descriptor.
      bindE (validate_ProviderFingerprint bindings) (\<lambda>provider.
      bindE (validate_RevisionSet \<lparr>rv_code_sha = ws_code_sha ws, rv_prompt_bundle_hash = prompt_hash,
               rv_taxonomy = taxonomy_version_of pk, rv_quality = quality_version_of pk,
               rv_compliance = compliance_version_of pk, rv_asr = am_asr (sn_asr t),
               rv_alignment = am_alignment (sn_asr t), rv_diarization = am_diarization (sn_asr t),
               rv_dataset = None, rv_eval_case = None\<rparr>) (\<lambda>revisions.
      bindE (validate_RunBudget \<lparr>bu_deadline = deadline, bu_max_turns = ws_max_turns ws * agents,
               bu_max_tokens = (ws_max_input_tokens ws + ws_max_output_tokens ws) * agents,
               bu_max_cost = dec_mul (ws_max_cost ws) (rat_of_int agents)\<rparr>) (\<lambda>budget.
      bindE (validate_PrivacyPolicy \<lparr>pr_mode = ws_privacy_mode ws, pr_audio_seconds = ws_audio_seconds ws,
               pr_evidence_days = ws_evidence_days ws, pr_full_content = False\<rparr>) (\<lambda>privacy.
        validate_RunEnvelope \<lparr>nv_run_id = run, nv_request_id = request, nv_correlation_id = request,
          nv_source = source, nv_media = descriptor, nv_provider = provider, nv_revisions = revisions,
          nv_budget = budget, nv_privacy = privacy, nv_created_at = created\<rparr>)))))))"

section \<open>Persistence\<close>

definition on_fresh_uow :: "('w uow, 'a) comp \<Rightarrow> ('w, 'a) flow_comp" where
  "on_fresh_uow m s = (case m \<lparr>uw_session = False, uw_world = fl_world s\<rparr> of (r, u) \<Rightarrow> (r, s\<lparr>fl_world := uw_world u\<rparr>))"

definition save_record ::
  "'w db_session \<Rightarrow> (sanitized_record \<Rightarrow> exn + pystr) \<Rightarrow> sanitized_record option \<Rightarrow> ('w uow, unit) comp" where
  "save_record db digest record = (case record of None \<Rightarrow> returnM () | Some r \<Rightarrow> save_sanitized db digest r)"

definition persist_body ::
  "'w db_session \<Rightarrow> (sanitized_record \<Rightarrow> exn + pystr) \<Rightarrow> run_envelope \<Rightarrow> run_event list \<Rightarrow> run_status
     \<Rightarrow> sanitized_record option \<Rightarrow> error_code option \<Rightarrow> ('w uow, unit) comp" where
  "persist_body db digest e events status record error =
     bindM (create_run db e) (\<lambda>_.
     bindM (set_status db (nv_run_id e) STATUS_PROCESSING None) (\<lambda>_.
     bindM (forM (append_event db) events) (\<lambda>_.
     bindM (save_record db digest record) (\<lambda>_.
     bindM (set_status db (nv_run_id e) status error) (\<lambda>_. uow_commit db)))))"

definition persist ::
  "'w deps \<Rightarrow> run_envelope \<Rightarrow> run_event list \<Rightarrow> run_status \<Rightarrow> sanitized_record option \<Rightarrow> error_code option
     \<Rightarrow> ('w, unit) flow_comp" where
  "persist d e events status record error =
     catchM (on_fresh_uow (with_uow (de_db d) (persist_body (de_db d) (de_digest d) e events status record error)))
       (\<lambda>_. raiseM PersistenceFailure)"

definition persist_failure :: "'w deps \<Rightarrow> run_envelope \<Rightarrow> run_event list \<Rightarrow> error_code \<Rightarrow> ('w, unit) flow_comp" where
  "persist_failure d e events code =
     catchM (persist d e events STATUS_FAILED None (Some code))
       (\<lambda>x. if x = PersistenceFailure then returnM () else raiseM x)"

section \<open>The use case\<close>

definition processing_ms :: "double \<Rightarrow> double \<Rightarrow> int" where
  "processing_ms started now =
     (let x = dbl_mul (dbl_sub now started) 1000 in max 0 (if 0 \<le> x then \<lfloor>x\<rfloor> else - \<lfloor>- x\<rfloor>))"

definition complete_run ::
  "'w deps \<Rightarrow> run_envelope \<Rightarrow> transcript_snapshot \<Rightarrow> uuid \<Rightarrow> int \<Rightarrow> int \<Rightarrow> double \<Rightarrow> pystr \<Rightarrow> ('w, analyze_response) flow_comp" where
  "complete_run d e t run created deadline started prompt_hash =
     (let pk = de_policies d; env = de_recorder d in
      bindM (run_agents d t run created deadline) (\<lambda>out.
      bindM (read_monotonic d) (\<lambda>now.
      bindM (liftE (validate_AnalysisVersions \<lparr>av_code_sha = ws_code_sha (de_settings d), av_prompt_bundle_hash = prompt_hash,
               av_taxonomy = taxonomy_version_of pk, av_quality = quality_version_of pk,
               av_compliance = compliance_version_of pk, av_asr = am_asr (sn_asr t),
               av_alignment = am_alignment (sn_asr t), av_diarization = am_diarization (sn_asr t)\<rparr>)) (\<lambda>versions.
      bindM (liftE (aggregate_analysis t (ao_classifier out) (ao_quality out) (ao_compliance out) (ao_summarizer out)
               pk run versions (processing_ms started now))) (\<lambda>a.
      bindM (log_event env AGGREGATION_COMPLETED []) (\<lambda>_.
      bindM (log_event env RUN_COMPLETED []) (\<lambda>_.
      bindM (readM (\<lambda>s. lr_appended (fl_log s))) (\<lambda>events.
      bindM (persist d e events STATUS_COMPLETED (Some (ag_record a)) None) (\<lambda>_.
        returnM (ag_response a))))))))))"

definition fail_run :: "'w deps \<Rightarrow> run_envelope \<Rightarrow> error_code \<Rightarrow> ('w, 'a) flow_comp" where
  "fail_run d e code =
     bindM (log_event (de_recorder d) RUN_FAILED (error_payload (error_code_value code))) (\<lambda>_.
     bindM (readM (\<lambda>s. lr_appended (fl_log s))) (\<lambda>events.
     bindM (persist_failure d e events code) (\<lambda>_. raiseM (DomainError code))))"

definition run_failure :: "'w deps \<Rightarrow> run_envelope \<Rightarrow> exn \<Rightarrow> ('w, 'a) flow_comp" where
  "run_failure d e x =
     (case x of
        PersistenceFailure \<Rightarrow> raiseM (DomainError SERVICE_UNAVAILABLE)
      | DomainError c \<Rightarrow> fail_run d e c
      | AggregationError \<Rightarrow> fail_run d e AGENT_FAILURE
      | _ \<Rightarrow> fail_run d e (map_agent_failure x))"

definition analyze_run ::
  "'w deps \<Rightarrow> analyze_input \<Rightarrow> uuid \<Rightarrow> uuid \<Rightarrow> run_source option \<Rightarrow> int \<Rightarrow> ('w, analyze_response) flow_comp" where
  "analyze_run d source request run override created =
     (let env = de_recorder d; deadline = created + ws_deadline (de_settings d) in
      bindM (read_monotonic d) (\<lambda>started.
      bindM (log_event env RUN_STARTED [(lit ''request_id'', SStr (de_uuid_text d request))]) (\<lambda>_.
      bindM (log_event env SPEECH_STARTED []) (\<lambda>_.
      bindM (transcribe_source d source deadline) (\<lambda>(t, kind, media).
      bindM (log_event env SPEECH_COMPLETED
        [(lit ''transcript_id'', SStr (de_uuid_text d (sn_transcript_id t))), (lit ''audio_sha256'', SStr (sn_audio_sha256 t))]) (\<lambda>_.
      bindM (liftE (co_prompt_hash (de_agents d) t)) (\<lambda>prompt_hash.
      bindM (liftE (build_envelope d run request (case override of None \<Rightarrow> kind | Some k \<Rightarrow> k) t media created deadline prompt_hash)) (\<lambda>e.
        catchM (complete_run d e t run created deadline started prompt_hash) (run_failure d e)))))))))"

text \<open>The first clock reading is taken before the collector of the run exists.\<close>

definition start_flow :: "uuid \<Rightarrow> 'w \<Rightarrow> 'w flow" where
  "start_flow run w = \<lparr>fl_log = (new_recorder run)\<lparr>lr_readings := 1\<rparr>, fl_world = w\<rparr>"

definition analyze_with ::
  "'w deps \<Rightarrow> analyze_input \<Rightarrow> uuid \<Rightarrow> uuid \<Rightarrow> run_source option \<Rightarrow> 'w \<Rightarrow> (exn + analyze_response) \<times> 'w flow" where
  "analyze_with d source request run override w =
     analyze_run d source request run override (le_now (de_recorder d) 0) (start_flow run w)"

definition analyze :: "'w deps \<Rightarrow> analyze_input \<Rightarrow> uuid \<Rightarrow> uuid \<Rightarrow> 'w \<Rightarrow> (exn + analyze_response) \<times> 'w flow" where
  "analyze d source request run = analyze_with d source request run None"

definition analyze_openwebui :: "'w deps \<Rightarrow> fetched_media \<Rightarrow> uuid \<Rightarrow> uuid \<Rightarrow> 'w \<Rightarrow> (exn + analyze_response) \<times> 'w flow" where
  "analyze_openwebui d file request run =
     analyze_with d (FileAnalyzeInput file) request run (Some SOURCE_OPENWEBUI)"

section \<open>The error of a task group\<close>

text \<open>It is the first exception of the tree, whatever the nesting.\<close>

fun leftmost :: "exn_tree \<Rightarrow> exn option" where
  "leftmost (Single e) = Some e"
| "leftmost (Group []) = None"
| "leftmost (Group (x # xs)) = leftmost x"

lemma first_taskgroup_error_size: "size (first_taskgroup_error t) \<le> size t"
proof (induction t rule: first_taskgroup_error.induct)
  case (2 es)
  show ?case
  proof (cases "List.find (\<lambda>found. found \<noteq> Group es) (map first_taskgroup_error es)")
    case (Some f)
    then obtain x where x: "x \<in> set es" "f = first_taskgroup_error x"
      using find_map_Some_mem [OF Some] by auto
    have "size x \<le> size_list size es" by (rule size_list_estimation' [OF x(1)]) simp
    then show ?thesis using 2 [OF x(1)] Some x(2) by simp
  qed simp
qed simp

lemma first_taskgroup_error_group: "first_taskgroup_error (Group (x # xs)) = first_taskgroup_error x"
proof -
  have "size (first_taskgroup_error x) < size (Group (x # xs))"
    using first_taskgroup_error_size [of x] by simp
  then have "first_taskgroup_error x \<noteq> Group (x # xs)" by (metis nat_neq_iff)
  then show ?thesis by simp
qed

lemma first_taskgroup_error_leftmost: "leftmost t = Some e \<Longrightarrow> first_taskgroup_error t = Single e"
  by (induction t rule: leftmost.induct) (simp_all add: first_taskgroup_error_group del: first_taskgroup_error.simps(2))

section \<open>Logging always succeeds\<close>

text \<open>
  What the run needs of its parameters: the hash is a SHA-256 digest in hexadecimal, and
  \<^verbatim>\<open>str.casefold\<close> leaves the lower-case keys of the workflow alone.
\<close>

definition workflow_keys :: "pystr list" where
  "workflow_keys = map lit [''request_id'', ''transcript_id'', ''audio_sha256'', ''failure_code'']"

definition digests :: "recorder_env \<Rightarrow> bool" where
  "digests env \<longleftrightarrow> (\<forall>c. is_sha256 (le_hash env c)) \<and> (\<forall>k \<in> set workflow_keys. le_casefold env k = k)"

definition workflow_payload :: "Lifecycle.payload \<Rightarrow> bool" where
  "workflow_payload p \<longleftrightarrow> distinct (map fst p) \<and> set (map fst p) \<subseteq> set workflow_keys"

lemma workflow_keys_ok:
  "list_all (\<lambda>k. key_is_redacted (\<lambda>x. x) k \<and> non_empty_id k = Inr k) workflow_keys"
  by code_simp

lemma entry_valid_iff: "(case x of (k, v) \<Rightarrow> bindE (non_empty_id k) (\<lambda>k'. Inr (k', v))) = Inr x \<longleftrightarrow> non_empty_id (fst x) = Inr (fst x)"
  by (cases x) (auto simp: result_iffs)

lemma payload_valid_iff:
  "validate_RedactedPayload p = Inr p \<longleftrightarrow> (\<forall>k \<in> set (map fst p). non_empty_id k = Inr k) \<and> distinct (map fst p)"
proof -
  have "mapE (\<lambda>(k, v). bindE (non_empty_id k) (\<lambda>k'. Inr (k', v))) p = Inr p \<longleftrightarrow> (\<forall>k \<in> set (map fst p). non_empty_id k = Inr k)"
    by (simp add: mapE_Inr_iff list_all2_same entry_valid_iff)
  then show ?thesis by (auto simp: validate_RedactedPayload_def result_iffs)
qed

lemma payload_valid_sorted:
  "validate_RedactedPayload p = Inr p \<Longrightarrow> validate_RedactedPayload (sort_key fst p) = Inr (sort_key fst p)"
  unfolding payload_valid_iff by (simp add: distinct_map)

lemma workflow_payload_valid: "workflow_payload p \<Longrightarrow> validate_RedactedPayload p = Inr p"
  using workflow_keys_ok by (fastforce simp: payload_valid_iff workflow_payload_def list_all_iff)

lemma workflow_payload_redacted:
  assumes "digests env" "workflow_payload p"
  shows "validate_payload (le_casefold env) p = Inr ()"
proof -
  have "key_is_redacted (le_casefold env) k" if "k \<in> set workflow_keys" for k
    using assms(1) workflow_keys_ok that by (simp add: digests_def list_all_iff key_is_redacted_def Let_def)
  then show ?thesis
    using assms(2) by (fastforce simp: validate_payload_def requireE_def workflow_payload_def list_all_iff)
qed

lemma last_hash_digest: "chained h es \<Longrightarrow> last_hash es = Some x \<Longrightarrow> \<exists>c. x = h c"
  by (cases es rule: rev_cases) (auto simp: chained_snoc last_hash_def split: if_splits)

lemma collector_records:
  assumes "recorder_good (collector_env env) l" "digests env" "is_id c"
    "validate_payload (le_casefold env) p = Inr ()" "validate_RedactedPayload p = Inr p"
  shows "\<exists>e l'. record_event (collector_env env) t c p l = (Inr e, l')"
proof -
  let ?c = "\<lparr>ec_run_id = lr_run_id l, ec_sequence = lr_sequence l + 1, ec_type = t,
      ec_occurred_at = le_now env (lr_readings l), ec_component = c,
      ec_payload = sort_key fst p, ec_previous_hash = lr_previous_hash l\<rparr>"
  have sha: "sha256 (le_hash env c) = Inr (le_hash env c)" for c
    using assms(2) by (simp add: digests_def sha256_Inr_iff)
  have "optional sha256 (lr_previous_hash l) = Inr (lr_previous_hash l)"
  proof (cases "lr_previous_hash l")
    case (Some x)
    then have "\<exists>c. x = le_hash env c"
      using assms(1) last_hash_digest [of "le_hash env" "lr_appended l" x] by (simp add: recorder_good_def)
    then show ?thesis using Some sha by auto
  qed simp
  moreover have "lr_sequence l + 1 = 1 \<longleftrightarrow> lr_previous_hash l = None" "0 < lr_sequence l + 1"
    using assms(1) by (auto simp: recorder_good_def last_hash_def)
  moreover note sha [of ?c]
  ultimately have "validate_RunEvent \<lparr>re_content = ?c, re_current_hash = le_hash env ?c\<rparr>
      = Inr \<lparr>re_content = ?c, re_current_hash = le_hash env ?c\<rparr>"
    using assms(3) by (auto simp: validate_RunEvent_def Let_def result_iffs)
  then show ?thesis
    using assms(4) payload_valid_sorted [OF assms(5)]
    by (simp add: record_event_def collector_env_def Let_def event_of_def)
qed

lemma component_ids: "is_id (lit ''workflow'')" "is_id (lit ''core_agent'')"
  by code_simp+

text \<open>What an agent sends: an event of its own recorder.\<close>

definition agent_made :: "recorder_env \<Rightarrow> run_event \<Rightarrow> bool" where
  "agent_made env e \<longleftrightarrow> storable e \<and> validate_payload (le_casefold env) (ec_payload (re_content e)) = Inr ()"

section \<open>The phases of a run\<close>

definition types :: "'w flow \<Rightarrow> event_type list" where
  "types s = map (\<lambda>e. ec_type (re_content e)) (lr_appended (fl_log s))"

text \<open>The log of the run is chained, and every event can be stored and read back.\<close>

definition log_ok :: "recorder_env \<Rightarrow> uuid \<Rightarrow> recorder \<Rightarrow> bool" where
  "log_ok env run l \<longleftrightarrow> recorder_good (collector_env env) l \<and> lr_run_id l = run
     \<and> (\<forall>e \<in> set (lr_appended l). storable e \<and> ec_run_id (re_content e) = run)"

definition phase ::
  "recorder_env \<Rightarrow> uuid \<Rightarrow> ('w \<Rightarrow> 'd) \<Rightarrow> 'd \<Rightarrow> (event_type list \<Rightarrow> bool) \<Rightarrow> 'w flow \<Rightarrow> bool" where
  "phase env run durable d P s \<longleftrightarrow> log_ok env run (fl_log s) \<and> durable (fl_world s) = d \<and> P (types s)"

lemma record_event_payload:
  assumes "record_event env t c p r = (Inr e, r')"
  shows "validate_RedactedPayload (ec_payload (re_content e)) = Inr (ec_payload (re_content e))"
  using assms valid_payload_again
  by (auto simp: record_event_def Let_def event_of_def validate_RunEvent_def result_iffs split: sum.splits option.splits)

lemma record_log_ok:
  assumes "log_ok env run l" "strip c = c" "record_event (collector_env env) t c p l = (Inr e, l')"
  shows "log_ok env run l' \<and> lr_appended l' = lr_appended l @ [e] \<and> ec_type (re_content e) = t"
  using assms(1) recorder_good_step [OF _ assms(2,3)] record_event_Inr [OF assms(3)] record_event_payload [OF assms(3)]
  by (auto simp: log_ok_def storable_def)

lemma log_ok_readings: "log_ok env run (l\<lparr>lr_readings := n\<rparr>) = log_ok env run l"
  by (simp add: log_ok_def recorder_good_def)

lemma hoare_bind_sure:
  "hoare P m R (\<lambda>_ _. False) \<Longrightarrow> (\<And>x. hoare (R x) (f x) Q E) \<Longrightarrow> hoare P (bindM m f) Q E"
  unfolding hoare_def bindM_def by (simp split: prod.splits sum.splits) blast

lemma log_event_hoare:
  assumes "digests env" "workflow_payload p" "\<And>ts. P ts \<Longrightarrow> Q (ts @ [t])"
  shows "hoare (phase env run durable d P) (log_event env t p) (\<lambda>_. phase env run durable d Q) (\<lambda>_ _. False)"
proof (rule hoareI)
  fix s e s'
  assume P: "phase env run durable d P s" and r: "log_event env t p s = (Inr e, s')"
  then obtain l where "collector_record env t p (fl_log s) = (Inr e, l)" "s' = s\<lparr>fl_log := l\<rparr>"
    by (auto simp: log_event_def split: prod.splits)
  with P assms(3) show "phase env run durable d Q s'"
    using record_log_ok [OF _ component_normal(2), of env run "fl_log s" t p e l]
    by (auto simp: phase_def types_def collector_record_def)
next
  fix s e s'
  assume P: "phase env run durable d P s" and r: "log_event env t p s = (Inl e, s')"
  then show False
    using collector_records [OF _ assms(1) component_ids(1) workflow_payload_redacted [OF assms(1,2)]
        workflow_payload_valid [OF assms(2)], of "fl_log s" t]
    by (auto simp: log_event_def collector_record_def phase_def log_ok_def split: prod.splits)
qed

definition extendable :: "('a list \<Rightarrow> bool) \<Rightarrow> bool" where
  "extendable P \<longleftrightarrow> (\<forall>t ts. P ts \<longrightarrow> P (ts @ [t]))"

lemma append_agent_event_ok:
  assumes "digests env" "agent_made env e" "phase env run durable d P s"
  shows "\<exists>e' l. collector_append env e (fl_log s) = (Inr e', l)"
  using assms(2,3) collector_records [OF _ assms(1) component_ids(2), of "fl_log s" "ec_payload (re_content e)"]
  unfolding collector_append_def phase_def log_ok_def agent_made_def storable_def by blast

lemma append_agent_event_keeps:
  assumes "digests env" "agent_made env e" "extendable P"
  shows "keeps (phase env run durable d P) (append_agent_event env e)"
proof (rule keepsI)
  fix s :: "'a flow" and r s'
  assume P: "phase env run durable d P s" and a: "append_agent_event env e s = (r, s')"
  obtain e' l where l: "collector_append env e (fl_log s) = (Inr e', l)"
    using append_agent_event_ok [OF assms(1,2) P] by blast
  then have "s' = s\<lparr>fl_log := l\<rparr>" using a by (simp add: append_agent_event_def)
  then show "phase env run durable d P s'"
    using l P assms(3) record_log_ok [OF _ component_normal(3), of env run "fl_log s" "ec_type (re_content e)" "ec_payload (re_content e)" e' l]
    by (auto simp: phase_def types_def collector_append_def extendable_def)
qed

lemma on_world_hoare:
  assumes "keeps (\<lambda>w. durable w = d) m"
  shows "keeps (phase env run durable d P) (on_world m)"
proof (rule keepsI)
  fix s r s'
  assume "phase env run durable d P s" "on_world m s = (r, s')"
  then show "phase env run durable d P s'"
    using keepsD [OF assms, of "fl_world s"] by (auto simp: on_world_def phase_def types_def split: prod.splits)
qed

lemma read_now_keeps: "keeps (phase env run durable d P) (read_now env')"
  by (rule keepsI) (auto simp: read_now_def phase_def types_def log_ok_readings)

text \<open>
  What the run needs of its surroundings: the store is transactional, nothing else writes to it, and the
  agents change the log only by sending events of theirs to the sink they are given. \<^verbatim>\<open>_PersistenceFailure\<close>
  is private to the workflow, so that no agent raises it.
\<close>

definition dependable :: "'w deps \<Rightarrow> ('w \<Rightarrow> statement list list) \<Rightarrow> ('w \<Rightarrow> statement list) \<Rightarrow> bool" where
  "dependable d durable pending \<longleftrightarrow>
     digests (de_recorder d) \<and> transactional (de_db d) durable pending
     \<and> (\<forall>x url. keeps (\<lambda>w. durable w = x) (de_fetch d url)) \<and> (\<forall>x m. keeps (\<lambda>w. durable w = x) (de_speech d m))
     \<and> (\<forall>w. durable (snd (de_monotonic d w)) = durable w)
     \<and> (\<forall>I sink t run created deadline s.
          (\<forall>e. agent_made (de_recorder d) e \<longrightarrow> keeps I (sink e))
          \<longrightarrow> (\<forall>s w. I s \<and> durable w = durable (fl_world s) \<longrightarrow> I (s\<lparr>fl_world := w\<rparr>))
          \<longrightarrow> I s \<longrightarrow> I (snd (co_group (de_agents d) sink t run created deadline s)))
     \<and> (\<forall>t run created deadline s tree.
          fst (co_group (de_agents d) (append_agent_event (de_recorder d)) t run created deadline s) = Inl tree
          \<longrightarrow> group_error tree \<noteq> PersistenceFailure)"

lemma transcribe_failure_hoare:
  assumes "digests env"
  shows "hoare (phase env run durable x (\<lambda>ts. ts = pre)) (transcribe_failure env e)
    Q (\<lambda>e s. phase env run durable x (\<lambda>ts. ts = pre @ [SPEECH_FAILED]) s \<and> (\<exists>c. e = DomainError c))"
proof -
  have fail: "hoare (phase env run durable x (\<lambda>ts. ts = pre)) (bindM (log_event env SPEECH_FAILED (error_payload v)) (\<lambda>_. raiseM (DomainError c)))
      Q (\<lambda>e s. phase env run durable x (\<lambda>ts. ts = pre @ [SPEECH_FAILED]) s \<and> (\<exists>c. e = DomainError c))" for v c
  proof -
    have "workflow_payload (error_payload v)"
      by (simp add: workflow_payload_def error_payload_def workflow_keys_def)
    then have "hoare (phase env run durable x (\<lambda>ts. ts = pre)) (log_event env SPEECH_FAILED (error_payload v))
        (\<lambda>_. phase env run durable x (\<lambda>ts. ts = pre @ [SPEECH_FAILED])) (\<lambda>_ _. False)"
      using assms by (intro log_event_hoare) auto
    then show ?thesis by (rule hoare_bind_sure) (auto intro: hoare_raise)
  qed
  show ?thesis unfolding transcribe_failure_def by (cases e) (simp_all add: fail)
qed

lemma transcribe_body_keeps:
  assumes "dependable d durable pending"
  shows "keeps (phase env run durable x P) (transcribe_body d source deadline)"
proof -
  have "keeps (phase env run durable x P) (on_world (de_fetch d url))" "keeps (phase env run durable x P) (on_world (de_speech d m))" for url m
    using assms by (simp_all add: dependable_def on_world_hoare)
  then show ?thesis
    unfolding transcribe_body_def obtain_media_def
    by (cases source) (simp_all, (intro hoare_rules read_now_keeps | assumption)+)
qed

text \<open>Where the transcript of a run comes from: the media of the input, and the speech service's answer to it.\<close>

definition transcribed :: "'w deps \<Rightarrow> analyze_input \<Rightarrow> transcript_snapshot \<times> run_source \<times> fetched_media \<Rightarrow> bool" where
  "transcribed d source x \<longleftrightarrow>
     (case x of (t, kind, media) \<Rightarrow>
        (case source of
           FileAnalyzeInput m \<Rightarrow> media = m \<and> kind = SOURCE_REST_FILE
         | UrlAnalyzeInput url \<Rightarrow> kind = SOURCE_REST_URL \<and> (\<exists>w w'. de_fetch d url w = (Inr media, w'))
         | OtherInput \<Rightarrow> False)
        \<and> (\<exists>w w'. de_speech d media w = (Inr t, w')))"

lemma on_world_Inr_iff: "on_world m s = (Inr x, s') \<longleftrightarrow> (\<exists>w. m (fl_world s) = (Inr x, w) \<and> s' = s\<lparr>fl_world := w\<rparr>)"
  by (auto simp: on_world_def split: prod.splits)

lemma transcribe_body_Inr:
  assumes "transcribe_body d source deadline s = (Inr x, s')"
  shows "transcribed d source x"
proof -
  obtain mk s1 s2 t where "obtain_media d source s1 = (Inr mk, s2)"
    "on_world (de_speech d (fst mk)) s2 = (Inr t, s')" "x = (t, snd mk, fst mk)"
    using assms unfolding transcribe_body_def comp_iffs case_prod_beta validate_SpeechFile_def result_iffs sum.inject
    by blast
  then show ?thesis
    by (cases source) (auto simp: transcribed_def obtain_media_def comp_iffs on_world_Inr_iff, blast+)
qed

lemma transcribe_hoare:
  assumes "dependable d durable pending" "env = de_recorder d"
  shows "hoare (phase env run durable x (\<lambda>ts. ts = pre)) (transcribe_source d source deadline)
    (\<lambda>y s. phase env run durable x (\<lambda>ts. ts = pre) s \<and> transcribed d source y)
    (\<lambda>e s. phase env run durable x (\<lambda>ts. ts = pre @ [SPEECH_FAILED]) s \<and> (\<exists>c. e = DomainError c))"
proof -
  have body: "hoare (phase env run durable x (\<lambda>ts. ts = pre)) (transcribe_body d source deadline)
      (\<lambda>y s. phase env run durable x (\<lambda>ts. ts = pre) s \<and> transcribed d source y) (\<lambda>_. phase env run durable x (\<lambda>ts. ts = pre))"
    using keepsD [OF transcribe_body_keeps [OF assms(1)]] transcribe_body_Inr by (intro hoareI) blast+
  show ?thesis
    unfolding transcribe_source_def
    by (rule hoare_catch [OF body]) (use assms in \<open>simp add: dependable_def transcribe_failure_hoare\<close>)
qed

lemma run_agents_keeps:
  assumes "dependable d durable pending" "env = de_recorder d" "extendable P"
  shows "keeps (phase env run durable x P) (run_agents d t r created deadline)"
proof (rule keepsI)
  fix s q s'
  assume s: "phase env run durable x P s" and q: "run_agents d t r created deadline s = (q, s')"
  let ?I = "phase env run durable x P" and ?sink = "append_agent_event env"
  have "\<forall>e. agent_made env e \<longrightarrow> keeps ?I (?sink e)"
    using assms(1,2) by (auto simp: dependable_def intro!: append_agent_event_keeps assms(3))
  moreover have "\<forall>s w. ?I s \<and> durable w = durable (fl_world s) \<longrightarrow> ?I (s\<lparr>fl_world := w\<rparr>)"
    by (auto simp: phase_def types_def)
  ultimately have "?I (snd (co_group (de_agents d) ?sink t r created deadline s))"
    using assms(1) s unfolding dependable_def assms(2) by blast
  then show "phase env run durable x P s'" using q by (auto simp: run_agents_def assms(2) split: prod.splits sum.splits)
qed

section \<open>One transaction per run\<close>

definition transaction ::
  "(sanitized_record \<Rightarrow> exn + pystr) \<Rightarrow> run_envelope \<Rightarrow> run_event list \<Rightarrow> run_status
     \<Rightarrow> sanitized_record option \<Rightarrow> error_code option \<Rightarrow> statement list" where
  "transaction digest e events status record error =
     [InsertRun (row_of_envelope e), UpdateRun (nv_run_id e) STATUS_PROCESSING None]
     @ map (\<lambda>x. InsertEvent (row_of_event x)) events
     @ (case record of None \<Rightarrow> [] | Some r \<Rightarrow> [InsertAnalysis (sr_run_id r) r (case digest r of Inr h \<Rightarrow> h | Inl _ \<Rightarrow> [])])
     @ [UpdateRun (nv_run_id e) status error]"

text \<open>Inside the unit of work: \<open>x\<close> is durable and \<open>p\<close> pending.\<close>

definition pending_in :: "('w \<Rightarrow> 'd) \<Rightarrow> ('w \<Rightarrow> 'p) \<Rightarrow> 'd \<Rightarrow> 'p \<Rightarrow> 'w uow \<Rightarrow> bool" where
  "pending_in durable pending x p u \<longleftrightarrow> durable (uw_world u) = x \<and> pending (uw_world u) = p"

lemma execute_hoare:
  assumes "transactional db durable pending"
  shows "hoare (pending_in durable pending x p) (on_session (db_execute db st))
    (\<lambda>_. pending_in durable pending x (p @ [st])) (\<lambda>_ u. durable (uw_world u) = x)"
proof -
  have "hoare (\<lambda>w. durable w = x \<and> pending w = p) (db_execute db st)
      (\<lambda>_ w. durable w = x \<and> pending w = p @ [st]) (\<lambda>_ w. durable w = x)"
    using assms unfolding transactional_def by blast
  from on_session_hoare [OF this] show ?thesis unfolding pending_in_def .
qed

lemma append_events_hoare:
  assumes "transactional db durable pending"
  shows "hoare (pending_in durable pending x p) (forM (append_event db) es)
    (\<lambda>_. pending_in durable pending x (p @ map (\<lambda>e. InsertEvent (row_of_event e)) es)) (\<lambda>_ u. durable (uw_world u) = x)"
proof (induction es arbitrary: p)
  case (Cons e es)
  show ?case
    unfolding forM.simps append_event_def [of db e]
    by (rule hoare_bind [OF execute_hoare [OF assms]], rule hoare_bind [OF Cons.IH], rule hoare_return) simp
qed (simp add: hoare_return)

lemma save_record_hoare:
  assumes "transactional db durable pending"
  shows "hoare (pending_in durable pending x p) (save_record db digest record)
    (\<lambda>_. pending_in durable pending x (p @ (case record of None \<Rightarrow> []
        | Some r \<Rightarrow> [InsertAnalysis (sr_run_id r) r (case digest r of Inr h \<Rightarrow> h | Inl _ \<Rightarrow> [])])))
    (\<lambda>_ u. durable (uw_world u) = x)"
proof (cases "record")
  case (Some r)
  show ?thesis
  proof (cases "digest r")
    case (Inl e)
    then show ?thesis using Some
      by (auto simp: save_record_def save_sanitized_def hoare_def bindM_def liftE_def pending_in_def)
  next
    case (Inr h)
    then show ?thesis using Some execute_hoare [OF assms, of x p "InsertAnalysis (sr_run_id r) r h"]
      by (simp add: save_record_def save_sanitized_def hoare_def bindM_lift)
  qed
qed (simp add: save_record_def hoare_return)

lemma uow_commit_hoare:
  assumes "transactional db durable pending"
  shows "hoare (pending_in durable pending x p) (uow_commit db) (\<lambda>_ u. durable (uw_world u) = x @ [p])
    (\<lambda>_ u. durable (uw_world u) = x \<or> durable (uw_world u) = x @ [p])"
proof -
  have commit: "hoare (\<lambda>w. durable w = x \<and> pending w = p) (db_commit db) (\<lambda>_ w. durable w = x @ [p])
      (\<lambda>_ w. durable w = x \<or> durable w = x @ [p])"
    using assms unfolding transactional_def by blast
  show ?thesis
    unfolding uow_commit_def
    by (rule hoare_bind [OF hoare_weaken [OF hoare_keeps [OF keeps_require [of "pending_in durable pending x p"]]]])
      (use on_session_hoare [OF commit] in \<open>auto simp: pending_in_def\<close>)
qed

lemma persist_body_hoare:
  assumes "transactional db durable pending"
  shows "hoare (pending_in durable pending x []) (persist_body db digest e es status record error)
    (\<lambda>_ u. durable (uw_world u) = x @ [transaction digest e es status record error])
    (\<lambda>_ u. durable (uw_world u) = x \<or> durable (uw_world u) = x @ [transaction digest e es status record error])"
proof -
  let ?E = "\<lambda>_ u. durable (uw_world u) = x \<or> durable (uw_world u) = x @ [transaction digest e es status record error]"
  note weak = hoare_weaken [where E = "\<lambda>_ u. durable (uw_world u) = x" and E' = ?E, OF _ _ _ disjI1]
  show ?thesis
    unfolding persist_body_def create_run_def set_status_def
    by (rule hoare_bind, rule weak [OF execute_hoare [OF assms]], assumption, assumption, assumption,
        rule hoare_bind, rule weak [OF execute_hoare [OF assms]], assumption, assumption, assumption,
        rule hoare_bind, rule weak [OF append_events_hoare [OF assms]], assumption, assumption, assumption,
        rule hoare_bind, rule weak [OF save_record_hoare [OF assms]], assumption, assumption, assumption,
        rule hoare_bind, rule weak [OF execute_hoare [OF assms]], assumption, assumption, assumption,
        rule hoare_weaken [OF uow_commit_hoare [OF assms]]) (simp_all add: transaction_def)
qed

section \<open>Only the persistence layer raises its exception\<close>

definition persists_not :: "exn + 'a \<Rightarrow> bool" where
  "persists_not r \<longleftrightarrow> r \<noteq> Inl PersistenceFailure"

lemma persists_not_rules:
  "persists_not (Inr x)" "e \<noteq> PersistenceFailure \<Longrightarrow> persists_not (Inl e)"
  "persists_not m \<Longrightarrow> (\<And>x. persists_not (f x)) \<Longrightarrow> persists_not (bindE m f)"
  "(\<And>x. persists_not (g x)) \<Longrightarrow> persists_not (mapE g xs)"
  "e \<noteq> PersistenceFailure \<Longrightarrow> persists_not (requireE e b)"
  "persists_not p \<Longrightarrow> persists_not q \<Longrightarrow> persists_not (if b then p else q)"
  by (auto simp: persists_not_def result_iffs dest: mapE_Inl_D)

lemma persists_not_scalars:
  "persists_not (constrained_str lo hi v)" "persists_not (confidence x)" "persists_not (non_negative y)"
  "persists_not (positive z)" "persists_not (sha256 s)"
  by (auto simp: persists_not_def constrained_str_def confidence_def non_negative_def positive_def sha256_def Let_def split: if_splits)

lemma persists_not_checks:
  "persists_not (require_unique ids)" "persists_not (check_evidence ids)" "persists_not (require_known_evidence ids known)"
  by (auto simp: persists_not_def require_unique_def check_evidence_def require_known_evidence_def result_iffs Let_def split: if_splits)

lemma persists_not_policies:
  "persists_not (allowed_priorities_in ts topic)" "persists_not (criterion_in cs i)" "persists_not (rule_in rs j)"
proof -
  show "persists_not (allowed_priorities_in ts topic)" by (induction ts) (auto simp: persists_not_def)
  show "persists_not (criterion_in cs i)" by (induction cs) (auto simp: persists_not_def)
  show "persists_not (rule_in rs j)" by (induction rs) (auto simp: persists_not_def)
qed

lemma persists_not_as_aggregation: "persists_not r \<Longrightarrow> persists_not (as_aggregation_error r)"
  by (auto simp: persists_not_def as_aggregation_error_def split: sum.splits)

lemma persists_not_issues: "persists_not (check_issues p known seen issues)"
  by (induction issues arbitrary: seen)
    (auto simp: policy_rule_def intro!: persists_not_rules persists_not_checks persists_not_policies persists_not_as_aggregation)

lemma persists_not_weighted: "persists_not (weighted_sum q cs acc)"
  by (induction cs arbitrary: acc) (auto simp: passed_of_def intro!: persists_not_rules split: option.splits)

lemmas persists_not_all = persists_not_rules persists_not_scalars persists_not_checks persists_not_policies
  persists_not_as_aggregation persists_not_issues persists_not_weighted

lemma persists_not_aggregate: "persists_not (aggregate_analysis t c q co su pk run vs ms)"
  unfolding aggregate_analysis_def build_response_def check_classification_def check_quality_def check_compliance_def
    check_summary_def details_of_def quality_item_def quality_total_def public_issue_of_def grounded_action_of_def
    sanitized_issue_of_def public_segment_of_def result_validators validate_AnalyzeResponse_def validate_public_contract_def
    allowed_priorities_def criterion_def non_empty_id_def long_text_def Let_def case_prod_beta
  by (intro persists_not_all) simp_all

lemma persists_not_versions: "persists_not (validate_AnalysisVersions v)"
  unfolding validate_AnalysisVersions_def non_empty_id_def by (intro persists_not_all)

lemma persists_not_outputs: "persists_not (typed_outputs outputs)"
  unfolding typed_outputs_def by (intro persists_not_rules) (simp_all add: output_of_def persists_not_def split: option.splits)

section \<open>The outcome of a run\<close>

lemma keeps_disj: "keeps P m \<Longrightarrow> keeps Q m \<Longrightarrow> keeps (\<lambda>s. P s \<or> Q s) m"
  unfolding keeps_def hoare_def by blast

text \<open>What \<open>persist\<close> did: the log is as it was, the transaction is durable or nothing is.\<close>

lemma persist_hoare:
  assumes d: "dependable d durable pending"
    and tx: "tx = transaction (de_digest d) e es status record error"
  shows "hoare (\<lambda>s. phase env run durable x P s \<and> fl_log s = l) (persist d e es status record error)
    (\<lambda>_ s. phase env run durable (x @ [tx]) P s \<and> fl_log s = l)
    (\<lambda>q s. q = PersistenceFailure \<and> (phase env run durable x P s \<or> phase env run durable (x @ [tx]) P s) \<and> fl_log s = l)"
proof -
  let ?body = "persist_body (de_db d) (de_digest d) e es status record error"
  have db: "transactional (de_db d) durable pending" using d by (simp add: dependable_def)
  have keep: "keeps (\<lambda>w. durable w = y) (db_rollback (de_db d))" "keeps (\<lambda>w. durable w = y) (db_close (de_db d))" for y
    using db by (simp_all add: transactional_def)
  have body: "hoare (\<lambda>u. durable (uw_world u) = x \<and> pending (uw_world u) = []) ?body
      (\<lambda>_ u. durable (uw_world u) = x @ [tx]) (\<lambda>_ u. durable (uw_world u) = x \<or> durable (uw_world u) = x @ [tx])"
    using persist_body_hoare [OF db, of x] unfolding pending_in_def tx .
  have start: "hoare (\<lambda>w. durable w = x) (db_begin (de_db d)) (\<lambda>_ w. durable w = x \<and> pending w = [])
      (\<lambda>_ w. durable w = x \<or> durable w = x @ [tx])"
    using db by (auto simp: transactional_def hoare_def)
  have run: "hoare (\<lambda>u. durable (uw_world u) = x) (with_uow (de_db d) ?body) (\<lambda>_ u. durable (uw_world u) = x @ [tx])
      (\<lambda>_ u. durable (uw_world u) = x \<or> durable (uw_world u) = x @ [tx])"
    by (rule with_uow_hoare [OF start body]) (simp_all add: keeps_disj keep)
  show ?thesis
    unfolding persist_def hoare_def catchM_def on_fresh_uow_def raiseM_def phase_def types_def
    using run [unfolded hoare_def, rule_format, of "\<lparr>uw_session = False, uw_world = w\<rparr>" for w]
    by (auto split: prod.splits sum.splits)
qed

lemma persist_logged:
  assumes "dependable d durable pending" and "tx = transaction (de_digest d) e es status record error"
  shows "hoare (\<lambda>s. phase env run durable x P s \<and> lr_appended (fl_log s) = es) (persist d e es status record error)
    (\<lambda>_ s. phase env run durable (x @ [tx]) P s \<and> lr_appended (fl_log s) = es)
    (\<lambda>q s. q = PersistenceFailure \<and> (phase env run durable x P s \<or> phase env run durable (x @ [tx]) P s)
      \<and> lr_appended (fl_log s) = es)"
  using persist_hoare [OF assms, of env run x P] unfolding hoare_def by metis

lemma hoare_bind_lift:
  "(\<And>y. r = Inr y \<Longrightarrow> hoare P (f y) Q E) \<Longrightarrow> (\<And>e s. r = Inl e \<Longrightarrow> P s \<Longrightarrow> E e s) \<Longrightarrow> hoare P (bindM (liftE r) f) Q E"
  by (cases r) (auto simp: hoare_def bindM_def liftE_def)

lemma hoare_bind_read:
  "(\<And>v. hoare (\<lambda>s. P s \<and> g s = v) (f v) Q E) \<Longrightarrow> hoare P (bindM (readM g) f) Q E"
  by (auto simp: hoare_def bindM_def readM_def)

text \<open>What the agents made of a transcript, with its types checked.\<close>

definition agents_gave :: "'w deps \<Rightarrow> transcript_snapshot \<Rightarrow> uuid \<Rightarrow> int \<Rightarrow> int \<Rightarrow> agent_outputs \<Rightarrow> bool" where
  "agents_gave d t run created deadline out \<longleftrightarrow>
     (\<exists>s s' outputs. co_group (de_agents d) (append_agent_event (de_recorder d)) t run created deadline s = (Inr outputs, s')
        \<and> typed_outputs outputs = Inr out)"

lemma run_agents_gave: "run_agents d t run created deadline s = (Inr out, s') \<Longrightarrow> agents_gave d t run created deadline out"
  unfolding run_agents_def agents_gave_def by (auto split: prod.splits sum.splits)

lemma run_agents_hoare:
  assumes "dependable d durable pending" "env = de_recorder d" "extendable P"
  shows "hoare (phase env run durable x P) (run_agents d t r created deadline)
    (\<lambda>out s. agents_gave d t r created deadline out \<and> phase env run durable x P s)
    (\<lambda>q s. q \<noteq> PersistenceFailure \<and> phase env run durable x P s)"
proof (rule hoareI)
  fix s q s'
  assume s: "phase env run durable x P s" and q: "run_agents d t r created deadline s = (Inl q, s')"
  have agents: "group_error tree \<noteq> PersistenceFailure"
    if "fst (co_group (de_agents d) (append_agent_event (de_recorder d)) t r created deadline s) = Inl tree" for tree
    using assms(1) that unfolding dependable_def by blast
  obtain o1 s1 where g: "co_group (de_agents d) (append_agent_event (de_recorder d)) t r created deadline s = (o1, s1)"
    by (cases "co_group (de_agents d) (append_agent_event (de_recorder d)) t r created deadline s")
  have "q \<noteq> PersistenceFailure"
    using q agents persists_not_outputs g by (cases o1) (auto simp: run_agents_def persists_not_def)
  then show "q \<noteq> PersistenceFailure \<and> phase env run durable x P s'"
    using keepsD [OF run_agents_keeps [OF assms] s q] by simp
next
  fix s out s'
  assume "phase env run durable x P s" "run_agents d t r created deadline s = (Inr out, s')"
  then show "agents_gave d t r created deadline out \<and> phase env run durable x P s'"
    using keepsD [OF run_agents_keeps [OF assms]] run_agents_gave by blast
qed

lemma read_monotonic_hoare:
  assumes "dependable d durable pending"
  shows "hoare (phase env run durable x P) (read_monotonic d) (\<lambda>_. phase env run durable x P) (\<lambda>_ _. False)"
proof (rule hoareI)
  fix s v s'
  assume "phase env run durable x P s" "read_monotonic d s = (Inr v, s')"
  moreover have "durable (snd (de_monotonic d (fl_world s))) = durable (fl_world s)"
    using assms by (simp add: dependable_def)
  ultimately show "phase env run durable x P s'"
    by (auto simp: read_monotonic_def phase_def types_def split: prod.splits)
qed (auto simp: read_monotonic_def split: prod.splits)

text \<open>The last steps of a run whose aggregate is ready.\<close>

definition stored :: "'w deps \<Rightarrow> recorder_env \<Rightarrow> uuid \<Rightarrow> ('w \<Rightarrow> statement list list) \<Rightarrow> statement list list \<Rightarrow> (event_type list \<Rightarrow> bool)
    \<Rightarrow> run_envelope \<Rightarrow> run_status \<Rightarrow> sanitized_record option \<Rightarrow> error_code option \<Rightarrow> 'w flow \<Rightarrow> bool" where
  "stored d env run durable x P e status record error s \<longleftrightarrow>
     phase env run durable (x @ [transaction (de_digest d) e (lr_appended (fl_log s)) status record error]) P s"

definition after_agents :: "event_type list \<Rightarrow> event_type list \<Rightarrow> event_type list \<Rightarrow> bool" where
  "after_agents pre post ts \<longleftrightarrow> (\<exists>mid. ts = pre @ mid @ post)"

lemma after_agents_snoc: "after_agents pre post ts \<Longrightarrow> after_agents pre (post @ [t]) (ts @ [t])"
  by (auto simp: after_agents_def)

lemma after_agents_more: "extendable (after_agents pre [])"
  by (auto simp: extendable_def after_agents_def)

text \<open>The aggregate of what the agents made of this transcript, under the versions of this run.\<close>

definition versions_of :: "'w deps \<Rightarrow> transcript_snapshot \<Rightarrow> pystr \<Rightarrow> analysis_versions" where
  "versions_of d t h = \<lparr>av_code_sha = ws_code_sha (de_settings d), av_prompt_bundle_hash = h,
     av_taxonomy = taxonomy_version_of (de_policies d), av_quality = quality_version_of (de_policies d),
     av_compliance = compliance_version_of (de_policies d), av_asr = am_asr (sn_asr t),
     av_alignment = am_alignment (sn_asr t), av_diarization = am_diarization (sn_asr t)\<rparr>"

definition aggregate_of :: "'w deps \<Rightarrow> transcript_snapshot \<Rightarrow> uuid \<Rightarrow> int \<Rightarrow> int \<Rightarrow> pystr \<Rightarrow> aggregated \<Rightarrow> bool" where
  "aggregate_of d t run created deadline h a \<longleftrightarrow>
     (\<exists>out versions ms. agents_gave d t run created deadline out \<and> validate_AnalysisVersions (versions_of d t h) = Inr versions
        \<and> aggregate_analysis t (ao_classifier out) (ao_quality out) (ao_compliance out) (ao_summarizer out)
            (de_policies d) run versions ms = Inr a)"

lemma complete_run_hoare:
  assumes d: "dependable d durable pending" and env: "env = de_recorder d"
  shows "hoare (phase env run durable x (after_agents pre [])) (complete_run d e t run created deadline started prompt_hash)
    (\<lambda>resp s. \<exists>a. aggregate_of d t run created deadline prompt_hash a \<and> resp = ag_response a
      \<and> stored d env run durable x (after_agents pre [AGGREGATION_COMPLETED, RUN_COMPLETED]) e STATUS_COMPLETED (Some (ag_record a)) None s)
    (\<lambda>q s. q \<noteq> PersistenceFailure \<and> phase env run durable x (after_agents pre []) s
      \<or> q = PersistenceFailure \<and> (phase env run durable x (after_agents pre [AGGREGATION_COMPLETED, RUN_COMPLETED]) s
          \<or> (\<exists>a. aggregate_of d t run created deadline prompt_hash a
              \<and> stored d env run durable x (after_agents pre [AGGREGATION_COMPLETED, RUN_COMPLETED]) e STATUS_COMPLETED (Some (ag_record a)) None s)))"
    (is "hoare ?P _ ?Q ?E")
proof -
  have dig: "digests env" using d env by (simp add: dependable_def)
  have none: "workflow_payload []" by (simp add: workflow_payload_def)
  have last: "hoare (phase env run durable x (after_agents pre [AGGREGATION_COMPLETED, RUN_COMPLETED]))
      (bindM (readM (\<lambda>s. lr_appended (fl_log s))) (\<lambda>events.
       bindM (persist d e events STATUS_COMPLETED (Some (ag_record a)) None) (\<lambda>_. returnM (ag_response a)))) ?Q ?E"
    if "aggregate_of d t run created deadline prompt_hash a" for a
    by (rule hoare_bind_read, rule hoare_bind, rule hoare_weaken [OF persist_logged [OF d refl]], assumption, assumption)
      (use that in \<open>auto simp: stored_def intro!: hoare_return\<close>)
  have logs: "hoare ?P (bindM (log_event env AGGREGATION_COMPLETED []) (\<lambda>_. bindM (log_event env RUN_COMPLETED []) (\<lambda>_. m))) ?Q ?E"
    if "hoare (phase env run durable x (after_agents pre [AGGREGATION_COMPLETED, RUN_COMPLETED])) m ?Q ?E" for m
  proof (rule hoare_bind_sure [OF log_event_hoare [OF dig none]])
    show "after_agents pre [] ts \<Longrightarrow> after_agents pre [AGGREGATION_COMPLETED] (ts @ [AGGREGATION_COMPLETED])" for ts
      using after_agents_snoc [of pre "[]"] by simp
    show "hoare (phase env run durable x (after_agents pre [AGGREGATION_COMPLETED])) (bindM (log_event env RUN_COMPLETED []) (\<lambda>_. m)) ?Q ?E" for u
      by (rule hoare_bind_sure [OF log_event_hoare [OF dig none] that])
        (use after_agents_snoc [of pre "[AGGREGATION_COMPLETED]"] in simp)
  qed
  have agents: "hoare ?P (run_agents d t run created deadline) (\<lambda>out s. agents_gave d t run created deadline out \<and> ?P s) ?E"
    by (rule hoare_weaken [OF run_agents_hoare [OF d env after_agents_more]]) auto
  have aggregate: "q \<noteq> PersistenceFailure" if "aggregate_analysis t (ao_classifier out) (ao_quality out) (ao_compliance out)
      (ao_summarizer out) (de_policies d) run versions ms = Inl q" for out :: agent_outputs and versions ms q
    using persists_not_aggregate that by (metis persists_not_def)
  have versions: "q \<noteq> PersistenceFailure" if "validate_AnalysisVersions v = Inl q" for v q
    using persists_not_versions that by (metis persists_not_def)
  show ?thesis
    unfolding complete_run_def Let_def env [symmetric] versions_of_def [symmetric]
  proof (rule hoare_bind [OF agents], rule hoare_assume, rule hoare_bind_sure [OF read_monotonic_hoare [OF d]],
      rule hoare_bind_lift, rule hoare_bind_lift)
    fix out now v versions a
    assume "agents_gave d t run created deadline out" "validate_AnalysisVersions (versions_of d t prompt_hash) = Inr versions"
      "aggregate_analysis t (ao_classifier out) (ao_quality out) (ao_compliance out) (ao_summarizer out)
        (de_policies d) run versions (processing_ms started now) = Inr a"
    then have "aggregate_of d t run created deadline prompt_hash a" unfolding aggregate_of_def by blast
    from logs [OF last [OF this]]
    show "hoare ?P (bindM (log_event env AGGREGATION_COMPLETED []) (\<lambda>_. bindM (log_event env RUN_COMPLETED []) (\<lambda>_.
        bindM (readM (\<lambda>s. lr_appended (fl_log s))) (\<lambda>events.
        bindM (persist d e events STATUS_COMPLETED (Some (ag_record a)) None) (\<lambda>_. returnM (ag_response a)))))) ?Q ?E" .
  qed (use aggregate versions in auto)
qed

lemma error_payload_ok: "workflow_payload (error_payload v)"
  by (simp add: workflow_payload_def error_payload_def workflow_keys_def)

lemma fail_run_hoare:
  assumes d: "dependable d durable pending" and env: "env = de_recorder d"
  shows "hoare (phase env run durable x (after_agents pre [])) (fail_run d e c) Q
    (\<lambda>q s. q = DomainError c \<and> (phase env run durable x (after_agents pre [RUN_FAILED]) s
      \<or> stored d env run durable x (after_agents pre [RUN_FAILED]) e STATUS_FAILED None (Some c) s))"
    (is "hoare ?P _ Q ?E")
proof -
  have dig: "digests env" using d env by (simp add: dependable_def)
  let ?S = "\<lambda>s. phase env run durable x (after_agents pre [RUN_FAILED]) s
      \<or> stored d env run durable x (after_agents pre [RUN_FAILED]) e STATUS_FAILED None (Some c) s"
  have saved: "hoare (\<lambda>s. phase env run durable x (after_agents pre [RUN_FAILED]) s \<and> lr_appended (fl_log s) = es)
      (persist d e es STATUS_FAILED None (Some c)) (\<lambda>_. ?S) (\<lambda>q s. q = PersistenceFailure \<and> ?S s)" for es
    by (rule hoare_weaken [OF persist_logged [OF d refl]]) (auto simp: stored_def)
  have "hoare (\<lambda>s. phase env run durable x (after_agents pre [RUN_FAILED]) s \<and> lr_appended (fl_log s) = es)
      (persist_failure d e es c) (\<lambda>_. ?S) (\<lambda>_ _. False)" for es
    unfolding persist_failure_def by (rule hoare_catch [OF saved]) (auto simp: hoare_def returnM_def)
  note rest = hoare_bind_read [OF hoare_bind_sure [OF this, of "\<lambda>_. raiseM (DomainError c)" Q ?E]]
  show ?thesis
    unfolding fail_run_def env [symmetric]
    by (rule hoare_bind_sure [OF log_event_hoare [OF dig error_payload_ok]], rule after_agents_snoc [of pre "[]", simplified], assumption,
        rule rest) (auto intro: hoare_raise)
qed

definition started :: "event_type list" where
  "started = [RUN_STARTED, SPEECH_STARTED, SPEECH_COMPLETED]"

text \<open>
  A run, and what it works on: the transcript \<open>t\<close> of its input, the hash \<open>h\<close> of the prompts for it and the
  envelope \<open>e\<close> built from them.
\<close>

record run_case =
  rn_source :: analyze_input
  rn_request :: uuid
  rn_run :: uuid
  rn_override :: "run_source option"
  rn_created :: int

definition case_deadline :: "'w deps \<Rightarrow> run_case \<Rightarrow> int" where
  "case_deadline d c = rn_created c + ws_deadline (de_settings d)"

definition envelope_for :: "'w deps \<Rightarrow> run_case \<Rightarrow> transcript_snapshot \<times> run_source \<times> fetched_media \<Rightarrow> pystr \<Rightarrow> exn + run_envelope" where
  "envelope_for d c x h =
     (case x of (t, kind, media) \<Rightarrow>
        build_envelope d (rn_run c) (rn_request c) (case rn_override c of None \<Rightarrow> kind | Some k \<Rightarrow> k) t media (rn_created c) (case_deadline d c) h)"

definition prepared :: "'w deps \<Rightarrow> run_case \<Rightarrow> transcript_snapshot \<Rightarrow> pystr \<Rightarrow> run_envelope \<Rightarrow> bool" where
  "prepared d c t h e \<longleftrightarrow>
     (\<exists>kind media. transcribed d (rn_source c) (t, kind, media) \<and> co_prompt_hash (de_agents d) t = Inr h
        \<and> envelope_for d c (t, kind, media) h = Inr e)"

definition aggregate_for :: "'w deps \<Rightarrow> run_case \<Rightarrow> transcript_snapshot \<Rightarrow> pystr \<Rightarrow> aggregated \<Rightarrow> bool" where
  "aggregate_for d c t h a \<longleftrightarrow> aggregate_of d t (rn_run c) (rn_created c) (case_deadline d c) h a"

text \<open>How a run can end: with the answer, or with one of four failures.\<close>

definition ends_well ::
  "'w deps \<Rightarrow> run_case \<Rightarrow> ('w \<Rightarrow> statement list list) \<Rightarrow> statement list list \<Rightarrow> analyze_response \<Rightarrow> 'w flow \<Rightarrow> bool" where
  "ends_well d c durable x resp s \<longleftrightarrow>
     (\<exists>t h e a. prepared d c t h e \<and> aggregate_for d c t h a \<and> resp = ag_response a
        \<and> stored d (de_recorder d) (rn_run c) durable x (after_agents started [AGGREGATION_COMPLETED, RUN_COMPLETED]) e
            STATUS_COMPLETED (Some (ag_record a)) None s)"

definition ends_badly ::
  "'w deps \<Rightarrow> run_case \<Rightarrow> ('w \<Rightarrow> statement list list) \<Rightarrow> statement list list \<Rightarrow> exn \<Rightarrow> 'w flow \<Rightarrow> bool" where
  "ends_badly d c durable x q s \<longleftrightarrow>
     (let env = de_recorder d; run = rn_run c; failed = after_agents started [RUN_FAILED];
          completed = after_agents started [AGGREGATION_COMPLETED, RUN_COMPLETED] in
      (\<exists>k. q = DomainError k) \<and> phase env run durable x (\<lambda>ts. ts = [RUN_STARTED, SPEECH_STARTED, SPEECH_FAILED]) s
      \<or> (\<exists>y. transcribed d (rn_source c) y \<and> (co_prompt_hash (de_agents d) (fst y) = Inl q
              \<or> (\<exists>h. co_prompt_hash (de_agents d) (fst y) = Inr h \<and> envelope_for d c y h = Inl q)))
          \<and> phase env run durable x (\<lambda>ts. ts = started) s
      \<or> (\<exists>k. q = DomainError k \<and> (phase env run durable x failed s
            \<or> (\<exists>t h e. prepared d c t h e \<and> stored d env run durable x failed e STATUS_FAILED None (Some k) s)))
      \<or> q = DomainError SERVICE_UNAVAILABLE \<and> (phase env run durable x completed s
            \<or> (\<exists>t h e a. prepared d c t h e \<and> aggregate_for d c t h a
                \<and> stored d env run durable x completed e STATUS_COMPLETED (Some (ag_record a)) None s)))"

lemma run_failure_hoare:
  assumes d: "dependable d durable pending" and c: "prepared d c t h e" "run = rn_run c"
  shows "hoare (\<lambda>s. q \<noteq> PersistenceFailure \<and> phase (de_recorder d) run durable x (after_agents started []) s
      \<or> q = PersistenceFailure \<and> (phase (de_recorder d) run durable x (after_agents started [AGGREGATION_COMPLETED, RUN_COMPLETED]) s
          \<or> (\<exists>a. aggregate_for d c t h a
              \<and> stored d (de_recorder d) run durable x (after_agents started [AGGREGATION_COMPLETED, RUN_COMPLETED]) e
                  STATUS_COMPLETED (Some (ag_record a)) None s)))
    (run_failure d e q) Q (ends_badly d c durable x)"
proof -
  have fail: "hoare (\<lambda>s. phase (de_recorder d) run durable x (after_agents started []) s) (fail_run d e k) Q (ends_badly d c durable x)" for k
    by (rule hoare_weaken [OF fail_run_hoare [OF d refl]]) (use c in \<open>auto simp: ends_badly_def Let_def\<close>)
  show ?thesis
  proof (cases "q = PersistenceFailure")
    case True
    then show ?thesis using c by (auto simp: run_failure_def ends_badly_def Let_def intro!: hoare_raise)
  next
    case False
    then show ?thesis by (cases q) (simp_all add: run_failure_def fail)
  qed
qed

lemma analyze_run_hoare:
  assumes d: "dependable d durable pending"
    and c: "c = \<lparr>rn_source = source, rn_request = request, rn_run = run, rn_override = override, rn_created = created\<rparr>"
  shows "hoare (phase (de_recorder d) run durable x (\<lambda>ts. ts = [])) (analyze_run d source request run override created)
    (ends_well d c durable x) (ends_badly d c durable x)"
proof -
  let ?env = "de_recorder d" and ?dl = "created + ws_deadline (de_settings d)"
  have dig: "digests ?env" using d by (simp add: dependable_def)
  have payloads: "workflow_payload [(lit ''request_id'', v)]" "workflow_payload []"
    "workflow_payload [(lit ''transcript_id'', v), (lit ''audio_sha256'', v')]" for v v'
    by (simp_all add: workflow_payload_def workflow_keys_def)
  have log: "hoare (phase ?env run durable x (\<lambda>ts. ts = pre)) (log_event ?env t p) (\<lambda>_. phase ?env run durable x (\<lambda>ts. ts = pre @ [t])) (\<lambda>_ _. False)"
    if "workflow_payload p" for pre t p
    using dig that by (rule log_event_hoare) simp
  have speech: "hoare (phase ?env run durable x (\<lambda>ts. ts = [RUN_STARTED, SPEECH_STARTED])) (transcribe_source d source deadline)
      (\<lambda>y s. transcribed d source y \<and> phase ?env run durable x (\<lambda>ts. ts = [RUN_STARTED, SPEECH_STARTED]) s) (ends_badly d c durable x)" for deadline
    by (rule hoare_weaken [OF transcribe_hoare [OF d refl]]) (auto simp: ends_badly_def Let_def c)
  have run: "hoare (phase ?env run durable x (\<lambda>ts. ts = started))
      (catchM (complete_run d e t run created ?dl begun h) (run_failure d e)) (ends_well d c durable x) (ends_badly d c durable x)"
    if p: "prepared d c t h e" for e t begun h
  proof (rule hoare_catch [OF hoare_weaken [OF complete_run_hoare [OF d refl]] run_failure_hoare [OF d p]])
    show "phase ?env run durable x (after_agents started []) s" if "phase ?env run durable x (\<lambda>ts. ts = started) s" for s
      using that by (simp add: phase_def after_agents_def)
  qed (use p in \<open>auto simp: ends_well_def aggregate_for_def case_deadline_def c\<close>)
  have rest: "hoare (phase ?env run durable x (\<lambda>ts. ts = started))
      (bindM (liftE (co_prompt_hash (de_agents d) t)) (\<lambda>h.
       bindM (liftE (build_envelope d run request (case override of None \<Rightarrow> kind | Some k \<Rightarrow> k) t media created ?dl h)) (\<lambda>e.
         catchM (complete_run d e t run created ?dl begun h) (run_failure d e)))) (ends_well d c durable x) (ends_badly d c durable x)"
    if y: "transcribed d source (t, kind, media)" for t kind media begun
  proof (intro hoare_bind_lift run)
    fix h e
    assume h: "co_prompt_hash (de_agents d) t = Inr h"
    {
      assume "build_envelope d run request (case override of None \<Rightarrow> kind | Some k \<Rightarrow> k) t media created ?dl h = Inr e"
      then show "prepared d c t h e" using y h by (auto simp: prepared_def envelope_for_def case_deadline_def c)
    }
    {
      fix q s
      assume "build_envelope d run request (case override of None \<Rightarrow> kind | Some k \<Rightarrow> k) t media created ?dl h = Inl q"
        and s: "phase ?env run durable x (\<lambda>ts. ts = started) s"
      then have "envelope_for d c (t, kind, media) h = Inl q" by (simp add: envelope_for_def case_deadline_def c)
      then have "\<exists>y. transcribed d (rn_source c) y \<and> (\<exists>h. co_prompt_hash (de_agents d) (fst y) = Inr h \<and> envelope_for d c y h = Inl q)"
        using y h by (intro exI [of _ "(t, kind, media)"]) (auto simp: c)
      then show "ends_badly d c durable x q s" using s unfolding ends_badly_def Let_def by (auto simp: c)
    }
  next
    fix q s
    assume "co_prompt_hash (de_agents d) t = Inl q" and s: "phase ?env run durable x (\<lambda>ts. ts = started) s"
    then have "\<exists>y. transcribed d (rn_source c) y \<and> co_prompt_hash (de_agents d) (fst y) = Inl q"
      using y by (intro exI [of _ "(t, kind, media)"]) (simp add: c)
    then show "ends_badly d c durable x q s" using s unfolding ends_badly_def Let_def by (auto simp: c)
  qed
  show ?thesis
    unfolding analyze_run_def Let_def
    apply (rule hoare_bind_sure [OF read_monotonic_hoare [OF d]])
    apply (rule hoare_bind_sure [OF log [OF payloads(1)]])
    apply (rule hoare_bind_sure [OF log [OF payloads(2)]])
    apply (simp only: append.simps)
    apply (rule hoare_bind [OF speech])
    apply (simp only: case_prod_beta)
    apply (rule hoare_assume)
    apply (rule hoare_bind_sure [OF log [OF payloads(3)]])
    using rest [unfolded started_def] by simp
qed

section \<open>Properties\<close>

lemma log_ok_readable:
  assumes "log_ok env run l"
  shows "chained (le_hash env) (lr_appended l)"
    and "mset (filter (\<lambda>r. er_run_id r = run) rows) = mset (map row_of_event (lr_appended l)) \<Longrightarrow> list_events run rows = Inr (lr_appended l)"
proof -
  show "chained (le_hash env) (lr_appended l)" using assms by (simp add: log_ok_def recorder_good_def)
  then show "list_events run rows = Inr (lr_appended l)"
    if "mset (filter (\<lambda>r. er_run_id r = run) rows) = mset (map row_of_event (lr_appended l))"
    by (rule stored_log_roundtrip) (use assms that in \<open>auto simp: log_ok_def\<close>)
qed

lemma start_flow_phase: "phase env run durable (durable w) (\<lambda>ts. ts = []) (start_flow run w)"
proof -
  have "log_ok env run (new_recorder run)"
    by (simp add: log_ok_def new_recorder_good) (simp add: new_recorder_def)
  then show ?thesis by (simp add: phase_def start_flow_def types_def log_ok_readings) (simp add: new_recorder_def)
qed

lemma ends_log_ok: "ends_well d c durable x resp s \<Longrightarrow> log_ok (de_recorder d) (rn_run c) (fl_log s)"
  "ends_badly d c durable x q s \<Longrightarrow> log_ok (de_recorder d) (rn_run c) (fl_log s)"
  by (auto simp: ends_well_def ends_badly_def stored_def phase_def Let_def)

text \<open>
  Property C3. A run ends in one of five ways, where its transcript is an answer of the speech service for the media of
  its input, and its envelope the one built from this transcript and media.
  (1) The answer is returned: it is the aggregate of what the agents gave for this transcript, and one transaction made the
  envelope, the whole event log, the sanitised record of the same aggregate and the status COMPLETED durable.
  (2) Transcription fails with a public error; nothing is stored.
  (3) The prompts cannot be hashed or the envelope cannot be built: this very exception leaves the use case,
  no agent was started, nothing is stored.
  (4) The agents or the aggregation fail: a public error is raised, RUN_FAILED closes the log, and either nothing was stored
  or exactly one transaction with the envelope, the log, the status FAILED and the code of the error.
  (5) Storing the completed run fails: SERVICE_UNAVAILABLE, and either nothing was stored, or, when the failure
  came after the commit had taken effect, exactly the transaction of case (1), so that the caller sees an error for a
  run that is completed in the store.
  In every case the log is one hash chain, and once its rows are stored, among those of other runs and in any order,
  it is read back unchanged.
\<close>

theorem run_outcome:
  assumes "dependable d durable pending" and "analyze_with d source request run override w = (r, s)"
    and "c = \<lparr>rn_source = source, rn_request = request, rn_run = run, rn_override = override, rn_created = le_now (de_recorder d) 0\<rparr>"
  shows "chained (le_hash (de_recorder d)) (lr_appended (fl_log s))
    \<and> (\<forall>rows. mset (filter (\<lambda>r. er_run_id r = run) rows) = mset (map row_of_event (lr_appended (fl_log s)))
          \<longrightarrow> list_events run rows = Inr (lr_appended (fl_log s)))
    \<and> (case r of Inr resp \<Rightarrow> ends_well d c durable (durable w) resp s
        | Inl q \<Rightarrow> ends_badly d c durable (durable w) q s)"
proof -
  note run = analyze_run_hoare [OF assms(1,3), of "durable w"]
  have ends: "case r of Inr resp \<Rightarrow> ends_well d c durable (durable w) resp s
        | Inl q \<Rightarrow> ends_badly d c durable (durable w) q s"
    using hoare_ok [OF run start_flow_phase] hoare_fail [OF run start_flow_phase] assms(2)
    by (cases r) (auto simp: analyze_with_def)
  then have "log_ok (de_recorder d) (rn_run c) (fl_log s)" using ends_log_ok by (cases r) auto
  then have "log_ok (de_recorder d) run (fl_log s)" by (simp add: assms(3))
  with log_ok_readable ends show ?thesis by blast
qed

text \<open>A store that keeps its committed transactions, and agents that send one event and answer.\<close>

definition demo_db :: "(statement list list \<times> statement list) db_session" where
  "demo_db = \<lparr>db_begin = (\<lambda>(d, p). (Inr (), (d, []))), db_execute = (\<lambda>st (d, p). (Inr (), (d, p @ [st]))),
     db_commit = (\<lambda>(d, p). (Inr (), (d @ [p], []))), db_rollback = (\<lambda>(d, p). (Inr (), (d, []))),
     db_close = (\<lambda>(d, p). (Inr (), (d, [])))\<rparr>"

definition demo_agents :: "(statement list list \<times> statement list) core_agents" where
  "demo_agents = \<lparr>co_model_id = (\<lambda>i. lit ''model''), co_effort = (\<lambda>i. None), co_prompt_hash = (\<lambda>t. Inr (replicate 64 97)),
     co_group = (\<lambda>sink t run created deadline s.
       (case sink demo_event s of
          (Inl e, s') \<Rightarrow> (Inl (Group [Single (AgentRuntimeError FAIL_UNEXPECTED_RUNTIME_FAILURE)]), s')
        | (Inr e, s') \<Rightarrow> (Inr [OutClassification call_classification, OutQuality call_quality,
             OutCompliance call_compliance, OutSummary call_summary], s')))\<rparr>"

definition demo_settings :: workflow_settings where
  "demo_settings = \<lparr>ws_code_sha = lit ''abc'', ws_provider_id = lit ''openai'', ws_deadline = 60000000,
     ws_sample_rate = 16000, ws_channels = 1, ws_privacy_mode = lit ''redacted-cloud'', ws_audio_seconds = 0,
     ws_evidence_days = 30, ws_max_turns = 6, ws_max_input_tokens = 8000, ws_max_output_tokens = 2000, ws_max_cost = 1\<rparr>"

definition demo_clock_env :: recorder_env where
  "demo_clock_env = (demo_recorder_env (\<lambda>_. None))\<lparr>le_now := \<lambda>_. 0\<rparr>"

definition demo_deps :: "(statement list list \<times> statement list) deps" where
  "demo_deps = \<lparr>de_recorder = demo_clock_env, de_settings = demo_settings, de_policies = v1_packs,
     de_agents = demo_agents, de_fetch = (\<lambda>u. raiseM (fetch_failure UF_UNAVAILABLE)), de_speech = (\<lambda>m. returnM call_snapshot),
     de_db = demo_db, de_digest = (\<lambda>r. Inr (replicate 64 97)), de_monotonic = (\<lambda>w. (0, w)), de_uuid_text = (\<lambda>u. [48 + u])\<rparr>"

definition demo_file :: fetched_media where
  "demo_file = \<lparr>fm_filename = lit ''a.wav'', fm_content_type = lit ''audio/wav'', fm_content = [1]\<rparr>"

lemma demo_dependable: "dependable demo_deps fst snd"
proof -
  have "\<forall>c. is_sha256 (le_hash (de_recorder demo_deps) c)"
    by (simp add: demo_deps_def demo_clock_env_def demo_recorder_env_def sha256_def is_hex_lower_def list_all_iff)
  then have "digests (de_recorder demo_deps)"
    by (simp add: digests_def demo_deps_def demo_clock_env_def demo_recorder_env_def)
  moreover have "transactional (de_db demo_deps) fst snd"
    by (auto simp: transactional_def demo_deps_def demo_db_def hoare_def keeps_def)
  moreover have "I (snd (co_group (de_agents demo_deps) sink t run created deadline s))"
    if "\<forall>e. agent_made (de_recorder demo_deps) e \<longrightarrow> keeps I (sink e)" "I s" for I sink t run created deadline s
  proof -
    have "agent_made (de_recorder demo_deps) demo_event"
      unfolding agent_made_def storable_def by code_simp
    then have "I (snd (sink demo_event s))"
      using that keepsD [of I "sink demo_event" s] by (metis prod.collapse)
    then show ?thesis by (auto simp: demo_deps_def demo_agents_def split: prod.splits sum.splits)
  qed
  moreover have "group_error (Group [Single (AgentRuntimeError FAIL_UNEXPECTED_RUNTIME_FAILURE)]) \<noteq> PersistenceFailure"
    by code_simp
  then have "fst (co_group (de_agents demo_deps) sink t run created deadline s) = Inl tree \<Longrightarrow> group_error tree \<noteq> PersistenceFailure"
    for sink t run created deadline s tree
    by (auto simp: demo_deps_def demo_agents_def split: prod.splits sum.splits)
  ultimately show ?thesis
    unfolding dependable_def by (intro conjI allI impI) (simp_all add: demo_deps_def hoare_rules)
qed

text \<open>This store never fails, so that the run of the demo cannot either.\<close>

abbreviation sure :: "('s \<Rightarrow> bool) \<Rightarrow> ('s, 'a) comp \<Rightarrow> ('s \<Rightarrow> bool) \<Rightarrow> bool" where
  "sure P m Q \<equiv> hoare P m (\<lambda>_. Q) (\<lambda>_ _. False)"

lemma demo_execute: "sure uw_session (on_session (db_execute demo_db st)) uw_session"
  by (auto simp: hoare_def on_session_def demo_db_def split: prod.splits)

lemma demo_append: "sure uw_session (forM (append_event demo_db) es) uw_session"
proof (induction es)
  case (Cons e es)
  show ?case
    unfolding forM.simps append_event_def [of demo_db e]
    by (rule hoare_bind [OF demo_execute], rule hoare_bind [OF Cons]) (simp add: hoare_return)
qed (simp add: hoare_return)

lemma demo_persist_body: "sure uw_session (persist_body demo_db (\<lambda>r. Inr h) e es status record error) uw_session"
proof -
  have save: "sure uw_session (save_record demo_db (\<lambda>r. Inr h) record) uw_session"
    by (cases "record") (auto simp: save_record_def save_sanitized_def hoare_return intro!: hoare_bind_lift demo_execute)
  have commit: "sure uw_session (uow_commit demo_db) uw_session"
    by (auto simp: hoare_def uow_commit_def requireM_def on_session_def demo_db_def bindM_def readM_def guardM_def split: prod.splits)
  show ?thesis
    unfolding persist_body_def create_run_def set_status_def
    by (intro hoare_bind [OF demo_execute] hoare_bind [OF demo_append] hoare_bind [OF save] commit)
qed

lemma demo_persist: "sure I (persist demo_deps e es status record error) (\<lambda>_. True)"
proof -
  have enter: "sure (\<lambda>_. True) (uow_enter demo_db) uw_session"
    by (auto simp: hoare_def uow_enter_def bindM_def on_session_def demo_db_def modifyM_def split: prod.splits)
  have leave: "sure uw_session (uow_exit demo_db b) (\<lambda>_. True)" for b
    by (auto simp: hoare_def uow_exit_def bindM_def on_session_def demo_db_def modifyM_def readM_def returnM_def finallyM_def split: prod.splits)
  have "sure (\<lambda>_. True) (with_uow demo_db (persist_body demo_db (\<lambda>r. Inr (replicate 64 97)) e es status record error)) (\<lambda>_. True)"
    unfolding with_uow_def
    by (rule hoare_bind [OF enter], rule hoare_bind [OF hoare_catch [OF demo_persist_body]])
      (simp add: hoare_def, rule leave)
  then show ?thesis
    by (auto simp: hoare_def persist_def catchM_def on_fresh_uow_def demo_deps_def split: prod.splits sum.splits)
qed

definition demo_outputs :: agent_outputs where
  "demo_outputs = \<lparr>ao_classifier = call_classification, ao_quality = call_quality,
     ao_compliance = call_compliance, ao_summarizer = call_summary\<rparr>"

lemma demo_typed: "typed_outputs [OutClassification call_classification, OutQuality call_quality,
    OutCompliance call_compliance, OutSummary call_summary] = Inr demo_outputs"
  by code_simp

lemma demo_agents_answer:
  "hoare (phase (de_recorder demo_deps) run fst x (after_agents pre [])) (run_agents demo_deps t run created deadline)
     (\<lambda>o' s. o' = demo_outputs \<and> phase (de_recorder demo_deps) run fst x (after_agents pre []) s) (\<lambda>_ _. False)"
proof (rule hoareI)
  fix s o' s'
  assume s: "phase (de_recorder demo_deps) run fst x (after_agents pre []) s"
    and r: "run_agents demo_deps t run created deadline s = (Inr o', s')"
  then have "o' = demo_outputs"
    by (auto simp: run_agents_def demo_deps_def demo_agents_def demo_typed split: prod.splits sum.splits)
  then show "o' = demo_outputs \<and> phase (de_recorder demo_deps) run fst x (after_agents pre []) s'"
    using hoare_ok [OF run_agents_hoare [OF demo_dependable refl after_agents_more] s r] by simp
next
  fix s q s'
  assume s: "phase (de_recorder demo_deps) run fst x (after_agents pre []) s"
    and r: "run_agents demo_deps t run created deadline s = (Inl q, s')"
  have "agent_made (de_recorder demo_deps) demo_event" unfolding agent_made_def storable_def by code_simp
  moreover have "digests (de_recorder demo_deps)" using demo_dependable by (simp add: dependable_def)
  ultimately obtain e l where "collector_append (de_recorder demo_deps) demo_event (fl_log s) = (Inr e, l)"
    using append_agent_event_ok [OF _ _ s] by blast
  then obtain e l where "append_agent_event (de_recorder demo_deps) demo_event s = (Inr e, s\<lparr>fl_log := l\<rparr>)"
    by (auto simp: append_agent_event_def)
  then show False using r by (simp add: run_agents_def demo_deps_def demo_agents_def demo_typed)
qed

lemma demo_transcribe:
  "transcribe_source demo_deps (FileAnalyzeInput demo_file) 60000000 s =
     (Inr (call_snapshot, SOURCE_REST_FILE, demo_file), s\<lparr>fl_log := (fl_log s)\<lparr>lr_readings := lr_readings (fl_log s) + 1\<rparr>\<rparr>)"
proof -
  have "validate_SpeechFile demo_file = Inr demo_file" by code_simp
  then show ?thesis
    by (simp add: transcribe_source_def transcribe_body_def catchM_def bindM_def read_now_def guardM_def obtain_media_def
        returnM_def liftE_def on_world_def demo_deps_def demo_clock_env_def)
qed

lemma demo_run_ok: "sure (phase (de_recorder demo_deps) 3 fst x (\<lambda>ts. ts = []))
    (analyze_run demo_deps (FileAnalyzeInput demo_file) 7 3 None 0) (\<lambda>_. True)"
proof -
  let ?env = "de_recorder demo_deps" and ?h = "replicate 64 97 :: pystr"
  let ?v = "\<lparr>av_code_sha = ws_code_sha (de_settings demo_deps), av_prompt_bundle_hash = ?h,
      av_taxonomy = taxonomy_version_of (de_policies demo_deps), av_quality = quality_version_of (de_policies demo_deps),
      av_compliance = compliance_version_of (de_policies demo_deps), av_asr = am_asr (sn_asr call_snapshot),
      av_alignment = am_alignment (sn_asr call_snapshot), av_diarization = am_diarization (sn_asr call_snapshot)\<rparr>"
  have dig: "digests ?env" using demo_dependable by (simp add: dependable_def)
  have log: "sure (phase ?env 3 fst x (after_agents pre [])) (log_event ?env t p) (phase ?env 3 fst x (after_agents pre []))"
    if "workflow_payload p" for pre t p
    by (rule log_event_hoare [OF dig that]) (use after_agents_more in \<open>simp add: extendable_def\<close>)
  have versions: "validate_AnalysisVersions ?v = Inr call_versions" by code_simp
  have "is_ok (aggregate_analysis call_snapshot call_classification call_quality call_compliance call_summary
      v1_packs 3 call_versions (processing_ms 0 0))" by code_simp
  then obtain a where aggregate: "aggregate_analysis call_snapshot (ao_classifier demo_outputs) (ao_quality demo_outputs)
      (ao_compliance demo_outputs) (ao_summarizer demo_outputs) (de_policies demo_deps) 3 call_versions (processing_ms 0 0) = Inr a"
    by (auto simp: is_ok_iff demo_outputs_def demo_deps_def)
  let ?P = "phase ?env 3 fst x (after_agents [] [])"
  have payloads: "workflow_payload [(lit ''request_id'', v)]" "workflow_payload []"
    "workflow_payload [(lit ''transcript_id'', v), (lit ''audio_sha256'', v')]" for v v'
    by (simp_all add: workflow_payload_def workflow_keys_def)
  have mono: "read_monotonic demo_deps = returnM 0"
    by (rule ext) (simp add: read_monotonic_def demo_deps_def returnM_def)
  have return: "bindM (returnM y) f = f y" for y :: 'y and f :: "'y \<Rightarrow> ('s, 'z) comp"
    by (rule ext) (simp add: bindM_def returnM_def)
  have complete: "sure ?P (complete_run demo_deps e call_snapshot 3 0 dl 0 ?h) (\<lambda>_. True)" for e dl
    unfolding complete_run_def Let_def
  proof (rule hoare_bind [OF demo_agents_answer], rule hoare_assume, unfold mono return)
    fix o' assume "o' = demo_outputs"
    show "sure ?P (bindM (liftE (validate_AnalysisVersions ?v)) (\<lambda>versions. bindM (liftE (aggregate_analysis call_snapshot
          (ao_classifier o') (ao_quality o') (ao_compliance o') (ao_summarizer o') (de_policies demo_deps) 3 versions (processing_ms 0 0))) (\<lambda>a.
        bindM (log_event ?env AGGREGATION_COMPLETED []) (\<lambda>_. bindM (log_event ?env RUN_COMPLETED []) (\<lambda>_.
        bindM (readM (\<lambda>s. lr_appended (fl_log s))) (\<lambda>events.
        bindM (persist demo_deps e events STATUS_COMPLETED (Some (ag_record a)) None) (\<lambda>_. returnM (ag_response a)))))))) (\<lambda>_. True)"
      unfolding versions aggregate \<open>o' = demo_outputs\<close>
      by (intro hoare_bind_lift hoare_bind [OF log [OF payloads(2)]] hoare_bind_read hoare_bind [OF demo_persist] hoare_return)
        (simp_all add: aggregate)
  qed
  have "sure ?P (transcribe_source demo_deps (FileAnalyzeInput demo_file) 60000000) ?P"
    by (auto simp: hoare_def demo_transcribe phase_def types_def log_ok_readings)
  then have speech: "hoare ?P (transcribe_source demo_deps (FileAnalyzeInput demo_file) 60000000)
      (\<lambda>r s. r = (call_snapshot, SOURCE_REST_FILE, demo_file) \<and> ?P s) (\<lambda>_ _. False)"
    by (auto simp: hoare_def demo_transcribe)
  have "is_ok (build_envelope demo_deps 3 7 SOURCE_REST_FILE call_snapshot demo_file 0 60000000 ?h)" by code_simp
  then obtain e where envelope: "build_envelope demo_deps 3 7 SOURCE_REST_FILE call_snapshot demo_file 0 60000000 ?h = Inr e"
    by (auto simp: is_ok_iff)
  have hash: "co_prompt_hash (de_agents demo_deps) t = Inr ?h" for t by (simp add: demo_deps_def demo_agents_def)
  have deadline: "0 + ws_deadline (de_settings demo_deps) = 60000000" by (simp add: demo_deps_def demo_settings_def)
  have rest: "sure ?P (bindM (log_event ?env SPEECH_COMPLETED p)
      (\<lambda>_. catchM (complete_run demo_deps e call_snapshot 3 0 60000000 0 ?h) (run_failure demo_deps e))) (\<lambda>_. True)"
    if "workflow_payload p" for p
    by (rule hoare_bind [OF log [OF that]], rule hoare_catch [OF complete]) (simp add: hoare_def)
  have "sure ?P (analyze_run demo_deps (FileAnalyzeInput demo_file) 7 3 None 0) (\<lambda>_. True)"
    unfolding analyze_run_def Let_def mono return deadline
    by (rule hoare_bind [OF log [OF payloads(1)]], rule hoare_bind [OF log [OF payloads(2)]], rule hoare_bind [OF speech],
        rule hoare_assume) (use rest [OF payloads(3)] in \<open>simp add: hash envelope bindM_lift [abs_def]\<close>)
  then show ?thesis by (rule hoare_pre) (simp add: phase_def after_agents_def)
qed

theorem run_outcome_witness:
  "\<exists>resp s tx. analyze_with demo_deps (FileAnalyzeInput demo_file) 7 3 None ([], []) = (Inr resp, s) \<and> fst (fl_world s) = [tx]"
proof -
  obtain r s where run: "analyze_with demo_deps (FileAnalyzeInput demo_file) 7 3 None ([], []) = (r, s)"
    by (cases "analyze_with demo_deps (FileAnalyzeInput demo_file) 7 3 None ([], [])")
  have clock: "le_now (de_recorder demo_deps) 0 = 0" by (simp add: demo_deps_def demo_clock_env_def)
  have start: "phase (de_recorder demo_deps) 3 fst [] (\<lambda>ts. ts = []) (start_flow 3 ([], []))"
    using start_flow_phase [of _ 3 fst "([], [])"] by simp
  obtain resp where "r = Inr resp"
    using run hoare_fail [OF demo_run_ok start] unfolding analyze_with_def clock by (cases r) auto
  with run_outcome [OF demo_dependable run refl] run show ?thesis
    by (auto simp: ends_well_def stored_def phase_def)
qed

end
