(* ===== verification/Admission.thy ===== *)
theory Admission
  imports StreamServer
begin

text \<open>
  The speech runtime (\<^verbatim>\<open>services/speech/runtime.py\<close>): its lazily created engine and readiness, the bounded
  admission of batch requests and streams, and the wrapper that gives a stream's reservation back
  when its session closes. The tasks of the event loop are a step relation: each step is what one
  task does between two awaits. The admission lock is never held across an await, so that reserving
  and releasing are single steps.
\<close>

section \<open>Admission\<close>

record runtime_limits =
  rl_max_concurrency :: nat
  rl_queue_capacity :: nat

text \<open>\<^verbatim>\<open>_outstanding\<close>, and the free permits of the semaphore \<^verbatim>\<open>_model_slot\<close>.\<close>

record admission =
  am_outstanding :: int
  am_free :: nat

definition new_admission :: "runtime_limits \<Rightarrow> admission" where
  "new_admission rl = \<lparr>am_outstanding = 0, am_free = rl_max_concurrency rl\<rparr>"

definition capacity :: "runtime_limits \<Rightarrow> int" where
  "capacity rl = int (rl_max_concurrency rl) + int (rl_queue_capacity rl)"

definition reserve_slot :: "runtime_limits \<Rightarrow> (admission, unit) comp" where
  "reserve_slot rl =
     bindM (readM am_outstanding) (\<lambda>n.
     bindM (guardM SpeechOverloadedError (\<not> capacity rl \<le> n)) (\<lambda>_. modifyM (am_outstanding_update (\<lambda>n. n + 1))))"

definition release_slot :: "(admission, unit) comp" where
  "release_slot = modifyM (am_outstanding_update (\<lambda>n. n - 1))"

text \<open>Acquiring waits until a permit is free: it is not enabled before.\<close>

fun acquire_model :: "admission \<Rightarrow> admission option" where
  "acquire_model a = (if am_free a = 0 then None else Some (a\<lparr>am_free := am_free a - 1\<rparr>))"

definition release_model :: "(admission, unit) comp" where
  "release_model = modifyM (am_free_update Suc)"

section \<open>The reserved session\<close>

text \<open>\<^verbatim>\<open>_ReservedStreamingSession\<close>: the session it wraps, its flag, and the admission state it gives back to.\<close>

record 's reserved =
  rs_session :: 's
  rs_closed :: bool
  rs_admission :: admission

definition on_inner :: "('s, 'a) comp \<Rightarrow> ('s reserved, 'a) comp" where
  "on_inner m s = (case m (rs_session s) of (r, i) \<Rightarrow> (r, s\<lparr>rs_session := i\<rparr>))"

definition on_admission :: "(admission, 'a) comp \<Rightarrow> ('s reserved, 'a) comp" where
  "on_admission m s = (case m (rs_admission s) of (r, a) \<Rightarrow> (r, s\<lparr>rs_admission := a\<rparr>))"

definition reserved_push ::
  "(bytes \<Rightarrow> nat \<Rightarrow> ('s, streaming_update list) comp) \<Rightarrow> bytes \<Rightarrow> nat \<Rightarrow> ('s reserved, streaming_update list) comp" where
  "reserved_push push frame n = on_inner (push frame n)"

definition reserved_close :: "('s, unit) comp \<Rightarrow> ('s reserved, unit) comp" where
  "reserved_close close =
     bindM (readM rs_closed) (\<lambda>done.
       if done then returnM ()
       else bindM (modifyM (rs_closed_update (\<lambda>_. True))) (\<lambda>_.
         finallyM (on_inner close)
           (bindM (on_admission release_model) (\<lambda>_. on_admission release_slot))))"

definition reserved_finish ::
  "('s, streaming_update list) comp \<Rightarrow> ('s, unit) comp \<Rightarrow> ('s reserved, streaming_update list) comp" where
  "reserved_finish finish close = finallyM (on_inner finish) (reserved_close close)"

definition give_back :: "admission \<Rightarrow> admission" where
  "give_back a = \<lparr>am_outstanding = am_outstanding a - 1, am_free = Suc (am_free a)\<rparr>"

lemma reserved_close_eq:
  "reserved_close close s =
     (if rs_closed s then (Inr (), s)
      else (fst (close (rs_session s)), s\<lparr>rs_session := snd (close (rs_session s)), rs_closed := True,
              rs_admission := give_back (rs_admission s)\<rparr>))"
  by (cases s; cases "rs_admission s")
    (auto simp: reserved_close_def bindM_def readM_def returnM_def modifyM_def finallyM_def on_inner_def on_admission_def
      release_model_def release_slot_def give_back_def split: prod.splits)

text \<open>
  However its session ends, it gives its reservation back exactly once: the first close or finish does, also
  when the session fails then, and nothing does afterwards.
\<close>

definition settled :: "'s reserved \<Rightarrow> 's reserved \<Rightarrow> bool" where
  "settled s s' \<longleftrightarrow> rs_closed s'
     \<and> rs_admission s' = (if rs_closed s then rs_admission s else give_back (rs_admission s))"

lemma reserved_close_settles: "reserved_close close s = (r, s') \<Longrightarrow> settled s s'"
  by (auto simp: reserved_close_eq settled_def split: if_splits)

lemma reserved_finish_settles: "reserved_finish finish close s = (r, s') \<Longrightarrow> settled s s'"
  by (auto simp: reserved_finish_def finallyM_def on_inner_def settled_def reserved_close_eq split: prod.splits sum.splits if_splits)

lemma reserved_push_holds:
  "reserved_push push frame n s = (r, s') \<Longrightarrow> rs_closed s' = rs_closed s \<and> rs_admission s' = rs_admission s"
  by (auto simp: reserved_push_def on_inner_def split: prod.splits)

text \<open>The wrapper of a session is a session.\<close>

definition reserved_valid :: "('s \<Rightarrow> bool) \<Rightarrow> ('s \<Rightarrow> bool) \<Rightarrow> 's reserved \<Rightarrow> bool" where
  "reserved_valid valid over s \<longleftrightarrow> valid (rs_session s) \<and> (rs_closed s \<longrightarrow> over (rs_session s))"

definition reserved_closed :: "('s \<Rightarrow> bool) \<Rightarrow> 's reserved \<Rightarrow> bool" where
  "reserved_closed over s \<longleftrightarrow> rs_closed s \<and> over (rs_session s)"

context stream_session
begin

lemma reserved_session:
  "stream_session (reserved_push push) (reserved_finish finish close) (reserved_close close)
     (reserved_valid valid closed) (reserved_closed closed) max_bytes max_updates"
proof
  fix frame n us q and s s' :: "'s reserved" and r :: "exn + streaming_update list"
  have close_ok: "valid (snd (close x)) \<and> closed (snd (close x))" if "valid x" for x
    using keepsD [OF close_valid that] close_closes [OF that] by (metis prod.collapse)
  have finish_ok: "valid (snd (finish x))" if "valid x" for x
    using keepsD [OF finish_valid that] by (metis prod.collapse)
  show "keeps (reserved_valid valid closed) (reserved_push push frame n)"
    using keepsD [OF push_valid] push_closed
    by (intro keepsI) (fastforce simp: reserved_push_def on_inner_def reserved_valid_def split: prod.splits)
  show close: "keeps (reserved_valid valid closed) (reserved_close close)"
    by (intro keepsI) (auto simp: reserved_close_eq reserved_valid_def close_ok split: if_splits)
  show "keeps (reserved_valid valid closed) (reserved_finish finish close)"
    unfolding reserved_finish_def
  proof (rule keeps_finally [OF _ close], rule keepsI)
    fix s r s'
    assume "reserved_valid valid closed s" "on_inner finish s = (r, s')"
    then show "reserved_valid valid closed s'"
      using finish_ok [of "rs_session s"] finish_closes
      by (auto simp: on_inner_def reserved_valid_def split: prod.splits)
  qed
  show "length us \<le> max_updates \<and> list_all (update_ok max_bytes) us"
    if "reserved_valid valid closed s" "reserved_push push frame n s = (Inr us, s')"
    using that push_updates by (auto simp: reserved_push_def on_inner_def reserved_valid_def split: prod.splits)
  show "length us \<le> max_updates \<and> list_all (update_ok max_bytes) us"
    if "reserved_valid valid closed s" "reserved_finish finish close s = (Inr us, s')"
    using that finish_updates
    by (auto simp: reserved_finish_def finallyM_def on_inner_def reserved_valid_def split: prod.splits sum.splits)
  show "\<not> is_ok r \<and> reserved_closed closed s'" if "reserved_closed closed s" "reserved_push push frame n s = (r, s')"
    using that push_closed by (fastforce simp: reserved_push_def on_inner_def reserved_closed_def split: prod.splits)
  show "reserved_closed closed s'" if "reserved_finish finish close s = (r, s')"
    using that finish_closes close_closed
    by (fastforce simp: reserved_finish_def finallyM_def on_inner_def reserved_closed_def reserved_close_eq split: prod.splits sum.splits if_splits)
  show "reserved_finish finish close s = (Inr [], s)" if "reserved_closed closed s"
    using that finish_closed by (simp add: reserved_finish_def finallyM_def on_inner_def reserved_closed_def reserved_close_eq)
  show "reserved_closed closed s'" if "reserved_valid valid closed s" "reserved_close close s = (q, s')"
    using that close_ok by (auto simp: reserved_close_eq reserved_closed_def reserved_valid_def split: if_splits)
  show "reserved_close close s = (Inr (), s)" if "reserved_closed closed s"
    using that by (simp add: reserved_close_eq reserved_closed_def)
qed

end

text \<open>What \<^verbatim>\<open>open_stream\<close> hands to the service: the rolling session in its wrapper.\<close>

interpretation rv: stream_session "reserved_push (rolling_push cfg sv)" "reserved_finish (rolling_finish cfg sv) (rolling_close cfg sv)"
    "reserved_close (rolling_close cfg sv)" "reserved_valid (rolling_inv cfg) ro_closed" "reserved_closed ro_closed"
    "rc_max_text_bytes cfg" 2 for cfg sv
  by (rule ro.reserved_session)

section \<open>Lazy resources\<close>

text \<open>
  What the runtime creates on first use. Registry, engine and adapter are parameters that act on a world and may
  raise. Each lock serialises its users, so that one call is one computation; the cancellation of a
  warm-up, which also counts as fatal, is left out.
\<close>

record ('w, 'e, 'x) lazy_env =
  ze_cuda :: bool
  ze_groq :: bool
  ze_verify :: "('w, bool) comp"
  ze_engine :: "('w, 'e) comp"
  ze_warm :: "'e \<Rightarrow> ('w, unit) comp"
  ze_adapter :: "('w, 'x) comp"

record ('w, 'e, 'x) lazy =
  lz_world :: 'w
  lz_engine :: "'e option"
  lz_streaming :: "'x option"
  lz_fatal :: bool
  lz_warm :: bool

definition on_lazy :: "('w, 'a) comp \<Rightarrow> (('w, 'e, 'x) lazy, 'a) comp" where
  "on_lazy m z = (case m (lz_world z) of (r, w) \<Rightarrow> (r, z\<lparr>lz_world := w\<rparr>))"

definition verified :: "('w, 'e, 'x) lazy_env \<Rightarrow> (('w, 'e, 'x) lazy, unit) comp" where
  "verified env = bindM (on_lazy (ze_verify env)) (\<lambda>ready. guardM SpeechConfigurationError ready)"

definition get_engine :: "('w, 'e, 'x) lazy_env \<Rightarrow> (('w, 'e, 'x) lazy, 'e) comp" where
  "get_engine env =
     bindM (readM lz_engine) (\<lambda>cached.
       case cached of
         Some e \<Rightarrow> returnM e
       | None \<Rightarrow>
           bindM (verified env) (\<lambda>_.
           bindM (on_lazy (ze_engine env)) (\<lambda>e.
           bindM (modifyM (lz_engine_update (\<lambda>_. Some e))) (\<lambda>_. returnM e))))"

definition get_streaming_adapter :: "('w, 'e, 'x) lazy_env \<Rightarrow> (('w, 'e, 'x) lazy, 'x) comp" where
  "get_streaming_adapter env =
     bindM (readM lz_streaming) (\<lambda>cached.
       case cached of
         Some x \<Rightarrow> returnM x
       | None \<Rightarrow>
           bindM (verified env) (\<lambda>_.
           bindM (guardM SpeechConfigurationError (ze_groq env)) (\<lambda>_.
           bindM (on_lazy (ze_adapter env)) (\<lambda>x.
           bindM (modifyM (lz_streaming_update (\<lambda>_. Some x))) (\<lambda>_. returnM x)))))"

definition warmup :: "('w, 'e, 'x) lazy_env \<Rightarrow> (('w, 'e, 'x) lazy, unit) comp" where
  "warmup env =
     (if \<not> ze_cuda env then returnM ()
      else catchM
        (bindM (readM (\<lambda>z. lz_warm z \<or> lz_fatal z)) (\<lambda>settled.
           if settled then returnM ()
           else bindM (get_engine env) (\<lambda>e. bindM (on_lazy (ze_warm env e)) (\<lambda>_. modifyM (lz_warm_update (\<lambda>_. True))))))
        (\<lambda>_. bindM (modifyM (lz_fatal_update (\<lambda>_. True))) (\<lambda>_. raiseM SpeechConfigurationError)))"

definition ready :: "('w, 'e, 'x) lazy_env \<Rightarrow> (('w, 'e, 'x) lazy, bool) comp" where
  "ready env =
     (if ze_cuda env then readM (\<lambda>z. \<not> lz_fatal z \<and> lz_warm z)
      else bindM (readM lz_fatal) (\<lambda>fatal. if fatal then returnM False else on_lazy (ze_verify env)))"

text \<open>The engine is built once; a failed warm-up is final, and only a successful one makes the service ready.\<close>

lemma on_lazy_keeps: "(\<And>z w. P z \<Longrightarrow> P (z\<lparr>lz_world := w\<rparr>)) \<Longrightarrow> keeps P (on_lazy m)"
  by (rule keepsI) (auto simp: on_lazy_def split: prod.splits)

lemma get_engine_cached: "lz_engine z = Some e \<Longrightarrow> get_engine env z = (Inr e, z)"
  by (simp add: get_engine_def bindM_def readM_def returnM_def)

lemma get_engine_caches: "get_engine env z = (Inr e, z') \<Longrightarrow> lz_engine z' = Some e"
  by (auto simp: get_engine_def comp_iffs split: option.splits)

lemma get_engine_fatal: "keeps (\<lambda>z. lz_fatal z = f \<and> lz_warm z = w) (get_engine env)"
  unfolding get_engine_def verified_def by (intro hoare_rules on_lazy_keeps keeps_modify) simp_all

lemma warmup_fatal: "keeps lz_fatal (warmup env)"
  by (rule keepsI) (auto simp: warmup_def catchM_def bindM_def readM_def returnM_def modifyM_def raiseM_def split: if_splits)

lemma fatal_not_ready: "lz_fatal z \<Longrightarrow> ready env z = (Inr False, z)"
  by (simp add: ready_def readM_def bindM_def returnM_def)

lemma failed_warmup_final: "warmup env z = (Inl e, z') \<Longrightarrow> e = SpeechConfigurationError \<and> lz_fatal z'"
  by (auto simp: warmup_def catchM_def bindM_def modifyM_def raiseM_def returnM_def split: prod.splits sum.splits if_splits)

lemma catchM_raises: "catchM m (\<lambda>_. bindM (modifyM f) (\<lambda>_. raiseM e)) s = (Inr x, s') \<Longrightarrow> m s = (Inr x, s')"
  by (auto simp: catchM_def bindM_def modifyM_def raiseM_def split: prod.splits sum.splits)

lemma warmup_ready:
  assumes "ze_cuda env" "\<not> lz_fatal z" "warmup env z = (Inr u, z')"
  shows "ready env z' = (Inr True, z')"
proof (cases "lz_warm z")
  case True
  then show ?thesis using assms by (auto simp: warmup_def ready_def catchM_def bindM_def readM_def returnM_def)
next
  case False
  let ?warm = "\<lambda>e. bindM (on_lazy (ze_warm env e)) (\<lambda>_. modifyM (lz_warm_update (\<lambda>_. True)))"
  have "bindM (readM (\<lambda>z. lz_warm z \<or> lz_fatal z)) (\<lambda>settled. if settled then returnM () else bindM (get_engine env) ?warm) z = (Inr u, z')"
    using assms(1,3) by (intro catchM_raises) (simp add: warmup_def)
  then have "bindM (get_engine env) ?warm z = (Inr u, z')"
    using False assms(2) by (simp add: bindM_def [of "readM _"] readM_def)
  then obtain e z1 v z2 where run: "get_engine env z = (Inr e, z1)" "on_lazy (ze_warm env e) z1 = (Inr v, z2)" "z' = z2\<lparr>lz_warm := True\<rparr>"
    unfolding bindM_Inr_iff modifyM_Inr_iff by blast
  have "lz_fatal z1 = False \<and> lz_warm z1 = False"
    by (rule keepsD [OF get_engine_fatal _ run(1)]) (use assms(2) False in simp)
  then have "\<not> lz_fatal z2" using run(2) by (auto simp: on_lazy_def split: prod.splits)
  then show ?thesis using assms(1) run(3) by (simp add: ready_def readM_def)
qed

section \<open>The tasks\<close>

text \<open>
  A batch request is its shielded worker task, whether its caller still waits for it, and whether its
  reservation has been released. A stream is the task of \<^verbatim>\<open>open_stream\<close>, then its session.
\<close>

datatype worker = Queued | Running | Ended

record batch =
  bt_worker :: worker
  bt_waiting :: bool
  bt_released :: bool

datatype stream_task = StreamQueued | StreamOpening | StreamOpen | StreamClosing | StreamReleased

datatype job = BatchJob batch | StreamJob stream_task

definition release_both :: "(admission, unit) comp" where
  "release_both = bindM release_model (\<lambda>_. release_slot)"

text \<open>
  The steps of one job. A caller may leave at any time: its deadline passes, it is cancelled, or the
  worker failed. Then \<^verbatim>\<open>_release_when_finished\<close> schedules the release for when the worker has ended.
\<close>

inductive job_step :: "job \<Rightarrow> admission \<Rightarrow> job \<Rightarrow> admission \<Rightarrow> bool" where
  worker_starts: "bt_worker b = Queued \<Longrightarrow> acquire_model a = Some a' \<Longrightarrow>
     job_step (BatchJob b) a (BatchJob (b\<lparr>bt_worker := Running\<rparr>)) a'"
| worker_ends: "bt_worker b = Running \<Longrightarrow> release_model a = (Inr u, a') \<Longrightarrow>
     job_step (BatchJob b) a (BatchJob (b\<lparr>bt_worker := Ended\<rparr>)) a'"
| caller_returns: "bt_worker b = Ended \<Longrightarrow> bt_waiting b \<Longrightarrow> release_slot a = (Inr u, a') \<Longrightarrow>
     job_step (BatchJob b) a (BatchJob (b\<lparr>bt_waiting := False, bt_released := True\<rparr>)) a'"
| caller_leaves: "bt_waiting b \<Longrightarrow> job_step (BatchJob b) a (BatchJob (b\<lparr>bt_waiting := False\<rparr>)) a"
| late_release: "bt_worker b = Ended \<Longrightarrow> \<not> bt_waiting b \<Longrightarrow> \<not> bt_released b \<Longrightarrow> release_slot a = (Inr u, a') \<Longrightarrow>
     job_step (BatchJob b) a (BatchJob (b\<lparr>bt_released := True\<rparr>)) a'"
| stream_starts: "acquire_model a = Some a' \<Longrightarrow> job_step (StreamJob StreamQueued) a (StreamJob StreamOpening) a'"
| stream_gives_up: "release_slot a = (Inr u, a') \<Longrightarrow> job_step (StreamJob StreamQueued) a (StreamJob StreamReleased) a'"
| stream_fails: "release_both a = (Inr u, a') \<Longrightarrow> job_step (StreamJob StreamOpening) a (StreamJob StreamReleased) a'"
| stream_opens: "job_step (StreamJob StreamOpening) a (StreamJob StreamOpen) a"
| stream_closes: "job_step (StreamJob StreamOpen) a (StreamJob StreamClosing) a"
| stream_closed: "release_both a = (Inr u, a') \<Longrightarrow> job_step (StreamJob StreamClosing) a (StreamJob StreamReleased) a'"

inductive runtime_step :: "runtime_limits \<Rightarrow> admission \<times> job list \<Rightarrow> admission \<times> job list \<Rightarrow> bool" for rl where
  admit_batch: "reserve_slot rl a = (Inr u, a') \<Longrightarrow>
     runtime_step rl (a, js) (a', js @ [BatchJob \<lparr>bt_worker = Queued, bt_waiting = True, bt_released = False\<rparr>])"
| admit_stream: "reserve_slot rl a = (Inr u, a') \<Longrightarrow> runtime_step rl (a, js) (a', js @ [StreamJob StreamQueued])"
| turned_away: "reserve_slot rl a = (Inl e, a') \<Longrightarrow> runtime_step rl (a, js) (a', js)"
| works: "i < length js \<Longrightarrow> job_step (js ! i) a j a' \<Longrightarrow> runtime_step rl (a, js) (a', js[i := j])"

inductive_simps batch_step: "job_step (BatchJob b) a j a'"
inductive_simps stream_step: "job_step (StreamJob t) a j a'"

fun unsettled :: "job \<Rightarrow> bool" where
  "unsettled (BatchJob b) = (\<not> bt_released b)"
| "unsettled (StreamJob t) = (t \<noteq> StreamReleased)"

fun holds_model :: "job \<Rightarrow> bool" where
  "holds_model (BatchJob b) = (bt_worker b = Running)"
| "holds_model (StreamJob t) = (t \<in> {StreamOpening, StreamOpen, StreamClosing})"

fun job_ok :: "job \<Rightarrow> bool" where
  "job_ok (BatchJob b) = (bt_released b \<longrightarrow> bt_worker b = Ended \<and> \<not> bt_waiting b)"
| "job_ok (StreamJob t) = True"

definition runtime_inv :: "runtime_limits \<Rightarrow> admission \<times> job list \<Rightarrow> bool" where
  "runtime_inv rl s \<longleftrightarrow> (case s of (a, js) \<Rightarrow>
     am_outstanding a = int (length (filter unsettled js)) \<and> am_outstanding a \<le> capacity rl
     \<and> am_free a + length (filter holds_model js) = rl_max_concurrency rl \<and> list_all job_ok js)"

lemmas admission_defs = release_both_def release_model_def release_slot_def reserve_slot_def bindM_def readM_def
  guardM_def modifyM_def

lemma filter_update:
  "i < length js \<Longrightarrow> int (length (filter P (js[i := j]))) = int (length (filter P js)) - of_bool (P (js ! i)) + of_bool (P j)"
proof (induction js arbitrary: i)
  case (Cons x js)
  then show ?case by (cases i) auto
qed simp

text \<open>What a step of one job changes, in units of reservations and permits.\<close>

lemma job_step_effect:
  "job_step x a j a' \<Longrightarrow> job_ok x \<Longrightarrow>
     job_ok j \<and> am_outstanding a' = am_outstanding a - of_bool (unsettled x) + of_bool (unsettled j)
     \<and> int (am_free a') = int (am_free a) + of_bool (holds_model x) - of_bool (holds_model j)"
  by (induction rule: job_step.induct) (auto simp: admission_defs split: if_splits)

lemma job_step_unsettled: "job_step x a j a' \<Longrightarrow> job_ok x \<Longrightarrow> unsettled j \<Longrightarrow> unsettled x"
  by (induction rule: job_step.induct) auto

lemma runtime_step_inv: "runtime_step rl s s' \<Longrightarrow> runtime_inv rl s \<Longrightarrow> runtime_inv rl s'"
proof (induction rule: runtime_step.induct)
  case (works i js a j a')
  have ok: "job_ok (js ! i)" using works by (simp add: runtime_inv_def list_all_length)
  note E = job_step_effect [OF works(2) ok]
  have "am_outstanding a' \<le> am_outstanding a" using E job_step_unsettled [OF works(2) ok] by auto
  moreover have "list_all job_ok (js[i := j])"
    using works E by (simp add: runtime_inv_def list_all_length nth_list_update)
  moreover have "int (am_free a' + length (filter holds_model (js[i := j]))) = int (rl_max_concurrency rl)"
    using works E filter_update [OF works(1), of holds_model j] by (simp add: runtime_inv_def)
  ultimately show ?case
    using works E filter_update [OF works(1), of unsettled j] by (simp add: runtime_inv_def)
qed (auto simp: runtime_inv_def admission_defs split: if_splits)

lemma runtime_reachable_inv: "(runtime_step rl)\<^sup>*\<^sup>* (new_admission rl, []) s \<Longrightarrow> runtime_inv rl s"
proof (induction rule: rtranclp_induct)
  case base
  show ?case by (simp add: runtime_inv_def new_admission_def capacity_def)
qed (rule runtime_step_inv)

section \<open>Draining\<close>

text \<open>The steps a job has still before it.\<close>

fun remaining :: "job \<Rightarrow> nat" where
  "remaining (BatchJob b) = (case bt_worker b of Queued \<Rightarrow> 2 | Running \<Rightarrow> 1 | Ended \<Rightarrow> 0)
     + of_bool (bt_waiting b) + of_bool (\<not> bt_released b)"
| "remaining (StreamJob t) =
     (case t of StreamQueued \<Rightarrow> 4 | StreamOpening \<Rightarrow> 3 | StreamOpen \<Rightarrow> 2 | StreamClosing \<Rightarrow> 1 | StreamReleased \<Rightarrow> 0)"

lemma holder_steps: "holds_model x \<Longrightarrow> \<exists>j a'. job_step x a j a' \<and> remaining j < remaining x"
proof (cases x)
  case (BatchJob b)
  assume "holds_model x"
  then show ?thesis using BatchJob job_step.worker_ends [of b a "()"]
    by (force simp: admission_defs split: worker.splits)
next
  case (StreamJob t)
  assume "holds_model x"
  then show ?thesis using StreamJob job_step.stream_opens job_step.stream_closes job_step.stream_closed [of a "()"]
    by (cases t) (force simp: admission_defs)+
qed

lemma unsettled_steps:
  assumes "unsettled x" "0 < am_free a \<or> holds_model x"
  shows "\<exists>j a'. job_step x a j a' \<and> remaining j < remaining x"
proof (cases "holds_model x")
  case False
  show ?thesis
  proof (cases x)
    case (BatchJob b)
    show ?thesis
    proof (cases "bt_worker b")
      case Queued
      then show ?thesis using BatchJob assms False job_step.worker_starts [OF Queued, of a]
        by (intro exI conjI) (auto simp: BatchJob)
    next
      case Running
      then show ?thesis using BatchJob False by simp
    next
      case Ended
      have r: "release_slot a = (Inr (), snd (release_slot a))" by (simp add: admission_defs)
      show ?thesis
      proof (cases "bt_waiting b")
        case True
        then show ?thesis
          using BatchJob assms(1) Ended job_step.caller_returns [OF Ended True r] by (intro exI conjI) (auto simp: BatchJob)
      next
        case False
        then show ?thesis
          using BatchJob assms(1) Ended job_step.late_release [OF Ended False _ r] by (intro exI conjI) (auto simp: BatchJob)
      qed
    qed
  next
    case (StreamJob t)
    then show ?thesis using assms False job_step.stream_gives_up [of a "()"]
      by (cases t) (force simp: admission_defs)+
  qed
qed (rule holder_steps)

definition drains :: "runtime_limits \<Rightarrow> admission \<times> job list \<Rightarrow> bool" where
  "drains rl s \<longleftrightarrow> (\<exists>a js. (runtime_step rl)\<^sup>*\<^sup>* s (a, js) \<and> length js = length (snd s)
     \<and> am_outstanding a = 0 \<and> am_free a = rl_max_concurrency rl)"

lemma drains_step: "runtime_step rl s s' \<Longrightarrow> length (snd s') = length (snd s) \<Longrightarrow> drains rl s' \<Longrightarrow> drains rl s"
  unfolding drains_def by (metis converse_rtranclp_into_rtranclp)

lemma holder_unsettled: "job_ok x \<Longrightarrow> holds_model x \<Longrightarrow> unsettled x"
  by (cases x) auto

lemma runtime_drains:
  assumes "0 < rl_max_concurrency rl"
  shows "runtime_inv rl (a, js) \<Longrightarrow> drains rl (a, js)"
proof (induction js arbitrary: a rule: measure_induct_rule [of "\<lambda>js. sum_list (map remaining js)"])
  case (less js)
  note inv = less.prems [unfolded runtime_inv_def, simplified]
  show ?case
  proof (cases "filter unsettled js = []")
    case True
    have "\<not> holds_model x" if "x \<in> set js" for x
      using that True inv holder_unsettled [of x] by (auto simp: filter_empty_conv list_all_iff)
    then have "filter holds_model js = []" by (simp add: filter_empty_conv)
    then show ?thesis using True inv unfolding drains_def by (intro exI [of _ a] exI [of _ js]) simp
  next
    case False
    have "\<exists>x \<in> set js. unsettled x \<and> (0 < am_free a \<or> holds_model x)"
    proof (cases "am_free a = 0")
      case True
      then have "filter holds_model js \<noteq> []" using inv assms by (cases "filter holds_model js = []") simp_all
      then obtain x where "x \<in> set js" "holds_model x" by (auto simp: filter_empty_conv)
      moreover from this have "unsettled x" using inv holder_unsettled [of x] by (simp add: list_all_iff)
      ultimately show ?thesis by blast
    next
      case False
      then show ?thesis using \<open>filter unsettled js \<noteq> []\<close> by (auto simp: filter_empty_conv)
    qed
    then obtain i where i: "i < length js" "unsettled (js ! i)" "0 < am_free a \<or> holds_model (js ! i)"
      by (auto simp: in_set_conv_nth)
    obtain j a' where j: "job_step (js ! i) a j a'" "remaining j < remaining (js ! i)"
      using unsettled_steps [OF i(2,3)] by blast
    have step: "runtime_step rl (a, js) (a', js[i := j])" by (rule runtime_step.works [OF i(1) j(1)])
    have "sum_list (map remaining (js[i := j])) < sum_list (map remaining js)"
      using i(1) j(2) elem_le_sum_list [of i "map remaining js"]
      by (simp add: map_update sum_list_update)
    from less.IH [OF this runtime_step_inv [OF step less.prems]] show ?thesis
      by (rule drains_step [OF step, rotated]) simp
  qed
qed

section \<open>Properties\<close>

text \<open>
  Property C7. Whatever the requests do, in every state the runtime can reach: the counter is the number of
  requests that have not released their reservation, and never exceeds concurrency plus queue; no more
  than \<^verbatim>\<open>max_concurrency\<close> of them use the model, and every permit is accounted for; a request whose caller
  gave up keeps its place until its worker has ended. No reservation is ever lost: without further
  requests the running ones can drain, and then the whole capacity is free again.
\<close>

theorem admission_bounded:
  assumes "0 < rl_max_concurrency rl" and "(runtime_step rl)\<^sup>*\<^sup>* (new_admission rl, []) (a, js)"
  shows "am_outstanding a = int (length (filter unsettled js)) \<and> am_outstanding a \<le> capacity rl
    \<and> am_free a + length (filter holds_model js) = rl_max_concurrency rl
    \<and> (\<forall>b. BatchJob b \<in> set js \<and> bt_released b \<longrightarrow> bt_worker b = Ended)
    \<and> drains rl (a, js)"
proof -
  have inv: "runtime_inv rl (a, js)" by (rule runtime_reachable_inv [OF assms(2)])
  then have "\<forall>b. BatchJob b \<in> set js \<and> bt_released b \<longrightarrow> bt_worker b = Ended"
    by (fastforce simp: runtime_inv_def list_all_iff)
  with inv runtime_drains [OF assms(1) inv] show ?thesis by (simp add: runtime_inv_def)
qed

text \<open>One model, a queue of one: a worker runs on although its caller is gone, and a stream waits.\<close>

definition demo_queue :: runtime_limits where
  "demo_queue = \<lparr>rl_max_concurrency = 1, rl_queue_capacity = 1\<rparr>"

definition demo_jobs :: "job list" where
  "demo_jobs = [BatchJob \<lparr>bt_worker = Running, bt_waiting = False, bt_released = False\<rparr>, StreamJob StreamQueued]"

lemma demo_jobs_reachable:
  "(runtime_step demo_queue)\<^sup>*\<^sup>* (new_admission demo_queue, []) (\<lparr>am_outstanding = 2, am_free = 0\<rparr>, demo_jobs)"
proof -
  let ?b = "\<lparr>bt_worker = Queued, bt_waiting = True, bt_released = False\<rparr>"
  have 1: "runtime_step demo_queue (new_admission demo_queue, []) (\<lparr>am_outstanding = 1, am_free = 1\<rparr>, [BatchJob ?b])"
    using runtime_step.admit_batch [of demo_queue "new_admission demo_queue" "()" _ "[]"]
    by (simp add: new_admission_def demo_queue_def capacity_def admission_defs)
  have 2: "runtime_step demo_queue (\<lparr>am_outstanding = 1, am_free = 1\<rparr>, [BatchJob ?b])
      (\<lparr>am_outstanding = 2, am_free = 1\<rparr>, [BatchJob ?b, StreamJob StreamQueued])"
    using runtime_step.admit_stream [of demo_queue "\<lparr>am_outstanding = 1, am_free = 1\<rparr>" "()" _ "[BatchJob ?b]"]
    by (simp add: demo_queue_def capacity_def admission_defs)
  have w: "job_step (BatchJob ?b) \<lparr>am_outstanding = 2, am_free = 1\<rparr> (BatchJob (?b\<lparr>bt_worker := Running\<rparr>)) \<lparr>am_outstanding = 2, am_free = 0\<rparr>"
    by (rule job_step.worker_starts) simp_all
  have l: "job_step (BatchJob (?b\<lparr>bt_worker := Running\<rparr>)) x (BatchJob (?b\<lparr>bt_worker := Running, bt_waiting := False\<rparr>)) x" for x
    by (rule job_step.caller_leaves) simp
  have 3: "runtime_step demo_queue (\<lparr>am_outstanding = 2, am_free = 1\<rparr>, [BatchJob ?b, StreamJob StreamQueued])
      (\<lparr>am_outstanding = 2, am_free = 0\<rparr>, [BatchJob ?b, StreamJob StreamQueued][0 := BatchJob (?b\<lparr>bt_worker := Running\<rparr>)])"
    by (rule runtime_step.works, simp, simp only: nth_Cons_0, rule w)
  have 4: "runtime_step demo_queue (\<lparr>am_outstanding = 2, am_free = 0\<rparr>, [BatchJob (?b\<lparr>bt_worker := Running\<rparr>), StreamJob StreamQueued])
      (\<lparr>am_outstanding = 2, am_free = 0\<rparr>, [BatchJob (?b\<lparr>bt_worker := Running\<rparr>), StreamJob StreamQueued]
         [0 := BatchJob (?b\<lparr>bt_worker := Running, bt_waiting := False\<rparr>)])"
    by (rule runtime_step.works, simp, simp only: nth_Cons_0, rule l)
  have "(runtime_step demo_queue)\<^sup>*\<^sup>* (new_admission demo_queue, []) (\<lparr>am_outstanding = 2, am_free = 0\<rparr>,
      [BatchJob (?b\<lparr>bt_worker := Running, bt_waiting := False\<rparr>), StreamJob StreamQueued])"
    using 1 2 3 [unfolded list_update.simps nat.case] 4 [unfolded list_update.simps nat.case]
    by (meson converse_rtranclp_into_rtranclp rtranclp.rtrancl_refl)
  then show ?thesis by (simp add: demo_jobs_def)
qed

theorem admission_bounded_witness: "(2 :: int) \<le> capacity demo_queue \<and> drains demo_queue (\<lparr>am_outstanding = 2, am_free = 0\<rparr>, demo_jobs)"
  using admission_bounded [OF _ demo_jobs_reachable] by (simp add: demo_queue_def)

end
