(* ===== verification/Spec2Isabelle.thy ===== *)
theory Spec2Isabelle
  imports Aggregation Runtime Engine StreamServer Fetch Analysis Admission Trends
begin

text \<open>
  Verification of the call-analytics service \<^verbatim>\<open>mtbank_ai\<close>.

  \<^bold>\<open>The program.\<close> A recorded call comes in as a file, a base64 body or a URL. The use case
  (\<^verbatim>\<open>workflow/analysis.py\<close>) fetches the media (\<^verbatim>\<open>workflow/fetch.py\<close>), has it transcribed by the separate
  speech service (\<^verbatim>\<open>services/speech\<close>: recognition, alignment, diarisation, roles), starts four agents side by
  side, each inside the bounded runtime (\<^verbatim>\<open>agent_runtime\<close>) that talks to a model through the resilient client, puts
  their results together against versioned policy packs (\<^verbatim>\<open>workflow/aggregation.py\<close>) and stores envelope, event log
  and a sanitised record in one transaction. A second way in is live audio: a WebSocket client
  (\<^verbatim>\<open>speech/streaming.py\<close>) in front of the service's streaming endpoint, behind which a rolling session transcribes the
  last seconds of audio again and again. The trends agent reads the stored records.

  \<^bold>\<open>Conventions.\<close> Paths without \<^verbatim>\<open>services/\<close> are below \<^verbatim>\<open>src/mtbank_ai/\<close>. A pydantic model is a record and a
  function \<open>validate_M\<close> to an exception or the model as the code keeps it (stripped strings included); a raise is an
  \<open>Inl\<close> of \<open>exn\<close>; stateful code is a function of \<open>('s, 'a) comp\<close> from a state to an exception or value and
  the state after it. Strings are lists of code points, bytes lists of 8-bit words, floats exact rational values with the
  rounding of each operation written out, times integers (microseconds for dates, milliseconds in transcripts). What
  is not in the repository is an argument: databases, model providers, speech models, clocks, hashes, JSON text, the resolver.

  \<^bold>\<open>Theories\<close>, each with its source:

  \<^item> \<open>Prelude\<close>: Python strings, fallible results, the locale \<open>validator\<close> (validation is idempotent), which every
    model interprets. \<open>Effects\<close>: the state-and-exception combinators, \<^verbatim>\<open>try/except/finally\<close>, and their triples
    \<open>hoare\<close>, \<open>keeps\<close>. \<open>Json\<close>: JSON values and strict decoding.
  \<^item> \<open>Errors\<close>, \<open>Base\<close>: \<^verbatim>\<open>domain/errors.py\<close>, \<^verbatim>\<open>domain/base.py\<close>.
  \<^item> \<open>Decimals\<close>: the default decimal context and binary doubles; the locale \<open>rounding\<close> is interpreted on both.
  \<^item> \<open>Transcript\<close>, \<open>Results\<close>: \<^verbatim>\<open>domain/transcript.py\<close>, \<^verbatim>\<open>domain/provenance.py\<close>, \<^verbatim>\<open>domain/agents.py\<close>,
    \<^verbatim>\<open>domain/analysis.py\<close>. An accepted transcript is consistent and a fixed point of its validator.
  \<^item> \<open>Policies\<close>: \<^verbatim>\<open>policies/loader.py\<close>; the packs read are contained in the policy root, semantically valid, and never
    change once loaded.
  \<^item> \<open>Aggregation\<close>: \<^verbatim>\<open>workflow/aggregation.py\<close>; the fan-in is characterised on every input, the score is bounded and monotone
    in the decimal arithmetic of the code, the compliance verdict is that of the policy.
  \<^item> \<open>Contracts\<close>, \<open>Tools\<close>: \<^verbatim>\<open>agent_runtime/contracts.py\<close>, \<^verbatim>\<open>tools.py\<close>, \<^verbatim>\<open>authorization.py\<close>; authorisation is
    equivalent to an allowlist stated on its own, a tool's every outcome is classified.
  \<^item> \<open>Lifecycle\<close>: \<^verbatim>\<open>domain/events.py\<close>, \<^verbatim>\<open>agent_runtime/events.py\<close> and the event collector of the workflow; the locale
    \<open>event_log\<close> is interpreted on both recorders. Logs are numbered hash chains, redacted and tamper evident.
  \<^item> \<open>Retry\<close>: \<^verbatim>\<open>agent_runtime/retry.py\<close>; the circuit breaker over all its reachable states, the retry loops of
    \<^verbatim>\<open>complete\<close> and \<^verbatim>\<open>stream\<close>, the bounds of attempts and waits, and the probe lease, which \<^verbatim>\<open>complete\<close> can lose.
  \<^item> \<open>Runtime\<close>: \<^verbatim>\<open>agent_runtime/runtime.py\<close>. The state keeps the trajectory and, for the proofs, the tools started and the calls
    of the model. The locales \<open>quiet_invariant\<close>, \<open>record_invariant\<close>, \<open>model_invariant\<close>,
    \<open>handler_invariant\<close> and \<open>run_invariant\<close> say which steps may touch what a property speaks of. A run stays within tools
    and budgets, is charged the sum of all its answers, and ends with one terminal event.
  \<^item> \<open>Speech\<close>: \<^verbatim>\<open>speech/contracts.py\<close>, \<^verbatim>\<open>speech/roles.py\<close>. \<open>Engine\<close>: \<^verbatim>\<open>services/speech/adapters.py\<close>,
    \<^verbatim>\<open>engine.py\<close>; words are kept in order from the recogniser to the snapshot, speakers are those of greatest overlap.
  \<^item> \<open>Ogg\<close>, \<open>Rolling\<close>: \<^verbatim>\<open>services/speech/streaming.py\<close>. The incremental page validator is equivalent to a grammar of
    pages; the rolling session keeps the last window, delivers growing stable prefixes and one final update.
  \<^item> \<open>Streaming\<close>: \<^verbatim>\<open>speech/streaming.py\<close>, with the locale \<open>stream_session\<close>, the contract of a session, interpreted on
    the WebSocket client here, on the rolling session in \<open>Rolling\<close> and on the reserved session in \<open>Admission\<close>.
    \<open>StreamServer\<close>: the streaming endpoint of \<^verbatim>\<open>services/speech/app.py\<close>; client, link and endpoint over a rolling session
    refine the session fed directly.
  \<^item> \<open>Admission\<close>: \<^verbatim>\<open>services/speech/runtime.py\<close>; the tasks are a step relation, one step per run to the next
    \<^verbatim>\<open>await\<close>, with the bounds as an inductive invariant.
  \<^item> \<open>Fetch\<close>: \<^verbatim>\<open>workflow/fetch.py\<close>; what may reach the network and what may come back.
  \<^item> \<open>Evidence\<close>, \<open>Analysis\<close>: \<^verbatim>\<open>evidence/envelope.py\<close>, \<^verbatim>\<open>storage/repositories.py\<close>,
    \<^verbatim>\<open>workflow/analysis.py\<close>; the five ways a run ends and what each leaves in the store.
  \<^item> \<open>Trends\<close>: \<^verbatim>\<open>trends.py\<close>, \<^verbatim>\<open>api/routes/trends.py\<close>; the numbers of an answer are those of trusted code.

  \<^bold>\<open>Loops and fuel.\<close> Recursion is structural wherever the code walks a list. \<open>receive_until\<close> has
  \<open>wl_max_updates + 1\<close> rounds (\<open>receive_rounds_fuel\<close>: an update more is refused), the streaming endpoint
  \<open>st_max_session_bytes + 1\<close> (\<open>stream_rounds_fuel\<close>: each frame has a byte), \<open>fetch_hops\<close> one hop more than the
  redirects allowed, the model's turns their budget, the retry loops their attempts. The interleaving of the concurrent
  reads of a turn is an arbitrary schedule of task steps, to which \<open>full_schedule\<close> appends two rounds over all tasks: this models
  that the code waits for all of them; it is not a claim of the development.

  \<^bold>\<open>Hypotheses.\<close> \<open>transactional\<close>, \<open>dependable\<close>: the database makes the statements of a transaction durable
  at the commit or not at all, and fetch, speech service, clock and agents leave the store and each other's events alone.
  \<open>recording_ok\<close>: the sink accepts events, hashes are SHA-256, case folding keeps lower-case keys. \<open>codec_ok\<close>,
  \<open>tool_ok\<close>, \<open>registry_ok\<close>: what the JSON codec and a tool's models raise. \<open>stream_alone\<close>: no other task uses
  the breaker during the call. \<open>faithful_repr\<close>: the text of a double is within half a unit of it. Injectivity of the hash is
  asked for where a chain is to identify its log, on the contents at hand.
  Every theorem with a hypothesis is applied at a concrete input by its \<open>_witness\<close>.

  \<^bold>\<open>Not modelled.\<close> Cancellation is not an exception of the model: \<open>catchM\<close> of the client's \<^verbatim>\<open>except Exception\<close> is exact on
  \<open>exn\<close> only, and a handler cancelled in a failing turn counts as not started. Telemetry is left out. The two checks of the
  pinned host in \<^verbatim>\<open>fetch.py\<close> are one, without the IDNA form of the host. A JSON text nested so deep that \<^verbatim>\<open>json.loads\<close> raises
  RecursionError is a refused text like any other. Sums of doubles run from left to right as up to Python 3.11, and address classes are
  those of its \<^verbatim>\<open>ipaddress\<close>. Speech models, FFmpeg, PostgreSQL, HTTP and WebSocket libraries are parameters; application wiring,
  migrations, configuration from the environment, deployment and evaluation scripts are not modelled.
\<close>

end
